(* ===== verification/Prelude.thy ===== *)
theory Prelude
  imports Main "HOL-Library.Word"
begin

text \<open>
  Shared vocabulary of the development: the machine types of the Rust sources, the propagation
  operator of fallible pure code, big-endian integers, checked arithmetic on \<open>usize\<close>, the
  outcome monad of effectful code, and the generic list and byte lemmas that the component
  theories rely on.

  Byte slices, vectors and fixed arrays are lists of \<open>8 word\<close>; a Rust \<open>str\<close> is a \<open>string\<close>
  whose characters are its UTF-8 bytes.  A \<open>usize\<close> is a natural number with the 64-bit bound
  written where the code checks it; \<open>u16\<close>, \<open>u32\<close> and \<open>u64\<close> values are words.
\<close>

named_theorems codec_simps \<open>equations that open encoders and decoders\<close>
named_theorems res_simps \<open>equations that run fallible pure code\<close>
named_theorems run_simps \<open>equations that run effectful code\<close>

section \<open>Machine types\<close>

type_synonym u8 = "8 word"
type_synonym u16 = "16 word"
type_synonym u32 = "32 word"
type_synonym u64 = "64 word"
type_synonym bytes = "8 word list"

definition usize_bound :: nat where
  "usize_bound = 2 ^ 64"

definition checked_add_usize :: "nat \<Rightarrow> nat \<Rightarrow> nat option" where
  "checked_add_usize a b = (if a + b < usize_bound then Some (a + b) else None)"

definition checked_mul_usize :: "nat \<Rightarrow> nat \<Rightarrow> nat option" where
  "checked_mul_usize a b = (if a * b < usize_bound then Some (a * b) else None)"

definition checked_add_u64 :: "u64 \<Rightarrow> u64 \<Rightarrow> u64 option" where
  "checked_add_u64 a b = (if unat a + unat b < 2 ^ 64 then Some (a + b) else None)"

type_synonym instant = nat
type_synonym duration = nat

text \<open>\<open>Instant::checked_add\<close>, in nanoseconds: the seconds are a signed 64-bit integer.\<close>

definition instant_checked_add :: "instant \<Rightarrow> duration \<Rightarrow> instant option" where
  "instant_checked_add t d = (if (t + d) div 10 ^ 9 < 2 ^ 63 then Some (t + d) else None)"

text \<open>\<open>str::as_bytes\<close>.\<close>

definition as_bytes :: "string \<Rightarrow> bytes" where
  "as_bytes s = map of_char s"

lemma next_u64:
  assumes "q \<noteq> - 1"
  shows "checked_add_u64 q 1 = Some (q + 1)" and "unat (q + 1) = unat q + 1"
proof -
  have "unat q \<noteq> unat (- 1 :: u64)" using assms by (metis word_unat_eq_iff)
  moreover have "unat (- 1 :: u64) = 2 ^ 64 - 1" by (simp add: unsigned_minus_1_eq_mask mask_eq_exp_minus_1)
  moreover have "unat q < 2 ^ 64" by (rule order_less_le_trans [OF unsigned_less]) simp
  ultimately have less: "unat q + 1 < 2 ^ 64" by simp
  then show "checked_add_u64 q 1 = Some (q + 1)" by (simp add: checked_add_u64_def)
  show "unat (q + 1) = unat q + 1" using less by (simp add: unat_word_ariths)
qed

section \<open>Fallible pure code\<close>

text \<open>The \<open>?\<close> operator on a \<open>Result\<close>: an error is the value of the whole function.\<close>

fun rbind :: "'e + 'a \<Rightarrow> ('a \<Rightarrow> 'e + 'b) \<Rightarrow> 'e + 'b" where
  "rbind (Inl e) f = Inl e"
| "rbind (Inr a) f = f a"

fun map_err :: "('e \<Rightarrow> 'f) \<Rightarrow> 'e + 'a \<Rightarrow> 'f + 'a" where
  "map_err g (Inl e) = Inl (g e)"
| "map_err g (Inr a) = Inr a"

definition ok_or :: "'e \<Rightarrow> 'a option \<Rightarrow> 'e + 'a" where
  "ok_or e x = (case x of None \<Rightarrow> Inl e | Some a \<Rightarrow> Inr a)"

fun is_ok :: "'e + 'a \<Rightarrow> bool" where
  "is_ok (Inl e) = False"
| "is_ok (Inr a) = True"

lemma ok_or_simps [simp, res_simps]:
  "ok_or e None = Inl e"
  "ok_or e (Some a) = Inr a"
  by (simp_all add: ok_or_def)

lemma rbind_Inr_iff: "rbind m f = Inr b \<longleftrightarrow> (\<exists>a. m = Inr a \<and> f a = Inr b)"
  by (cases m) auto

lemma rbind_Inl_iff: "rbind m f = Inl e \<longleftrightarrow> m = Inl e \<or> (\<exists>a. m = Inr a \<and> f a = Inl e)"
  by (cases m) auto

lemma rbind_InrE:
  assumes "rbind m f = Inr b"
  obtains a where "m = Inr a" and "f a = Inr b"
  using assms by (auto simp: rbind_Inr_iff)

lemma map_err_Inr_iff [simp]: "map_err g m = Inr a \<longleftrightarrow> m = Inr a"
  by (cases m) auto

lemma ok_or_Inr_iff [simp]: "ok_or e x = Inr a \<longleftrightarrow> x = Some a"
  by (cases x) auto

lemma is_ok_iff: "is_ok r \<longleftrightarrow> (\<exists>a. r = Inr a)"
  by (cases r) auto

section \<open>Big-endian integers\<close>

text \<open>
  \<open>to_be_bytes\<close> of an \<open>n\<close>-byte integer with value \<open>x\<close> (a cast to a narrower integer
  keeps the low bytes), and the value that \<open>from_be_bytes\<close> reads.
\<close>

fun be_bytes :: "nat \<Rightarrow> nat \<Rightarrow> bytes" where
  "be_bytes 0 x = []"
| "be_bytes (Suc n) x = of_nat (x div 256 ^ n) # be_bytes n x"

fun be_nat :: "bytes \<Rightarrow> nat" where
  "be_nat [] = 0"
| "be_nat (b # bs) = unat b * 256 ^ length bs + be_nat bs"

lemma length_be_bytes [simp]: "length (be_bytes n x) = n"
  by (induction n) auto

lemma unat_of_nat_byte [simp]: "unat (of_nat x :: u8) = x mod 256"
  by (simp add: unat_of_nat)

lemma be_nat_be_bytes: "be_nat (be_bytes n x) = x mod 256 ^ n"
proof (induction n)
  case 0
  show ?case by simp
next
  case (Suc n)
  have "x mod 256 ^ Suc n = x mod (256 ^ n * 256)" by (simp add: mult.commute)
  also have "\<dots> = 256 ^ n * (x div 256 ^ n mod 256) + x mod 256 ^ n"
    by (rule mod_mult2_eq)
  finally show ?case using Suc by (simp add: mult.commute)
qed

lemma be_nat_be_bytes_small [simp]: "x < 256 ^ n \<Longrightarrow> be_nat (be_bytes n x) = x"
  by (simp add: be_nat_be_bytes)

lemma unat_byte_less [simp]: "unat (b :: u8) < 256"
  by (rule order_less_le_trans [OF unsigned_less]) simp

lemma of_nat_byte_mult_add: "(of_nat (k * 256 + y) :: u8) = of_nat y"
  by (simp only: word_unat_eq_iff unat_of_nat_byte) simp

lemma be_nat_bound: "be_nat bs < 256 ^ length bs"
proof (induction bs)
  case Nil
  show ?case by simp
next
  case (Cons b bs)
  have "unat b + 1 \<le> 256" using unat_byte_less [of b] by linarith
  then have "(unat b + 1) * 256 ^ length bs \<le> 256 * 256 ^ length bs"
    by (rule mult_le_mono1)
  then have "unat b * 256 ^ length bs + 256 ^ length bs \<le> 256 * 256 ^ length bs"
    by (simp only: add_mult_distrib mult_1)
  with Cons show ?case by (simp only: be_nat.simps length_Cons power_Suc)
qed

lemma be_bytes_add_mult: "be_bytes n (k * 256 ^ n + x) = be_bytes n x"
proof (induction n arbitrary: k)
  case 0
  show ?case by simp
next
  case (Suc n)
  have split: "k * 256 ^ Suc n + x = (k * 256) * 256 ^ n + x" by simp
  have "(k * 256 ^ Suc n + x) div 256 ^ n = k * 256 + x div 256 ^ n"
    by (simp only: split) simp
  then have "(of_nat ((k * 256 ^ Suc n + x) div 256 ^ n) :: u8) = of_nat (x div 256 ^ n)"
    by (simp only: of_nat_byte_mult_add)
  moreover have "be_bytes n (k * 256 ^ Suc n + x) = be_bytes n x"
    by (simp only: split Suc.IH)
  ultimately show ?case by (simp only: be_bytes.simps)
qed

lemma be_bytes_be_nat [simp]: "be_bytes (length bs) (be_nat bs) = bs"
proof (induction bs)
  case Nil
  show ?case by simp
next
  case (Cons b bs)
  have "be_nat (b # bs) div 256 ^ length bs = unat b"
    using be_nat_bound [of bs] by simp
  then show ?case using Cons be_bytes_add_mult [of "length bs" "unat b" "be_nat bs"]
    by (simp del: be_nat.simps) (simp)
qed

lemma be_bytes_eq_iff: "length bs = n \<Longrightarrow> be_bytes n (be_nat bs) = bs"
  by auto

lemma be_nat_inject: "length xs = length ys \<Longrightarrow> be_nat xs = be_nat ys \<longleftrightarrow> xs = ys"
  by (metis be_bytes_be_nat)

lemma be_bytes_inject: "x < 256 ^ n \<Longrightarrow> y < 256 ^ n \<Longrightarrow> be_bytes n x = be_bytes n y \<longleftrightarrow> x = y"
  by (metis be_nat_be_bytes_small)

section \<open>Slices\<close>

text \<open>\<open>buf.get(i..j)\<close>: \<open>None\<close> unless \<open>i \<le> j \<le> len\<close>.\<close>

definition slice_get :: "'a list \<Rightarrow> nat \<Rightarrow> nat \<Rightarrow> 'a list option" where
  "slice_get xs i j = (if i \<le> j \<and> j \<le> length xs then Some (take (j - i) (drop i xs)) else None)"

lemma slice_get_append: "slice_get (xs @ ys @ zs) (length xs) (length xs + length ys) = Some ys"
  by (simp add: slice_get_def)

lemma slice_get_SomeD:
  "slice_get xs i j = Some ys \<Longrightarrow> i \<le> j \<and> j \<le> length xs \<and> length ys = j - i \<and> xs = take i xs @ ys @ drop j xs"
  by (auto simp: slice_get_def split: if_splits)
     (metis append_take_drop_id drop_drop le_add_diff_inverse2)

lemma as_bytes_simps [simp]:
  "as_bytes [] = []"
  "as_bytes (c # s) = of_char c # as_bytes s"
  "as_bytes (s @ t) = as_bytes s @ as_bytes t"
  "length (as_bytes s) = length s"
  by (simp_all add: as_bytes_def)

lemma unat_of_char [simp]: "unat (of_char c :: u8) = of_char c"
proof -
  have "(of_char c :: u8) = of_nat (of_char c)" by (rule of_nat_of_char [symmetric])
  then have "unat (of_char c :: u8) = unat (of_nat (of_char c) :: u8)" by (rule arg_cong)
  then show ?thesis by simp
qed

lemma of_char_byte_inject [simp]: "(of_char c :: u8) = of_char d \<longleftrightarrow> c = d"
proof
  assume "(of_char c :: u8) = of_char d"
  then have "unat (of_char c :: u8) = unat (of_char d :: u8)" by simp
  then have "(of_char c :: nat) = of_char d" by simp
  then show "c = d" by simp
qed simp

lemma as_bytes_inject [simp]: "as_bytes s = as_bytes t \<longleftrightarrow> s = t"
proof (induction s arbitrary: t)
  case Nil
  then show ?case by (cases t) auto
next
  case (Cons c s)
  then show ?case by (cases t) auto
qed

section \<open>Effectful code\<close>

text \<open>
  An effectful operation maps the state to an outcome and a state.  \<open>Done a\<close> is \<open>Ok(a)\<close>,
  \<open>Fail e\<close> is \<open>Err(e)\<close>, and \<open>Crash\<close> is the death of the process at that point: the code
  never observes it, nothing after it runs, and the state is what it left behind.
\<close>

datatype ('e, 'a) outcome = Done 'a | Fail 'e | Crash

type_synonym ('s, 'e, 'a) eff = "'s \<Rightarrow> ('e, 'a) outcome \<times> 's"

definition ret :: "'a \<Rightarrow> ('s, 'e, 'a) eff" where
  "ret a s = (Done a, s)"

definition fail :: "'e \<Rightarrow> ('s, 'e, 'a) eff" where
  "fail e s = (Fail e, s)"

definition bindM :: "('s, 'e, 'a) eff \<Rightarrow> ('a \<Rightarrow> ('s, 'e, 'b) eff) \<Rightarrow> ('s, 'e, 'b) eff" where
  "bindM m f s = (case m s of
     (Done a, s') \<Rightarrow> f a s'
   | (Fail e, s') \<Rightarrow> (Fail e, s')
   | (Crash, s') \<Rightarrow> (Crash, s'))"

text \<open>A pure result inside effectful code, and the result of a call kept as a value.\<close>

definition liftR :: "'e + 'a \<Rightarrow> ('s, 'e, 'a) eff" where
  "liftR r s = (case r of Inl e \<Rightarrow> (Fail e, s) | Inr a \<Rightarrow> (Done a, s))"

definition tryM :: "('s, 'e, 'a) eff \<Rightarrow> ('s, 'f, 'e + 'a) eff" where
  "tryM m s = (case m s of
     (Done a, s') \<Rightarrow> (Done (Inr a), s')
   | (Fail e, s') \<Rightarrow> (Done (Inl e), s')
   | (Crash, s') \<Rightarrow> (Crash, s'))"

text \<open>\<open>let _ = m;\<close>: the result is dropped.\<close>

definition ignoreM :: "('s, 'e, 'a) eff \<Rightarrow> ('s, 'f, unit) eff" where
  "ignoreM m = bindM (tryM m) (\<lambda>_. ret ())"

definition mapM_err :: "('e \<Rightarrow> 'f) \<Rightarrow> ('s, 'e, 'a) eff \<Rightarrow> ('s, 'f, 'a) eff" where
  "mapM_err g m s = (case m s of
     (Done a, s') \<Rightarrow> (Done a, s')
   | (Fail e, s') \<Rightarrow> (Fail (g e), s')
   | (Crash, s') \<Rightarrow> (Crash, s'))"

fun forM :: "'b list \<Rightarrow> ('b \<Rightarrow> ('s, 'e, unit) eff) \<Rightarrow> ('s, 'e, unit) eff" where
  "forM [] f = ret ()"
| "forM (x # xs) f = bindM (f x) (\<lambda>_. forM xs f)"

lemma bindM_ret [simp]: "bindM (ret a) f = f a"
  by (rule ext) (simp add: bindM_def ret_def)

lemma bindM_ret_right [simp]: "bindM m ret = m"
  by (rule ext) (auto simp: bindM_def ret_def split: prod.splits outcome.splits)

lemma bindM_fail [simp]: "bindM (fail e) f = fail e"
  by (rule ext) (simp add: bindM_def fail_def)

lemma bindM_assoc: "bindM (bindM m f) g = bindM m (\<lambda>a. bindM (f a) g)"
  by (rule ext) (auto simp: bindM_def split: prod.splits outcome.splits)

lemma liftR_simps [simp]: "liftR (Inl e) = fail e" "liftR (Inr a) = ret a"
  by (rule ext, simp add: liftR_def fail_def ret_def)+

lemma run_ret [run_simps]: "ret a s = (Done a, s)"
  and run_fail [run_simps]: "fail e s = (Fail e, s)"
  by (simp_all add: ret_def fail_def)

lemma bindM_Done_iff:
  "bindM m f s = (Done b, s') \<longleftrightarrow> (\<exists>a s1. m s = (Done a, s1) \<and> f a s1 = (Done b, s'))"
  by (auto simp: bindM_def split: prod.splits outcome.splits)

lemma ret_Done_iff: "ret a s = (Done b, s') \<longleftrightarrow> b = a \<and> s' = s"
  by (auto simp: ret_def)

lemma liftR_Done_iff: "liftR r s = (Done b, s') \<longleftrightarrow> r = Inr b \<and> s' = s"
  by (auto simp: liftR_def split: sum.splits)

lemmas done_iffs = bindM_Done_iff ret_Done_iff liftR_Done_iff

end
