(* ===== verification/Errors.thy ===== *)
theory Errors
  imports Prelude
begin

text \<open>
  The crate's error type, \<^verbatim>\<open>src/src/error.rs\<close>: \<open>ErrorKind\<close> with its payloads, \<open>LithiumError\<close>
  with its optional source, the constructors the other modules call, the two classification
  predicates on I/O errors, the coarse error handed across a trust boundary, and \<open>Display\<close>.
  A boxed source error is kept as what the code can observe of it: whether it downcasts to
  \<open>std::io::Error\<close> (and then its \<open>io::ErrorKind\<close>), and its \<open>Display\<close> text.
\<close>

section \<open>Data\<close>

text \<open>\<open>std::io::ErrorKind\<close>: the kinds the crate tells apart, and the operating system's others.\<close>

datatype io_kind = NotFound | AlreadyExists | PermissionDenied | NotADirectory | IsADirectory
  | FilesystemLoop | WouldBlock | OtherIo nat

datatype error_kind =
    InvalidLength nat nat
  | InvalidHexLength nat nat
  | InvalidHex
  | HexDisallowedPrefix
  | HexMustBeLowercase
  | StringPolicy
  | InvalidUtf string
  | MissingHeader string
  | InvalidUtf8Header string
  | JsonParse
  | JsonNotObject
  | JsonMissingField string
  | JsonTypeMismatch string string
  | AeadFailed
  | KdfFailed
  | KemInvalidCiphertext
  | InvalidPublicKey string string
  | KeyImportFailed string
  | InvalidContext string
  | RandomFailed
  | InvalidCredentials string
  | InvalidPermissions string
  | MalformedKeyfile
  | MalformedInput string
  | KeystoreLocked
  | TtlTooLarge
  | EnvMissing string
  | EnvInvalid string
  | StateMissing string
  | Io
  | Timeout
  | Transport
  | HttpStatus u16
  | OpaqueProtocol string
  | Internal string
  | Opaque

datatype err_source = IoSource io_kind string | OtherSource string

record lithium_error =
  kind :: error_kind
  source :: "err_source option"

type_synonym 'a result = "lithium_error + 'a"
type_synonym ('s, 'a) leff = "('s, lithium_error, 'a) eff"

section \<open>Constructors\<close>

definition new_error :: "error_kind \<Rightarrow> lithium_error" where
  "new_error k = \<lparr>kind = k, source = None\<rparr>"

definition with_source :: "lithium_error \<Rightarrow> err_source \<Rightarrow> lithium_error" where
  "with_source e s = e\<lparr>source := Some s\<rparr>"

definition invalid_len :: "nat \<Rightarrow> nat \<Rightarrow> lithium_error" where
  "invalid_len expected got = new_error (InvalidLength expected got)"

definition invalid_hex_len :: "nat \<Rightarrow> nat \<Rightarrow> lithium_error" where
  "invalid_hex_len expected got = new_error (InvalidHexLength expected got)"

definition invalid_hex :: "err_source \<Rightarrow> lithium_error" where
  "invalid_hex s = with_source (new_error InvalidHex) s"

definition hex_prefix_disallowed :: lithium_error where
  "hex_prefix_disallowed = new_error HexDisallowedPrefix"

definition hex_must_be_lowercase :: lithium_error where
  "hex_must_be_lowercase = new_error HexMustBeLowercase"

definition string_policy :: lithium_error where
  "string_policy = new_error StringPolicy"

definition json_parse :: "err_source \<Rightarrow> lithium_error" where
  "json_parse s = with_source (new_error JsonParse) s"

definition json_not_object :: lithium_error where
  "json_not_object = new_error JsonNotObject"

definition json_missing_field :: "string \<Rightarrow> lithium_error" where
  "json_missing_field k = new_error (JsonMissingField k)"

definition json_type_mismatch :: "string \<Rightarrow> string \<Rightarrow> lithium_error" where
  "json_type_mismatch k expected = new_error (JsonTypeMismatch k expected)"

definition aead_failed :: lithium_error where
  "aead_failed = new_error AeadFailed"

definition kdf_failed :: lithium_error where
  "kdf_failed = new_error KdfFailed"

definition kem_invalid_ciphertext :: lithium_error where
  "kem_invalid_ciphertext = new_error KemInvalidCiphertext"

definition invalid_public_key :: "string \<Rightarrow> string \<Rightarrow> lithium_error" where
  "invalid_public_key k reason = new_error (InvalidPublicKey k reason)"

definition key_import_failed :: "string \<Rightarrow> lithium_error" where
  "key_import_failed reason = new_error (KeyImportFailed reason)"

definition invalid_context :: "string \<Rightarrow> lithium_error" where
  "invalid_context reason = new_error (InvalidContext reason)"

definition random_failed :: lithium_error where
  "random_failed = new_error RandomFailed"

definition io_error :: "io_kind \<Rightarrow> string \<Rightarrow> lithium_error" where
  "io_error k text = with_source (new_error Io) (IoSource k text)"

definition internal_error :: "string \<Rightarrow> lithium_error" where
  "internal_error reason = new_error (Internal reason)"

definition opaque_protocol :: "string \<Rightarrow> lithium_error" where
  "opaque_protocol reason = new_error (OpaqueProtocol reason)"

definition malformed_keyfile :: lithium_error where
  "malformed_keyfile = new_error MalformedKeyfile"

definition malformed_input :: "string \<Rightarrow> lithium_error" where
  "malformed_input reason = new_error (MalformedInput reason)"

definition keystore_locked :: lithium_error where
  "keystore_locked = new_error KeystoreLocked"

definition ttl_too_large :: lithium_error where
  "ttl_too_large = new_error TtlTooLarge"

definition invalid_credentials :: "string \<Rightarrow> lithium_error" where
  "invalid_credentials msg = new_error (InvalidCredentials msg)"

definition invalid_perms :: "string \<Rightarrow> lithium_error" where
  "invalid_perms msg = new_error (InvalidPermissions msg)"

definition missing_header :: "string \<Rightarrow> lithium_error" where
  "missing_header name = new_error (MissingHeader name)"

definition invalid_utf8_header :: "string \<Rightarrow> err_source \<Rightarrow> lithium_error" where
  "invalid_utf8_header name s = with_source (new_error (InvalidUtf8Header name)) s"

definition invalid_utf :: "string \<Rightarrow> lithium_error" where
  "invalid_utf msg = new_error (InvalidUtf msg)"

definition env_missing :: "string \<Rightarrow> lithium_error" where
  "env_missing name = new_error (EnvMissing name)"

definition env_invalid :: "string \<Rightarrow> lithium_error" where
  "env_invalid name = new_error (EnvInvalid name)"

definition state_missing :: "string \<Rightarrow> lithium_error" where
  "state_missing name = new_error (StateMissing name)"

definition timeout_error :: "err_source \<Rightarrow> lithium_error" where
  "timeout_error s = with_source (new_error Timeout) s"

definition transport_error :: "err_source \<Rightarrow> lithium_error" where
  "transport_error s = with_source (new_error Transport) s"

definition http_status :: "u16 \<Rightarrow> lithium_error" where
  "http_status code = new_error (HttpStatus code)"

section \<open>Classification and coarsening\<close>

definition err_io_kind :: "lithium_error \<Rightarrow> io_kind option" where
  "err_io_kind e =
     (if kind e \<noteq> Io then None
      else case source e of
        None \<Rightarrow> None
      | Some (IoSource k _) \<Rightarrow> Some k
      | Some (OtherSource _) \<Rightarrow> None)"

definition is_not_found :: "lithium_error \<Rightarrow> bool" where
  "is_not_found e \<longleftrightarrow> err_io_kind e = Some NotFound"

definition is_already_exists :: "lithium_error \<Rightarrow> bool" where
  "is_already_exists e \<longleftrightarrow> err_io_kind e = Some AlreadyExists"

definition coarse :: "lithium_error \<Rightarrow> lithium_error" where
  "coarse e = new_error Opaque"

definition coarse_err :: "'a result \<Rightarrow> 'a result" where
  "coarse_err r = map_err coarse r"

section \<open>Display\<close>

fun show_nat :: "nat \<Rightarrow> string" where
  "show_nat n = (if n < 10 then [char_of (48 + n)] else show_nat (n div 10) @ [char_of (48 + n mod 10)])"

declare show_nat.simps [simp del]

fun display_kind :: "error_kind \<Rightarrow> string" where
  "display_kind (InvalidLength expected got) =
     ''invalid length: expected '' @ show_nat expected @ '', got '' @ show_nat got"
| "display_kind (InvalidHexLength expected got) =
     ''invalid hex length: expected '' @ show_nat expected @ '', got '' @ show_nat got"
| "display_kind InvalidHex = ''invalid hex''"
| "display_kind HexDisallowedPrefix = ''hex prefix disallowed''"
| "display_kind HexMustBeLowercase = ''hex must be lowercase''"
| "display_kind StringPolicy = ''input rejected by policy''"
| "display_kind (InvalidUtf msg) = ''invalid utf-8: '' @ msg"
| "display_kind (MissingHeader name) = ''missing header: '' @ name"
| "display_kind (InvalidUtf8Header name) = ''invalid utf-8 in header: '' @ name"
| "display_kind JsonParse = ''invalid json''"
| "display_kind JsonNotObject = ''json is not an object''"
| "display_kind (JsonMissingField k) = ''json missing field: '' @ k"
| "display_kind (JsonTypeMismatch k expected) =
     ''json type mismatch at '' @ k @ '': expected '' @ expected"
| "display_kind AeadFailed = ''aead operation failed''"
| "display_kind KdfFailed = ''key derivation failed''"
| "display_kind KemInvalidCiphertext = ''invalid kem ciphertext''"
| "display_kind (InvalidPublicKey k reason) = ''invalid public key ['' @ k @ '']: '' @ reason"
| "display_kind (KeyImportFailed reason) = ''key import failed: '' @ reason"
| "display_kind (InvalidContext reason) = ''invalid context: '' @ reason"
| "display_kind RandomFailed = ''random number generation failed''"
| "display_kind (InvalidCredentials msg) = ''invalid credentials: '' @ msg"
| "display_kind (InvalidPermissions msg) = ''permission denied: '' @ msg"
| "display_kind MalformedKeyfile = ''malformed keyfile''"
| "display_kind (MalformedInput reason) = ''malformed input: '' @ reason"
| "display_kind KeystoreLocked = ''keystore already locked by another instance''"
| "display_kind TtlTooLarge = ''ttl too large''"
| "display_kind (EnvMissing name) = ''missing environment variable: '' @ name"
| "display_kind (EnvInvalid name) = ''invalid environment variable: '' @ name"
| "display_kind (StateMissing name) = ''missing state: '' @ name"
| "display_kind Io = ''i/o error''"
| "display_kind Timeout = ''timeout''"
| "display_kind Transport = ''transport error''"
| "display_kind (HttpStatus code) = ''http status '' @ show_nat (unat code)"
| "display_kind (OpaqueProtocol reason) = ''opaque protocol error: '' @ reason"
| "display_kind (Internal reason) = ''internal error: '' @ reason"
| "display_kind Opaque = ''operation failed''"

fun display_source :: "err_source \<Rightarrow> string" where
  "display_source (IoSource k text) = text"
| "display_source (OtherSource text) = text"

text \<open>\<open>verbose\<close> is \<open>LithiumError::is_verbose()\<close>, a constant of the build profile.\<close>

definition display_error :: "bool \<Rightarrow> lithium_error \<Rightarrow> string" where
  "display_error verbose e =
     display_kind (kind e) @
     (case (verbose, source e) of
        (True, Some s) \<Rightarrow> '' | source: '' @ display_source s
      | _ \<Rightarrow> [])"

section \<open>Facts\<close>

lemmas error_defs = new_error_def with_source_def invalid_len_def invalid_hex_len_def
  invalid_hex_def hex_prefix_disallowed_def hex_must_be_lowercase_def string_policy_def
  json_parse_def json_not_object_def json_missing_field_def json_type_mismatch_def
  aead_failed_def kdf_failed_def kem_invalid_ciphertext_def invalid_public_key_def
  key_import_failed_def invalid_context_def random_failed_def io_error_def internal_error_def
  opaque_protocol_def malformed_keyfile_def malformed_input_def keystore_locked_def
  ttl_too_large_def invalid_credentials_def invalid_perms_def

lemma io_error_kind [simp]: "err_io_kind (io_error k text) = Some k"
  by (simp add: err_io_kind_def error_defs)

lemma is_not_found_io [simp]: "is_not_found (io_error k text) \<longleftrightarrow> k = NotFound"
  by (simp add: is_not_found_def)

lemma is_already_exists_io [simp]: "is_already_exists (io_error k text) \<longleftrightarrow> k = AlreadyExists"
  by (simp add: is_already_exists_def)

lemma not_both_classes: "is_not_found e \<Longrightarrow> \<not> is_already_exists e"
  by (simp add: is_not_found_def is_already_exists_def)

text \<open>Whatever went wrong, the coarse error is the same value, carries no source and no
  payload, and displays as the same text in either build profile; successes pass through.\<close>

theorem coarse_reveals_nothing:
  "coarse_err (Inl e) = (coarse_err (Inl e') :: 'a result)
   \<and> display_error verbose (coarse e) = ''operation failed''
   \<and> source (coarse e) = None
   \<and> \<not> is_not_found (coarse e) \<and> \<not> is_already_exists (coarse e)
   \<and> coarse_err (Inr a) = Inr a"
  by (simp add: coarse_err_def coarse_def display_error_def new_error_def is_not_found_def
      is_already_exists_def err_io_kind_def split: bool.splits)

end
