(* ===== verification/Codec.thy ===== *)
theory Codec
  imports Errors
begin

text \<open>
  The contract that every wire type of the crate promises to its clients.  A codec writes a
  well-formed value as bytes and reads it back; decoding accepts nothing but encodings, so a
  value has one wire form and a wire form one value.  A fixed-size codec moreover accepts every
  byte string of its size and no other, so its well-formed values and those byte strings are in
  bijection.  The locales are interpreted on the \<open>to_wire\<close>/\<open>from_wire\<close> pairs of the component
  theories.
\<close>

locale wire_codec =
  fixes to_wire :: "'a \<Rightarrow> bytes"
    and from_wire :: "bytes \<Rightarrow> 'a result"
    and wf :: "'a \<Rightarrow> bool"
  assumes from_to: "wf x \<Longrightarrow> from_wire (to_wire x) = Inr x"
    and to_from: "from_wire bs = Inr x \<Longrightarrow> to_wire x = bs"
    and from_wf: "from_wire bs = Inr x \<Longrightarrow> wf x"
begin

lemma accepts_iff: "from_wire bs = Inr x \<longleftrightarrow> wf x \<and> to_wire x = bs"
  using from_to to_from from_wf by blast

lemma to_wire_inject: "wf x \<Longrightarrow> wf y \<Longrightarrow> to_wire x = to_wire y \<longleftrightarrow> x = y"
  by (metis from_to Inr_inject)

lemma decode_unique: "from_wire bs = Inr x \<Longrightarrow> from_wire bs' = Inr x \<Longrightarrow> bs = bs'"
  by (metis to_from)

lemma accepted_range: "is_ok (from_wire bs) \<longleftrightarrow> bs \<in> to_wire ` Collect wf"
  using accepts_iff by (auto simp: is_ok_iff)

end

locale fixed_codec = wire_codec +
  fixes size_of :: nat
  assumes wf_size: "wf x \<Longrightarrow> length (to_wire x) = size_of"
    and total: "length bs = size_of \<Longrightarrow> is_ok (from_wire bs)"
    and wrong_size: "length bs \<noteq> size_of \<Longrightarrow> from_wire bs = Inl (invalid_len size_of (length bs))"
begin

lemma accepts_exactly_size: "is_ok (from_wire bs) \<longleftrightarrow> length bs = size_of"
  using total wrong_size by (cases "length bs = size_of") auto

lemma bijective: "bij_betw to_wire (Collect wf) {bs. length bs = size_of}"
proof (rule bij_betw_imageI)
  show "inj_on to_wire (Collect wf)"
    by (rule inj_onI) (simp add: to_wire_inject)
  show "to_wire ` Collect wf = {bs. length bs = size_of}"
    using accepted_range accepts_exactly_size by auto
qed

end

text \<open>
  Concatenating a fixed-size codec and any other codec, as the sealed-message types do: the
  prefix decides where the rest starts.
\<close>

locale framed_codec = hd: fixed_codec hd_to hd_from hd_wf hd_size + tl: wire_codec tl_to tl_from tl_wf
  for hd_to :: "'a \<Rightarrow> bytes" and hd_from :: "bytes \<Rightarrow> 'a result" and hd_wf :: "'a \<Rightarrow> bool"
    and hd_size :: nat
    and tl_to :: "'b \<Rightarrow> bytes" and tl_from :: "bytes \<Rightarrow> 'b result" and tl_wf :: "'b \<Rightarrow> bool"
begin

lemma frame_split:
  assumes "hd_wf x"
  shows "take hd_size (hd_to x @ bs) = hd_to x" and "drop hd_size (hd_to x @ bs) = bs"
  using hd.wf_size [OF assms] by simp_all

lemma frame_inject:
  assumes "hd_wf x" and "hd_wf x'" and "tl_wf y" and "tl_wf y'"
  shows "hd_to x @ tl_to y = hd_to x' @ tl_to y' \<longleftrightarrow> x = x' \<and> y = y'"
  using assms hd.wf_size [of x] hd.wf_size [of x'] hd.to_wire_inject [of x x']
    tl.to_wire_inject [of y y'] by auto

end

end
