(* ===== verification/Crates.thy ===== *)
theory Crates
  imports Errors
begin

text \<open>
  The third-party packages the crate calls, as one parameter of the model.  Nothing is said of
  how they compute; what the crate relies on is stated by the predicates below, each over one
  package and each a documented fact of it, and every theorem that needs one names it.

  \<^item> \<open>hex\<close>: \<open>encode\<close>, \<open>decode_to_slice\<close>;
  \<^item> \<open>aes-gcm-siv\<close>: \<open>Aead::encrypt\<close>, \<open>Aead::decrypt\<close>;
  \<^item> \<open>hkdf\<close> and \<open>sha2\<close>: \<open>Hkdf::extract\<close>, \<open>Hkdf::expand\<close>, \<open>Sha256::digest\<close>;
  \<^item> \<open>x25519-dalek\<close>, \<open>ml-kem\<close>: the two key agreements;
  \<^item> \<open>ed25519-dalek\<close>, \<open>ml-dsa\<close>: the two signature schemes;
  \<^item> \<open>argon2\<close>: \<open>Params::new\<close>.
\<close>

record crates =
  hex_encode :: "bytes \<Rightarrow> string"
  hex_decode_to_slice :: "string \<Rightarrow> nat \<Rightarrow> string + bytes"
  gcmsiv_encrypt :: "bytes \<Rightarrow> bytes \<Rightarrow> bytes \<Rightarrow> bytes \<Rightarrow> bytes option"
  gcmsiv_decrypt :: "bytes \<Rightarrow> bytes \<Rightarrow> bytes \<Rightarrow> bytes \<Rightarrow> bytes option"
  hkdf_extract_prk :: "bytes option \<Rightarrow> bytes \<Rightarrow> bytes"
  hkdf_expand_prk :: "bytes \<Rightarrow> bytes \<Rightarrow> nat \<Rightarrow> bytes option"
  sha256_digest :: "bytes \<Rightarrow> bytes"
  x25519_public :: "bytes \<Rightarrow> bytes"
  x25519_shared :: "bytes \<Rightarrow> bytes \<Rightarrow> bytes"
  x25519_contributory :: "bytes \<Rightarrow> bool"
  mlkem_ek_of_seed :: "bytes \<Rightarrow> bytes"
  mlkem_ek_import :: "bytes \<Rightarrow> bytes option"
  mlkem_encaps :: "bytes \<Rightarrow> bytes \<Rightarrow> bytes \<times> bytes"
  mlkem_decaps :: "bytes \<Rightarrow> bytes \<Rightarrow> bytes"
  ed25519_public :: "bytes \<Rightarrow> bytes"
  ed25519_sign :: "bytes \<Rightarrow> bytes \<Rightarrow> bytes"
  ed25519_pk_import :: "bytes \<Rightarrow> bytes option"
  ed25519_verify_strict :: "bytes \<Rightarrow> bytes \<Rightarrow> bytes \<Rightarrow> bool"
  mldsa_public :: "bytes \<Rightarrow> bytes"
  mldsa_sk_import :: "bytes \<Rightarrow> bytes option"
  mldsa_sign :: "bytes \<Rightarrow> bytes \<Rightarrow> bytes"
  mldsa_pk_import :: "bytes \<Rightarrow> bytes option"
  mldsa_sig_import :: "bytes \<Rightarrow> bytes option"
  mldsa_verify :: "bytes \<Rightarrow> bytes \<Rightarrow> bytes \<Rightarrow> bool"
  argon2_params_new :: "u32 \<Rightarrow> u32 \<Rightarrow> u32 \<Rightarrow> nat option \<Rightarrow> bool"

section \<open>What is relied on\<close>

definition lower_hex_digits :: "char list" where
  "lower_hex_digits = ''0123456789abcdef''"

fun to_lower_hex :: "char \<Rightarrow> char" where
  "to_lower_hex c = (if c \<in> set ''ABCDEF'' then char_of ((of_char c :: nat) + 32) else c)"

definition hex_ok :: "crates \<Rightarrow> bool" where
  "hex_ok cr \<longleftrightarrow>
     (\<forall>bs. set (hex_encode cr bs) \<subseteq> set lower_hex_digits)
   \<and> (\<forall>bs. length (hex_encode cr bs) = 2 * length bs)
   \<and> (\<forall>bs. hex_decode_to_slice cr (hex_encode cr bs) (length bs) = Inr bs)
   \<and> (\<forall>s n bs. hex_decode_to_slice cr s n = Inr bs \<longrightarrow>
        hex_encode cr bs = map to_lower_hex s \<and> length bs = n)
   \<and> (\<forall>s n. length s = 2 * n \<and> set s \<subseteq> set lower_hex_digits \<longrightarrow>
        (\<exists>bs. hex_decode_to_slice cr s n = Inr bs))"

text \<open>The AEAD: a 16-byte tag, and decryption with the same key, nonce and associated data.\<close>

definition aead_ok :: "crates \<Rightarrow> bool" where
  "aead_ok cr \<longleftrightarrow>
     (\<forall>k n aad m c. length k = 32 \<and> length n = 12 \<and> gcmsiv_encrypt cr k n aad m = Some c \<longrightarrow>
        length c = length m + 16 \<and> gcmsiv_decrypt cr k n aad c = Some m)
   \<and> (\<forall>k n aad c m. length k = 32 \<and> length n = 12 \<and> gcmsiv_decrypt cr k n aad c = Some m \<longrightarrow>
        length c = length m + 16)"

text \<open>The plaintext limit of AES-GCM-SIV is 64 GiB: below it, encryption does not fail.\<close>

definition aead_total :: "crates \<Rightarrow> bool" where
  "aead_total cr \<longleftrightarrow>
     (\<forall>k n aad m. length k = 32 \<and> length n = 12 \<and> length m < 2 ^ 36 \<and> length aad < 2 ^ 36 \<longrightarrow>
        gcmsiv_encrypt cr k n aad m \<noteq> None)"

definition hkdf_ok :: "crates \<Rightarrow> bool" where
  "hkdf_ok cr \<longleftrightarrow>
     (\<forall>salt ikm. length (hkdf_extract_prk cr salt ikm) = 32)
   \<and> (\<forall>prk info n. length prk = 32 \<longrightarrow>
        (case hkdf_expand_prk cr prk info n of
           None \<Rightarrow> 255 * 32 < n
         | Some out \<Rightarrow> n \<le> 255 * 32 \<and> length out = n))"

definition sha256_ok :: "crates \<Rightarrow> bool" where
  "sha256_ok cr \<longleftrightarrow> (\<forall>m. length (sha256_digest cr m) = 32)"

definition x25519_ok :: "crates \<Rightarrow> bool" where
  "x25519_ok cr \<longleftrightarrow>
     (\<forall>a. length a = 32 \<longrightarrow> length (x25519_public cr a) = 32)
   \<and> (\<forall>a b. length a = 32 \<and> length b = 32 \<longrightarrow>
        length (x25519_shared cr a b) = 32
      \<and> x25519_shared cr a (x25519_public cr b) = x25519_shared cr b (x25519_public cr a))"

text \<open>ML-KEM-1024: sizes of FIPS 203, and decapsulation inverts encapsulation.\<close>

definition mlkem_ok :: "crates \<Rightarrow> bool" where
  "mlkem_ok cr \<longleftrightarrow>
     (\<forall>d. length d = 64 \<longrightarrow> length (mlkem_ek_of_seed cr d) = 1568
        \<and> mlkem_ek_import cr (mlkem_ek_of_seed cr d) = Some (mlkem_ek_of_seed cr d))
   \<and> (\<forall>ek r. length (fst (mlkem_encaps cr ek r)) = 1568 \<and> length (snd (mlkem_encaps cr ek r)) = 32)
   \<and> (\<forall>d c. length (mlkem_decaps cr d c) = 32)
   \<and> (\<forall>d r. length d = 64 \<longrightarrow>
        mlkem_decaps cr d (fst (mlkem_encaps cr (mlkem_ek_of_seed cr d) r))
          = snd (mlkem_encaps cr (mlkem_ek_of_seed cr d) r))"

definition ed25519_ok :: "crates \<Rightarrow> bool" where
  "ed25519_ok cr \<longleftrightarrow>
     (\<forall>s. length s = 32 \<longrightarrow> length (ed25519_public cr s) = 32
        \<and> ed25519_pk_import cr (ed25519_public cr s) = Some (ed25519_public cr s))
   \<and> (\<forall>s m. length (ed25519_sign cr s m) = 64)
   \<and> (\<forall>s m. length s = 32 \<longrightarrow>
        ed25519_verify_strict cr (ed25519_public cr s) m (ed25519_sign cr s m))"

definition mldsa_ok :: "crates \<Rightarrow> bool" where
  "mldsa_ok cr \<longleftrightarrow>
     (\<forall>s. length s = 32 \<longrightarrow> length (mldsa_public cr s) = 2592
        \<and> mldsa_sk_import cr s = Some s
        \<and> mldsa_pk_import cr (mldsa_public cr s) = Some (mldsa_public cr s))
   \<and> (\<forall>s. length s \<noteq> 32 \<longrightarrow> mldsa_sk_import cr s = None)
   \<and> (\<forall>s m. length (mldsa_sign cr s m) = 4627
        \<and> mldsa_sig_import cr (mldsa_sign cr s m) = Some (mldsa_sign cr s m))
   \<and> (\<forall>s m. length s = 32 \<longrightarrow> mldsa_verify cr (mldsa_public cr s) m (mldsa_sign cr s m))"

section \<open>Consequences\<close>

lemma hex_okD:
  assumes "hex_ok cr"
  shows hex_encode_digits: "set (hex_encode cr bs) \<subseteq> set lower_hex_digits"
    and hex_encode_length: "length (hex_encode cr bs) = 2 * length bs"
    and hex_decode_encode: "hex_decode_to_slice cr (hex_encode cr bs) (length bs) = Inr bs"
    and hex_decode_lower: "hex_decode_to_slice cr s n = Inr bs \<Longrightarrow> hex_encode cr bs = map to_lower_hex s"
    and hex_decode_length: "hex_decode_to_slice cr s n = Inr bs \<Longrightarrow> length bs = n"
    and hex_decode_total: "length s = 2 * n \<Longrightarrow> set s \<subseteq> set lower_hex_digits \<Longrightarrow>
          \<exists>bs. hex_decode_to_slice cr s n = Inr bs"
  using assms unfolding hex_ok_def by simp_all

lemma hex_encode_inject:
  assumes "hex_ok cr"
  shows "hex_encode cr xs = hex_encode cr ys \<longleftrightarrow> xs = ys"
proof
  assume eq: "hex_encode cr xs = hex_encode cr ys"
  have "2 * length xs = 2 * length ys"
    by (simp only: hex_encode_length [OF assms, symmetric] eq)
  then have len: "length xs = length ys" by simp
  have "Inr xs = hex_decode_to_slice cr (hex_encode cr xs) (length xs)"
    by (rule hex_decode_encode [OF assms, symmetric])
  also have "\<dots> = Inr ys"
    by (simp only: eq len hex_decode_encode [OF assms])
  finally show "xs = ys" by (rule Inr_inject)
qed (rule arg_cong)

lemma aead_okD:
  assumes "aead_ok cr" and "length k = 32" and "length n = 12"
  shows aead_length: "gcmsiv_encrypt cr k n aad m = Some c \<Longrightarrow> length c = length m + 16"
    and aead_roundtrip: "gcmsiv_encrypt cr k n aad m = Some c \<Longrightarrow> gcmsiv_decrypt cr k n aad c = Some m"
    and aead_open_length: "gcmsiv_decrypt cr k n aad c = Some m \<Longrightarrow> length c = length m + 16"
  using assms unfolding aead_ok_def by blast+

lemma hkdf_expandE:
  assumes "hkdf_ok cr" and "length prk = 32" and "n \<le> 255 * 32"
  obtains out where "hkdf_expand_prk cr prk info n = Some out" and "length out = n"
proof (cases "hkdf_expand_prk cr prk info n")
  case None
  have "case hkdf_expand_prk cr prk info n of None \<Rightarrow> 255 * 32 < n | Some out \<Rightarrow> n \<le> 255 * 32 \<and> length out = n"
    using assms unfolding hkdf_ok_def by blast
  with None assms(3) show ?thesis by simp
next
  case (Some out)
  have "case hkdf_expand_prk cr prk info n of None \<Rightarrow> 255 * 32 < n | Some out \<Rightarrow> n \<le> 255 * 32 \<and> length out = n"
    using assms unfolding hkdf_ok_def by blast
  with Some show ?thesis by (auto intro: that)
qed

lemma hkdf_prk_length: "hkdf_ok cr \<Longrightarrow> length (hkdf_extract_prk cr salt ikm) = 32"
  unfolding hkdf_ok_def by blast

end
