(* ===== verification/Samples.thy ===== *)
theory Samples
  imports Crates
begin

text \<open>
  One concrete instance of the third-party parameters, used to evaluate the model on concrete
  inputs and to show that the assumptions on the packages can hold together.  It is not a model
  of the packages: the functions are the simplest ones with the documented laws.
\<close>

definition pad_to :: "nat \<Rightarrow> bytes \<Rightarrow> bytes" where
  "pad_to n bs = take n bs @ replicate (n - length bs) 0"

lemma length_pad_to [simp]: "length (pad_to n bs) = n"
  by (simp add: pad_to_def)

lemma pad_to_id [simp]: "length bs = n \<Longrightarrow> pad_to n bs = bs"
  by (simp add: pad_to_def)

definition s_hex_digit :: "nat \<Rightarrow> char" where
  "s_hex_digit n = lower_hex_digits ! n"

definition s_hex_value :: "char \<Rightarrow> nat option" where
  "s_hex_value c = map_of (zip lower_hex_digits [0..<16]) (to_lower_hex c)"

fun s_hex_encode :: "bytes \<Rightarrow> string" where
  "s_hex_encode [] = []"
| "s_hex_encode (b # bs) = s_hex_digit (unat b div 16) # s_hex_digit (unat b mod 16) # s_hex_encode bs"

fun s_hex_decode :: "string \<Rightarrow> bytes option" where
  "s_hex_decode [] = Some []"
| "s_hex_decode [c] = None"
| "s_hex_decode (c # d # s) =
     (case (s_hex_value c, s_hex_value d, s_hex_decode s) of
        (Some h, Some l, Some bs) \<Rightarrow> Some (of_nat (16 * h + l) # bs)
      | _ \<Rightarrow> None)"

definition s_tag :: "bytes \<Rightarrow> bytes \<Rightarrow> bytes \<Rightarrow> bytes" where
  "s_tag k n aad = pad_to 8 k @ be_bytes 8 (be_nat aad)"

definition s_decrypt :: "bytes \<Rightarrow> bytes \<Rightarrow> bytes \<Rightarrow> bytes \<Rightarrow> bytes option" where
  "s_decrypt k n aad c =
     (if 16 \<le> length c \<and> drop (length c - 16) c = s_tag k n aad
      then Some (take (length c - 16) c) else None)"

definition sample_crates :: crates where
  "sample_crates = \<lparr>
     hex_encode = s_hex_encode,
     hex_decode_to_slice = (\<lambda>s n. case s_hex_decode s of
        Some bs \<Rightarrow> if length bs = n then Inr bs else Inl ''InvalidStringLength''
      | None \<Rightarrow> Inl ''InvalidHexCharacter''),
     gcmsiv_encrypt = (\<lambda>k n aad m. Some (m @ s_tag k n aad)),
     gcmsiv_decrypt = s_decrypt,
     hkdf_extract_prk = (\<lambda>salt ikm. pad_to 32 ikm),
     hkdf_expand_prk = (\<lambda>prk info n. if n \<le> 255 * 32 then Some (pad_to n prk) else None),
     sha256_digest = pad_to 32,
     x25519_public = (\<lambda>a. a),
     x25519_shared = (\<lambda>a b. map2 (+) a b),
     x25519_contributory = (\<lambda>s. s \<noteq> replicate 32 0),
     mlkem_ek_of_seed = pad_to 1568,
     mlkem_ek_import = (\<lambda>ek. if length ek = 1568 then Some ek else None),
     mlkem_encaps = (\<lambda>ek r. (pad_to 1568 r, pad_to 32 r)),
     mlkem_decaps = (\<lambda>d c. pad_to 32 c),
     ed25519_public = (\<lambda>s. s),
     ed25519_sign = (\<lambda>s m. pad_to 32 s @ pad_to 32 m),
     ed25519_pk_import = (\<lambda>p. if length p = 32 then Some p else None),
     ed25519_verify_strict = (\<lambda>p m s. s = pad_to 32 p @ pad_to 32 m),
     mldsa_public = pad_to 2592,
     mldsa_sk_import = (\<lambda>s. if length s = 32 then Some s else None),
     mldsa_sign = (\<lambda>s m. pad_to 2592 s @ pad_to 2035 m),
     mldsa_pk_import = (\<lambda>p. if length p = 2592 then Some p else None),
     mldsa_sig_import = (\<lambda>s. if length s = 4627 then Some s else None),
     mldsa_verify = (\<lambda>p m s. s = p @ pad_to 2035 m),
     argon2_params_new = (\<lambda>m t p out. 8 * unat p \<le> unat m \<and> 1 \<le> t \<and> 1 \<le> p) \<rparr>"

section \<open>The instance satisfies the assumptions\<close>

lemma length_lower_hex_digits: "length lower_hex_digits = 16"
  by (simp add: lower_hex_digits_def)

lemma s_hex_digit_lower: "n < 16 \<Longrightarrow> s_hex_digit n \<in> set lower_hex_digits"
  unfolding s_hex_digit_def by (rule nth_mem) (simp add: length_lower_hex_digits)

lemma to_lower_hex_digit: "c \<in> set lower_hex_digits \<Longrightarrow> to_lower_hex c = c"
  by (auto simp: lower_hex_digits_def)

lemma s_hex_value_digit: "n < 16 \<Longrightarrow> s_hex_value (s_hex_digit n) = Some n"
proof -
  assume n: "n < 16"
  have "distinct lower_hex_digits" by (simp add: lower_hex_digits_def)
  then have "map_of (zip lower_hex_digits [0..<16]) (lower_hex_digits ! n) = Some ([0..<16] ! n)"
    using n by (intro map_of_zip_nth) (simp_all add: length_lower_hex_digits)
  then show ?thesis
    using n to_lower_hex_digit [OF s_hex_digit_lower [OF n]]
    unfolding s_hex_value_def s_hex_digit_def by simp
qed

lemma s_hex_value_SomeD: "s_hex_value c = Some h \<Longrightarrow> h < 16 \<and> s_hex_digit h = to_lower_hex c"
  unfolding s_hex_value_def s_hex_digit_def
  by (drule map_of_SomeD) (auto simp: set_zip length_lower_hex_digits)

lemma s_hex_value_lower: "c \<in> set lower_hex_digits \<Longrightarrow> \<exists>h. s_hex_value c = Some h"
  by (metis in_set_conv_nth length_lower_hex_digits s_hex_digit_def s_hex_value_digit)

lemma s_hex_decode_encode: "s_hex_decode (s_hex_encode bs) = Some bs"
proof (induction bs)
  case (Cons b bs)
  have lt: "unat b div 16 < 16" using unat_byte_less [of b] by linarith
  have lm: "unat b mod 16 < 16" by simp
  have "(of_nat (16 * (unat b div 16) + unat b mod 16) :: u8) = b"
    by (simp only: mult_div_mod_eq) simp
  then show ?case
    using Cons s_hex_value_digit [OF lt] s_hex_value_digit [OF lm] by simp
qed simp

lemma s_hex_encode_digits: "set (s_hex_encode bs) \<subseteq> set lower_hex_digits"
proof (induction bs)
  case (Cons b bs)
  have lt: "unat b div 16 < 16" using unat_byte_less [of b] by linarith
  have lm: "unat b mod 16 < 16" by simp
  show ?case
    using Cons s_hex_digit_lower [OF lt] s_hex_digit_lower [OF lm] by simp
qed simp

lemma s_hex_encode_length: "length (s_hex_encode bs) = 2 * length bs"
  by (induction bs) auto

lemma s_hex_decode_lower: "s_hex_decode s = Some bs \<Longrightarrow> s_hex_encode bs = map to_lower_hex s"
proof (induction s arbitrary: bs rule: s_hex_decode.induct)
  case (3 c d s)
  then obtain h l cs where v: "s_hex_value c = Some h" "s_hex_value d = Some l"
      and cs: "s_hex_decode s = Some cs" and bs: "bs = of_nat (16 * h + l) # cs"
    by (auto split: option.splits)
  note hb = s_hex_value_SomeD [OF v(1)] s_hex_value_SomeD [OF v(2)]
  have "(16 * h + l) mod 256 = 16 * h + l" using hb by simp
  then have u: "unat (of_nat (16 * h + l) :: u8) = 16 * h + l" by (simp only: unat_of_nat_byte)
  have "(16 * h + l) div 16 = h" and "(16 * h + l) mod 16 = l" using hb by simp_all
  then show ?case using hb 3 v cs unfolding bs s_hex_encode.simps u by simp
qed auto

lemma s_hex_decode_total: "length s = 2 * n \<Longrightarrow> set s \<subseteq> set lower_hex_digits \<Longrightarrow> \<exists>bs. s_hex_decode s = Some bs"
proof (induction s arbitrary: n rule: s_hex_decode.induct)
  case (2 c)
  then show ?case by simp
next
  case (3 c d s)
  obtain h l where v: "s_hex_value c = Some h" "s_hex_value d = Some l"
    using 3(3) s_hex_value_lower [of c] s_hex_value_lower [of d] by auto
  have "length s = 2 * (n - 1)" using 3(2) by simp
  moreover have "set s \<subseteq> set lower_hex_digits" using 3(3) by simp
  ultimately obtain bs where "s_hex_decode s = Some bs" using 3(1) by blast
  then show ?case using v by simp
qed simp

lemma sample_hex_ok: "hex_ok sample_crates"
proof -
  have len: "s_hex_decode s = Some bs \<Longrightarrow> length s = 2 * length bs" for s bs
    using s_hex_decode_lower [of s bs] s_hex_encode_length [of bs] by (metis length_map)
  have dec: "hex_decode_to_slice sample_crates s n = Inr bs \<longleftrightarrow> s_hex_decode s = Some bs \<and> length bs = n"
    for s n bs
    by (auto simp: sample_crates_def split: option.splits)
  have enc: "hex_encode sample_crates = s_hex_encode" by (simp add: sample_crates_def)
  have "\<exists>bs. s_hex_decode s = Some bs \<and> length bs = n"
    if "length s = 2 * n" "set s \<subseteq> set lower_hex_digits" for s n
    using s_hex_decode_total [OF that] len that(1) by fastforce
  then show ?thesis
    unfolding hex_ok_def enc dec
    using s_hex_encode_digits s_hex_encode_length s_hex_decode_encode s_hex_decode_lower
    by (intro conjI allI impI) simp_all
qed

lemma sample_aead_ok: "aead_ok sample_crates"
  unfolding aead_ok_def
  by (auto simp: sample_crates_def s_decrypt_def s_tag_def split: if_splits)

lemma sample_aead_total: "aead_total sample_crates"
  unfolding aead_total_def by (simp add: sample_crates_def)

lemma sample_hkdf_ok: "hkdf_ok sample_crates"
  unfolding hkdf_ok_def by (simp add: sample_crates_def)

lemma sample_sha256_ok: "sha256_ok sample_crates"
  unfolding sha256_ok_def by (simp add: sample_crates_def)

lemma sample_x25519_ok: "x25519_ok sample_crates"
proof -
  have "map2 (+) a b = map2 (+) b (a :: bytes)" if "length a = length b" for a b
    using that by (induction a b rule: list_induct2) (auto simp: add.commute)
  then show ?thesis unfolding x25519_ok_def by (simp add: sample_crates_def)
qed

lemma pad_to_pad_to: "m \<le> n \<Longrightarrow> pad_to m (pad_to n bs) = pad_to m bs"
  by (auto simp: pad_to_def min_def)

lemma sample_mlkem_ok: "mlkem_ok sample_crates"
  unfolding mlkem_ok_def by (simp add: sample_crates_def pad_to_pad_to)

lemma sample_ed25519_ok: "ed25519_ok sample_crates"
  unfolding ed25519_ok_def by (simp add: sample_crates_def)

lemma sample_mldsa_ok: "mldsa_ok sample_crates"
  unfolding mldsa_ok_def by (simp add: sample_crates_def)

lemmas samples_ok = sample_hex_ok sample_aead_ok sample_aead_total sample_hkdf_ok sample_sha256_ok
  sample_x25519_ok sample_mlkem_ok sample_ed25519_ok sample_mldsa_ok

end
