(* ===== verification/ByteTypes.thy ===== *)
theory ByteTypes
  imports Codec Samples "HOL-Library.Char_ord"
begin

text \<open>
  Strict hexadecimal (\<^verbatim>\<open>src/src/hexcodec.rs\<close>) and the byte and string containers
  (\<^verbatim>\<open>src/src/public/bytes.rs\<close>, \<^verbatim>\<open>src/src/secrets/bytes.rs\<close>, \<^verbatim>\<open>src/src/secrets/string.rs\<close>).
  A fixed-size container is the list of its bytes; the size is the const parameter.  Where the
  code handles secret buffers by hand, a \<open>Vec\<close> is kept with its capacity and the model records
  the last content of every heap buffer the code gives back to the allocator, so that wiping is
  a statement about those contents.  UTF-8 validation is the table of the Rust standard library.
\<close>

section \<open>Strict hexadecimal\<close>

fun starts_with :: "'a list \<Rightarrow> 'a list \<Rightarrow> bool" where
  "starts_with s [] = True"
| "starts_with [] (p # ps) = False"
| "starts_with (c # s) (p # ps) = (c = p \<and> starts_with s ps)"

definition reject_prefix :: "string \<Rightarrow> unit result" where
  "reject_prefix s =
     (if starts_with s ''0x'' \<or> starts_with s ''0X'' then Inl hex_prefix_disallowed else Inr ())"

fun validate_charset :: "string \<Rightarrow> unit result" where
  "validate_charset [] = Inr ()"
| "validate_charset (b # s) =
     (if CHR ''0'' \<le> b \<and> b \<le> CHR ''9'' \<or> CHR ''a'' \<le> b \<and> b \<le> CHR ''f'' then validate_charset s
      else if CHR ''A'' \<le> b \<and> b \<le> CHR ''F'' then Inl hex_must_be_lowercase
      else Inl (new_error InvalidHex))"

definition hex_err :: "string \<Rightarrow> lithium_error" where
  "hex_err text = invalid_hex (OtherSource text)"

definition decode_into :: "crates \<Rightarrow> string \<Rightarrow> nat \<Rightarrow> bytes result" where
  "decode_into cr s n =
     rbind (reject_prefix s) (\<lambda>_.
     let expected = 2 * n in
     if length s \<noteq> expected then Inl (new_error (InvalidHexLength expected (length s)))
     else rbind (validate_charset s) (\<lambda>_.
       map_err hex_err (hex_decode_to_slice cr s n)))"

definition decode_vec :: "crates \<Rightarrow> string \<Rightarrow> bytes result" where
  "decode_vec cr s =
     rbind (reject_prefix s) (\<lambda>_.
     if length s mod 2 \<noteq> 0 then Inl (new_error (InvalidHexLength (length s + 1) (length s)))
     else rbind (validate_charset s) (\<lambda>_.
       map_err hex_err (hex_decode_to_slice cr s (length s div 2))))"

section \<open>Fixed-size containers\<close>

definition pub_fixed_from_slice :: "nat \<Rightarrow> bytes \<Rightarrow> bytes result" where
  "pub_fixed_from_slice n s = (if length s \<noteq> n then Inl (invalid_len n (length s)) else Inr s)"

definition pub_to_hex :: "crates \<Rightarrow> bytes \<Rightarrow> string" where
  "pub_to_hex cr b = hex_encode cr b"

definition pub_fixed_from_hex :: "crates \<Rightarrow> nat \<Rightarrow> string \<Rightarrow> bytes result" where
  "pub_fixed_from_hex cr n s = decode_into cr s n"

definition pub_bytes_from_hex :: "crates \<Rightarrow> string \<Rightarrow> bytes result" where
  "pub_bytes_from_hex cr s = decode_vec cr s"

definition sec_fixed_from_slice :: "nat \<Rightarrow> bytes \<Rightarrow> bytes result" where
  "sec_fixed_from_slice n s = (if length s \<noteq> n then Inl (invalid_len n (length s)) else Inr s)"

definition zeroize :: "bytes \<Rightarrow> bytes" where
  "zeroize bs = replicate (length bs) 0"

text \<open>\<open>from_wiped\<close> also returns what it leaves in the source buffer.\<close>

definition sec_fixed_from_wiped :: "nat \<Rightarrow> bytes \<Rightarrow> bytes result \<times> bytes" where
  "sec_fixed_from_wiped n src =
     (if length src \<noteq> n then (Inl (invalid_len n (length src)), zeroize src)
      else (Inr src, zeroize src))"

definition sec_fixed_from_hex :: "crates \<Rightarrow> nat \<Rightarrow> string \<Rightarrow> bytes result" where
  "sec_fixed_from_hex cr n s = decode_into cr s n"

definition sec_bytes_expose_into_array :: "nat \<Rightarrow> bytes \<Rightarrow> bytes result" where
  "sec_bytes_expose_into_array n s = (if length s \<noteq> n then Inl (invalid_len n (length s)) else Inr s)"

definition sec_bytes_from_hex :: "crates \<Rightarrow> string \<Rightarrow> bytes result" where
  "sec_bytes_from_hex cr s = decode_vec cr s"

definition pub_fixed_debug :: "crates \<Rightarrow> nat \<Rightarrow> bytes \<Rightarrow> string" where
  "pub_fixed_debug cr n b = ''PublicFixed<'' @ show_nat n @ ''>('' @ hex_encode cr b @ '')''"

definition sec_fixed_debug :: "nat \<Rightarrow> bytes \<Rightarrow> string" where
  "sec_fixed_debug n b = ''SecretFixedBytes<'' @ show_nat n @ ''>(..)''"

section \<open>Growable buffers\<close>

record vec =
  contents :: bytes
  capacity :: nat

definition vec_new :: vec where
  "vec_new = \<lparr>contents = [], capacity = 0\<rparr>"

definition to_vec :: "bytes \<Rightarrow> vec" where
  "to_vec bs = \<lparr>contents = bs, capacity = length bs\<rparr>"

text \<open>What \<open>Vec::zeroize\<close> leaves: every byte of the allocation, spare capacity included, is zero.\<close>

definition wiped_buffer :: "vec \<Rightarrow> bytes" where
  "wiped_buffer v = replicate (capacity v) 0"

text \<open>\<open>Vec::extend_from_slice\<close>: past the capacity the vector moves to a larger allocation and the
  old one is given back as it is.\<close>

definition extend_from_slice :: "vec \<Rightarrow> bytes \<Rightarrow> vec \<times> bytes list" where
  "extend_from_slice v data =
     (let needed = length (contents v) + length data in
      if needed \<le> capacity v then (v\<lparr>contents := contents v @ data\<rparr>, [])
      else (\<lparr>contents = contents v @ data, capacity = max (max (2 * capacity v) needed) 8\<rparr>,
            if capacity v = 0 then [] else [contents v]))"

text \<open>\<open>SecretBytes::new\<close>: the secret and the buffers released on the way.\<close>

definition secret_bytes_new :: "vec \<Rightarrow> vec \<times> bytes list" where
  "secret_bytes_new v =
     (if capacity v = length (contents v) then (v, [])
      else (to_vec (contents v), [wiped_buffer v]))"

definition secret_bytes_from_slice :: "bytes \<Rightarrow> vec \<times> bytes list" where
  "secret_bytes_from_slice bs = secret_bytes_new (to_vec bs)"

definition secret_bytes_from_wiped :: "bytes \<Rightarrow> (vec \<times> bytes list) \<times> bytes" where
  "secret_bytes_from_wiped src = (secret_bytes_new (to_vec src), zeroize src)"

record zeroizing_writer =
  wbuf :: vec
  released :: "bytes list"

definition zeroizing_writer_new :: zeroizing_writer where
  "zeroizing_writer_new = \<lparr>wbuf = vec_new, released = []\<rparr>"

definition saturating_mul_usize :: "nat \<Rightarrow> nat \<Rightarrow> nat" where
  "saturating_mul_usize a b = min (a * b) (usize_bound - 1)"

definition zw_grow :: "zeroizing_writer \<Rightarrow> nat \<Rightarrow> zeroizing_writer" where
  "zw_grow w needed =
     (if needed > capacity (wbuf w)
      then let new_cap = max (max (saturating_mul_usize (capacity (wbuf w)) 2) needed) 64;
               (next, rel) = extend_from_slice \<lparr>contents = [], capacity = new_cap\<rparr> (contents (wbuf w))
           in \<lparr>wbuf = next, released = released w @ rel @ [wiped_buffer (wbuf w)]\<rparr>
      else w)"

definition zw_write :: "zeroizing_writer \<Rightarrow> bytes \<Rightarrow> (lithium_error + nat) \<times> zeroizing_writer" where
  "zw_write w data =
     (case checked_add_usize (length (contents (wbuf w))) (length data) of
        None \<Rightarrow> (Inl (io_error (OtherIo 0) ''zeroizing writer length overflow''), w)
      | Some needed \<Rightarrow>
          let w1 = zw_grow w needed;
              (v, rel) = extend_from_slice (wbuf w1) data
          in (Inr (length data), \<lparr>wbuf = v, released = released w1 @ rel\<rparr>))"

text \<open>\<open>into_secret\<close> copies the buffer; dropping the writer wipes and releases its own.\<close>

definition zw_into_secret :: "zeroizing_writer \<Rightarrow> vec \<times> bytes list" where
  "zw_into_secret w =
     (let (s, rel) = secret_bytes_from_slice (contents (wbuf w))
      in (s, released w @ rel @ [wiped_buffer (wbuf w)]))"

text \<open>\<open>write_all\<close> of a serializer: one \<open>write\<close> per chunk, stopping at the first error.\<close>

fun zw_write_all :: "zeroizing_writer \<Rightarrow> bytes list \<Rightarrow> unit result \<times> zeroizing_writer" where
  "zw_write_all w [] = (Inr (), w)"
| "zw_write_all w (d # ds) =
     (case zw_write w d of
        (Inl e, w') \<Rightarrow> (Inl e, w')
      | (Inr _, w') \<Rightarrow> zw_write_all w' ds)"

section \<open>Strictness of the hexadecimal form\<close>

lemma hex_digit_ranges:
  "(CHR ''0'' \<le> b \<and> b \<le> CHR ''9'' \<or> CHR ''a'' \<le> b \<and> b \<le> CHR ''f'')
   \<longleftrightarrow> b \<in> set lower_hex_digits"
proof -
  have "\<forall>b. (CHR ''0'' \<le> b \<and> b \<le> CHR ''9'' \<or> CHR ''a'' \<le> b \<and> b \<le> CHR ''f'')
   \<longleftrightarrow> b \<in> set lower_hex_digits"
    by code_simp
  then show ?thesis by blast
qed

lemma validate_charset_iff: "validate_charset s = Inr () \<longleftrightarrow> set s \<subseteq> set lower_hex_digits"
  by (induction s) (simp_all add: hex_digit_ranges)

lemma lower_hex_stable: "set s \<subseteq> set lower_hex_digits \<Longrightarrow> map to_lower_hex s = s"
  by (rule map_idI) (auto simp: lower_hex_digits_def)

lemma reject_prefix_lower: "set s \<subseteq> set lower_hex_digits \<Longrightarrow> reject_prefix s = Inr ()"
  by (cases s rule: list.exhaust [case_names Nil Cons]; cases "tl s")
     (auto simp: reject_prefix_def lower_hex_digits_def)

lemma decode_into_accepts:
  assumes "hex_ok cr"
  shows "decode_into cr s n = Inr bs \<longleftrightarrow> s = hex_encode cr bs \<and> length bs = n"
proof
  assume "decode_into cr s n = Inr bs"
  then have "set s \<subseteq> set lower_hex_digits" and "hex_decode_to_slice cr s n = Inr bs"
    by (auto simp: decode_into_def Let_def rbind_Inr_iff validate_charset_iff split: if_splits)
  then show "s = hex_encode cr bs \<and> length bs = n"
    using hex_decode_lower [OF assms] hex_decode_length [OF assms] lower_hex_stable by metis
next
  assume "s = hex_encode cr bs \<and> length bs = n"
  then have s: "s = hex_encode cr bs" and n: "length bs = n" by simp_all
  have lower: "set s \<subseteq> set lower_hex_digits" unfolding s by (rule hex_encode_digits [OF assms])
  have "length s = 2 * n" unfolding s using hex_encode_length [OF assms] n by metis
  moreover have "hex_decode_to_slice cr s n = Inr bs"
    unfolding s using hex_decode_encode [OF assms] n by metis
  ultimately show "decode_into cr s n = Inr bs"
    using lower by (simp add: decode_into_def reject_prefix_lower validate_charset_iff [THEN iffD2])
qed

lemma decode_vec_even: "length s mod 2 = 0 \<Longrightarrow> decode_vec cr s = decode_into cr s (length s div 2)"
  by (auto simp: decode_vec_def decode_into_def)

lemma decode_vec_encode:
  assumes "hex_ok cr"
  shows "decode_vec cr (hex_encode cr bs) = Inr bs"
  using hex_encode_length [OF assms, of bs] decode_into_accepts [OF assms, of "hex_encode cr bs" "length bs" bs]
  by (simp add: decode_vec_even)

text \<open>C37. Hexadecimal input is accepted in exactly one spelling: a string decodes to \<open>bs\<close> if and only
  if it is the canonical lowercase encoding of \<open>bs\<close>; the fixed-size form also demands the size.
  Prefixes, upper case, odd lengths and foreign characters are all rejected.\<close>

theorem hex_decoding_is_canonical:
  assumes "hex_ok cr"
  shows "(decode_vec cr s = Inr bs \<longleftrightarrow> s = hex_encode cr bs)
    \<and> (sec_fixed_from_hex cr n s = Inr bs \<longleftrightarrow> s = hex_encode cr bs \<and> length bs = n)
    \<and> (pub_fixed_from_hex cr n s = Inr bs \<longleftrightarrow> s = hex_encode cr bs \<and> length bs = n)"
proof -
  have "decode_vec cr s = Inr bs \<longleftrightarrow> s = hex_encode cr bs"
  proof (cases "length s mod 2 = 0")
    case True
    have "s = hex_encode cr bs \<Longrightarrow> length bs = length s div 2"
      using hex_encode_length [OF assms, of bs] by simp
    then show ?thesis
      unfolding decode_vec_even [OF True] decode_into_accepts [OF assms] by blast
  next
    case False
    then have "decode_vec cr s \<noteq> Inr bs"
      by (simp add: decode_vec_def rbind_Inr_iff)
    moreover have "s \<noteq> hex_encode cr bs"
      using False hex_encode_length [OF assms, of bs] by auto
    ultimately show ?thesis by blast
  qed
  then show ?thesis
    by (simp add: sec_fixed_from_hex_def pub_fixed_from_hex_def decode_into_accepts [OF assms])
qed

theorem hex_decoding_is_canonical_witness:
  "hex_ok sample_crates
   \<and> decode_vec sample_crates ''00ff'' = Inr [0, 255]
   \<and> pub_fixed_from_hex sample_crates 2 ''00FF'' \<noteq> Inr [0, 255]
   \<and> sec_fixed_from_hex sample_crates 1 ''00ff'' \<noteq> Inr [0, 255]"
proof -
  have "hex_encode sample_crates [0, 255] = ''00ff''"
    by (simp add: sample_crates_def s_hex_digit_def lower_hex_digits_def)
  then show ?thesis
    using sample_hex_ok hex_decoding_is_canonical [OF sample_hex_ok, of "''00ff''" "[0, 255]" 1]
      hex_decoding_is_canonical [OF sample_hex_ok, of "''00FF''" "[0, 255]" 2]
    by simp
qed

section \<open>Wiping\<close>

definition zw_inv :: "zeroizing_writer \<Rightarrow> bool" where
  "zw_inv w \<longleftrightarrow> length (contents (wbuf w)) \<le> capacity (wbuf w) \<and> (\<forall>b\<in>set (released w). set b \<subseteq> {0})"

lemma wiped_buffer_zero [simp]: "set (wiped_buffer v) \<subseteq> {0}"
  by (auto simp: wiped_buffer_def)

lemma zw_inv_new [simp]: "zw_inv zeroizing_writer_new"
  by (simp add: zw_inv_def zeroizing_writer_new_def vec_new_def)

lemma zw_grow_spec:
  assumes "zw_inv w" and "length (contents (wbuf w)) \<le> needed"
  shows "zw_inv (zw_grow w needed)" and "contents (wbuf (zw_grow w needed)) = contents (wbuf w)"
    and "needed \<le> capacity (wbuf (zw_grow w needed))"
  using assms wiped_buffer_zero [of "wbuf w"]
  by (auto simp: zw_grow_def zw_inv_def extend_from_slice_def Let_def)

lemma zw_write_ok:
  assumes "zw_inv w" and "length (contents (wbuf w)) + length d < usize_bound"
  obtains w' where "zw_write w d = (Inr (length d), w')" and "zw_inv w'"
    and "contents (wbuf w') = contents (wbuf w) @ d"
proof
  let ?w1 = "zw_grow w (length (contents (wbuf w)) + length d)"
  let ?w' = "\<lparr>wbuf = (wbuf ?w1)\<lparr>contents := contents (wbuf w) @ d\<rparr>, released = released ?w1\<rparr>"
  have le: "length (contents (wbuf w)) \<le> length (contents (wbuf w)) + length d" by simp
  note g = zw_grow_spec [OF assms(1) le]
  have ext: "extend_from_slice (wbuf ?w1) d = ((wbuf ?w1)\<lparr>contents := contents (wbuf w) @ d\<rparr>, [])"
    using g(2,3) by (simp add: extend_from_slice_def)
  show "zw_write w d = (Inr (length d), ?w')"
    using assms(2) by (simp add: zw_write_def checked_add_usize_def ext Let_def)
  show "zw_inv ?w'" using g(1,3) by (simp add: zw_inv_def)
  show "contents (wbuf ?w') = contents (wbuf w) @ d" by simp
qed

lemma zw_write_all_ok:
  assumes "zw_inv w" and "length (contents (wbuf w)) + length (concat ds) < usize_bound"
  shows "\<exists>w'. zw_write_all w ds = (Inr (), w') \<and> zw_inv w' \<and> contents (wbuf w') = contents (wbuf w) @ concat ds"
  using assms
proof (induction ds arbitrary: w)
  case (Cons d ds)
  have "length (contents (wbuf w)) + length d < usize_bound" using Cons.prems(2) by simp
  then obtain w1 where w1: "zw_write w d = (Inr (length d), w1)" "zw_inv w1"
      "contents (wbuf w1) = contents (wbuf w) @ d"
    using zw_write_ok [OF Cons.prems(1)] by blast
  then show ?case using Cons.IH [of w1] Cons.prems(2) by (auto simp: add.assoc)
qed simp

text \<open>C35. A serializer writing any chunks through the wiping writer gets a secret with exactly the
  bytes it wrote and no spare capacity, and every heap buffer released on the way, growth included,
  holds only zeros.\<close>

theorem zeroizing_writer_leaves_no_copy:
  assumes "length (concat ds) < usize_bound"
  shows "\<exists>w. zw_write_all zeroizing_writer_new ds = (Inr (), w)
    \<and> fst (zw_into_secret w) = to_vec (concat ds)
    \<and> (\<forall>b\<in>set (snd (zw_into_secret w)). set b \<subseteq> {0})"
proof -
  obtain w where w: "zw_write_all zeroizing_writer_new ds = (Inr (), w)" "zw_inv w"
      "contents (wbuf w) = concat ds"
    using zw_write_all_ok [OF zw_inv_new, of ds] assms
    by (auto simp: zeroizing_writer_new_def vec_new_def)
  then show ?thesis
    using wiped_buffer_zero [of "wbuf w"]
    by (auto simp: zw_into_secret_def secret_bytes_from_slice_def secret_bytes_new_def to_vec_def
        zw_inv_def)
qed

theorem zeroizing_writer_leaves_no_copy_witness:
  "\<exists>w. zw_write_all zeroizing_writer_new [replicate 60 7, [1, 2, 3, 4, 5]] = (Inr (), w)
    \<and> contents (fst (zw_into_secret w)) = replicate 60 7 @ [1, 2, 3, 4, 5]
    \<and> (\<forall>b\<in>set (snd (zw_into_secret w)). set b \<subseteq> {0})"
  using zeroizing_writer_leaves_no_copy [of "[replicate 60 7, [1, 2, 3, 4, 5]]"]
  by (auto simp: usize_bound_def to_vec_def)

section \<open>Secret strings\<close>

text \<open>
  \<open>core::str::from_utf8\<close>: \<open>None\<close> for a valid string, otherwise how many bytes are valid and, unless the
  input ends inside a sequence, the length of the offending sequence.
\<close>

definition is_cont :: "u8 \<Rightarrow> bool" where
  "is_cont b \<longleftrightarrow> 128 \<le> b \<and> b \<le> 191"

definition second_ok :: "u8 \<Rightarrow> u8 \<Rightarrow> bool" where
  "second_ok a b =
     (if a = 224 then 160 \<le> b \<and> b \<le> 191
      else if a = 237 then 128 \<le> b \<and> b \<le> 159
      else if a = 240 then 144 \<le> b \<and> b \<le> 191
      else if a = 244 then 128 \<le> b \<and> b \<le> 143
      else is_cont b)"

definition utf8_width :: "u8 \<Rightarrow> nat" where
  "utf8_width a =
     (if a < 128 then 1 else if 194 \<le> a \<and> a \<le> 223 then 2
      else if 224 \<le> a \<and> a \<le> 239 then 3 else if 240 \<le> a \<and> a \<le> 244 then 4 else 0)"

fun utf8_error :: "nat \<Rightarrow> bytes \<Rightarrow> (nat \<times> nat option) option" where
  "utf8_error i [] = None"
| "utf8_error i (a # bs) =
     (if utf8_width a = 1 then utf8_error (i + 1) bs
      else if utf8_width a = 0 then Some (i, Some 1)
      else case bs of
        [] \<Rightarrow> Some (i, None)
      | b # cs \<Rightarrow>
          if \<not> second_ok a b then Some (i, Some 1)
          else if utf8_width a = 2 then utf8_error (i + 2) cs
          else case cs of
            [] \<Rightarrow> Some (i, None)
          | c # ds \<Rightarrow>
              if \<not> is_cont c then Some (i, Some 2)
              else if utf8_width a = 3 then utf8_error (i + 3) ds
              else case ds of
                [] \<Rightarrow> Some (i, None)
              | d # es \<Rightarrow> if \<not> is_cont d then Some (i, Some 3) else utf8_error (i + 4) es)"

definition utf8_error_text :: "nat \<times> nat option \<Rightarrow> string" where
  "utf8_error_text e = (case e of
     (i, Some n) \<Rightarrow> ''invalid utf-8 sequence of '' @ show_nat n @ '' bytes from index '' @ show_nat i
   | (i, None) \<Rightarrow> ''incomplete utf-8 byte sequence from index '' @ show_nat i)"

text \<open>\<open>SecretString::new\<close>: the boxed text, and the buffers given back.  A vector without spare capacity
  becomes the box as it is.\<close>

definition secret_string_new :: "vec \<Rightarrow> bytes \<times> bytes list" where
  "secret_string_new s =
     (if capacity s = length (contents s) then (contents s, []) else (contents s, [wiped_buffer s]))"

definition secret_string_new_checked :: "string \<Rightarrow> string result" where
  "secret_string_new_checked s = (if 0 \<in> set (as_bytes s) then Inl string_policy else Inr s)"

definition secret_string_from_utf8 :: "bytes \<Rightarrow> string result" where
  "secret_string_from_utf8 bs = (case utf8_error 0 bs of
     Some e \<Rightarrow> Inl (with_source string_policy (OtherSource (utf8_error_text e)))
   | None \<Rightarrow> secret_string_new_checked (map (\<lambda>b. char_of (unat b)) bs))"

definition secret_string_decode_hex :: "crates \<Rightarrow> string \<Rightarrow> bytes result" where
  "secret_string_decode_hex cr s = decode_vec cr s"

definition secret_string_decode_hex_fixed :: "crates \<Rightarrow> nat \<Rightarrow> string \<Rightarrow> bytes result" where
  "secret_string_decode_hex_fixed cr n s = sec_fixed_from_hex cr n s"

definition secret_string_display :: "string \<Rightarrow> string" where
  "secret_string_display s = ''<redacted>''"

lemma as_bytes_map_char_of [simp]: "as_bytes (map (\<lambda>b. char_of (unat b)) bs) = bs"
proof (induction bs)
  case (Cons b bs)
  have "(of_char (char_of (unat b) :: char) :: u8) = of_nat (of_char (char_of (unat b) :: char))"
    by (rule of_nat_of_char [symmetric])
  also have "\<dots> = b" using unat_byte_less [of b] by simp
  finally show ?case using Cons by simp
qed simp

lemma secret_string_from_utf8_accepts:
  "secret_string_from_utf8 bs = Inr s \<longleftrightarrow> utf8_error 0 bs = None \<and> 0 \<notin> set bs \<and> as_bytes s = bs"
proof -
  have "map (\<lambda>b. char_of (unat b)) (as_bytes s) = s"
    by (induction s) simp_all
  then show ?thesis
    by (auto simp: secret_string_from_utf8_def secret_string_new_checked_def split: option.splits)
qed

end
