(* ===== verification/Contexts.thy ===== *)
theory Contexts
  imports ByteTypes
begin

text \<open>
  Domain-separation contexts, \<^verbatim>\<open>src/src/crypto/context.rs\<close>.  A context is a path of segments
  joined by \<open>/\<close>; its label carries the format version and is bound, together with the caller's
  associated data, into every key derivation, AEAD and signature of the crate.  The theory shows
  that a built context determines its segments, and that the bound bytes determine both the
  context and the associated data.
\<close>

section \<open>Operations\<close>

definition CTX_VERSION :: string where
  "CTX_VERSION = ''v1''"

definition MAX_CONTEXT_LEN :: nat where
  "MAX_CONTEXT_LEN = 255"

definition segment_byte :: "u8 \<Rightarrow> bool" where
  "segment_byte b \<longleftrightarrow> 0x21 \<le> b \<and> b \<le> 0x7e \<and> b \<noteq> of_char (CHR ''/'')"

definition validate_segment :: "string \<Rightarrow> unit result" where
  "validate_segment seg =
     (if seg = [] then Inl (invalid_context ''empty_segment'')
      else if \<not> list_all segment_byte (as_bytes seg) then Inl (invalid_context ''segment_charset'')
      else Inr ())"

definition ctx_base :: "string \<Rightarrow> string result" where
  "ctx_base root =
     rbind (validate_segment root) (\<lambda>_.
     if length root > MAX_CONTEXT_LEN then Inl (invalid_context ''too_long'') else Inr root)"

definition ctx_add :: "string \<Rightarrow> string \<Rightarrow> string result" where
  "ctx_add c segment =
     rbind (validate_segment segment) (\<lambda>_.
     let joined = c @ ''/'' @ segment in
     if length joined > MAX_CONTEXT_LEN then Inl (invalid_context ''too_long'') else Inr joined)"

definition ctx_label :: "string \<Rightarrow> bytes" where
  "ctx_label c = as_bytes (c @ ''/'' @ CTX_VERSION)"

definition bind_aad :: "string \<Rightarrow> bytes \<Rightarrow> bytes" where
  "bind_aad c aad = (if aad \<noteq> [] then ctx_label c @ [0] @ aad else ctx_label c)"

section \<open>Built contexts\<close>

fun ctx_extend :: "string \<Rightarrow> string list \<Rightarrow> string result" where
  "ctx_extend c [] = Inr c"
| "ctx_extend c (s # ss) = rbind (ctx_add c s) (\<lambda>c'. ctx_extend c' ss)"

text \<open>The context that \<open>base\<close> and successive calls of \<open>add\<close> build from a list of segments.\<close>

fun ctx_path :: "string list \<Rightarrow> string result" where
  "ctx_path [] = Inl (invalid_context ''empty_segment'')"
| "ctx_path (root # segs) = rbind (ctx_base root) (\<lambda>c. ctx_extend c segs)"

definition built_ctx :: "string \<Rightarrow> bool" where
  "built_ctx c \<longleftrightarrow> (\<exists>segs. ctx_path segs = Inr c)"

text \<open>The segments of a context, read back from its text.\<close>

fun split_slash :: "string \<Rightarrow> string list" where
  "split_slash [] = [[]]"
| "split_slash (x # xs) =
     (if x = CHR ''/'' then [] # split_slash xs
      else case split_slash xs of [] \<Rightarrow> [[x]] | s # ss \<Rightarrow> (x # s) # ss)"

definition segment :: "string \<Rightarrow> bool" where
  "segment s \<longleftrightarrow> s \<noteq> [] \<and> list_all segment_byte (as_bytes s)"

lemma validate_segment_iff [simp]: "validate_segment s = Inr u \<longleftrightarrow> segment s"
  by (simp add: validate_segment_def segment_def)

lemma segment_no_slash: "segment s \<Longrightarrow> CHR ''/'' \<notin> set s"
  by (auto simp: segment_def list_all_iff segment_byte_def as_bytes_def)

lemma segment_no_nul: "segment s \<Longrightarrow> 0 \<notin> set (as_bytes s)"
  by (auto simp: segment_def list_all_iff segment_byte_def)

lemma split_slash_not_Nil [simp]: "split_slash s \<noteq> []"
  by (cases s) (auto split: list.splits)

lemma split_slash_single: "CHR ''/'' \<notin> set s \<Longrightarrow> split_slash s = [s]"
  by (induction s) auto

lemma split_slash_append: "CHR ''/'' \<notin> set t \<Longrightarrow> split_slash (s @ CHR ''/'' # t) = split_slash s @ [t]"
proof (induction s)
  case Nil
  then show ?case by (simp add: split_slash_single)
next
  case (Cons x s)
  then show ?case by (cases "split_slash s") auto
qed

lemma ctx_add_iff:
  "ctx_add c s = Inr c' \<longleftrightarrow> segment s \<and> c' = c @ ''/'' @ s \<and> length c' \<le> MAX_CONTEXT_LEN"
  by (auto simp: ctx_add_def rbind_Inr_iff Let_def)

lemma ctx_base_iff: "ctx_base r = Inr c \<longleftrightarrow> segment r \<and> c = r \<and> length c \<le> MAX_CONTEXT_LEN"
  by (auto simp: ctx_base_def rbind_Inr_iff)

lemma ctx_extend_split:
  "ctx_extend c ss = Inr c' \<Longrightarrow> split_slash c' = split_slash c @ ss"
proof (induction ss arbitrary: c)
  case (Cons s ss)
  then obtain d where "ctx_add c s = Inr d" and "ctx_extend d ss = Inr c'"
    by (auto simp: rbind_Inr_iff)
  then show ?case
    using Cons.IH [of d] by (simp add: ctx_add_iff split_slash_append segment_no_slash)
qed simp

lemma ctx_path_split: "ctx_path segs = Inr c \<Longrightarrow> split_slash c = segs"
  by (cases segs)
     (auto simp: rbind_Inr_iff ctx_base_iff split_slash_single segment_no_slash dest: ctx_extend_split)

lemma ctx_extend_no_nul:
  "ctx_extend c ss = Inr c' \<Longrightarrow> 0 \<notin> set (as_bytes c) \<Longrightarrow> 0 \<notin> set (as_bytes c')"
proof (induction ss arbitrary: c)
  case (Cons s ss)
  then obtain d where d: "ctx_add c s = Inr d" and "ctx_extend d ss = Inr c'"
    by (auto simp: rbind_Inr_iff)
  moreover have "0 \<notin> set (as_bytes d)"
    using d Cons.prems(2) by (auto simp: ctx_add_iff segment_no_nul)
  ultimately show ?case using Cons.IH by blast
qed simp

lemma built_ctx_no_nul: "built_ctx c \<Longrightarrow> 0 \<notin> set (as_bytes c)"
proof -
  assume "built_ctx c"
  then obtain segs where "ctx_path segs = Inr c" by (auto simp: built_ctx_def)
  then show ?thesis
    by (cases segs) (auto simp: rbind_Inr_iff ctx_base_iff dest: segment_no_nul ctx_extend_no_nul)
qed

lemma built_ctx_length: "built_ctx c \<Longrightarrow> length c \<le> MAX_CONTEXT_LEN"
proof -
  have ext: "ctx_extend d ss = Inr c \<Longrightarrow> length d \<le> MAX_CONTEXT_LEN \<Longrightarrow> length c \<le> MAX_CONTEXT_LEN"
    for d ss
    by (induction ss arbitrary: d) (auto simp: rbind_Inr_iff ctx_add_iff)
  assume "built_ctx c"
  then obtain segs where "ctx_path segs = Inr c" by (auto simp: built_ctx_def)
  then show ?thesis
    by (cases segs) (auto simp: rbind_Inr_iff ctx_base_iff intro: ext)
qed

section \<open>Binding\<close>

lemma ctx_label_inject [simp]: "ctx_label c = ctx_label d \<longleftrightarrow> c = d"
  by (simp add: ctx_label_def)

lemma ctx_label_no_nul: "built_ctx c \<Longrightarrow> 0 \<notin> set (ctx_label c)"
  using built_ctx_no_nul [of c] by (auto simp: ctx_label_def CTX_VERSION_def)

lemma nul_split_inject:
  assumes "0 \<notin> set xs" and "0 \<notin> set ys"
  shows "xs @ (0 :: u8) # as = ys @ 0 # bs \<longleftrightarrow> xs = ys \<and> as = bs"
  using assms
proof (induction xs arbitrary: ys)
  case Nil
  then show ?case by (cases ys) auto
next
  case (Cons x xs)
  then show ?case by (cases ys) auto
qed

lemma bind_aad_inject:
  assumes "built_ctx c" and "built_ctx d"
  shows "bind_aad c a = bind_aad d b \<longleftrightarrow> c = d \<and> a = b"
proof -
  note nn = ctx_label_no_nul [OF assms(1)] ctx_label_no_nul [OF assms(2)]
  have "ctx_label c \<noteq> ctx_label d @ 0 # b" and "ctx_label c @ 0 # a \<noteq> ctx_label d"
    using nn by (metis in_set_conv_decomp)+
  then show ?thesis
    by (auto simp: bind_aad_def nul_split_inject [OF nn])
qed

text \<open>
  What the keyed modules need of the binding: injectivity in the context and the associated data.
  Any function of the bound bytes that does not collide on two inputs separates the two domains.
\<close>

locale domain_binding =
  fixes bind_dom :: "'c \<Rightarrow> bytes \<Rightarrow> bytes"
    and dom_ok :: "'c \<Rightarrow> bool"
  assumes bind_inject: "dom_ok c \<Longrightarrow> dom_ok d \<Longrightarrow> bind_dom c a = bind_dom d b \<longleftrightarrow> c = d \<and> a = b"
begin

lemma separates:
  assumes "dom_ok c" and "dom_ok d" and "(c, a) \<noteq> (d, b)"
  shows "bind_dom c a \<noteq> bind_dom d b"
  using assms bind_inject by blast

lemma inj_on_bind: "inj_on (\<lambda>(c, a). bind_dom c a) (Collect dom_ok \<times> UNIV)"
  by (auto simp: inj_on_def bind_inject)

end

interpretation ctx: domain_binding bind_aad built_ctx
  by unfold_locales (rule bind_aad_inject)

text \<open>C7. Domain separation: two contexts built from segment lists and two pieces of associated
  data are bound to the same bytes only if the segment lists and the data are the same; in
  particular no segment, version suffix or associated data can imitate another context.\<close>

theorem context_binding_is_injective:
  assumes "ctx_path segs = Inr c" and "ctx_path segs' = Inr c'"
    and "bind_aad c aad = bind_aad c' aad'"
  shows "segs = segs' \<and> aad = aad'"
proof -
  have "built_ctx c" and "built_ctx c'" using assms(1,2) by (auto simp: built_ctx_def)
  then have "c = c'" and "aad = aad'" using ctx.bind_inject assms(3) by blast+
  then show ?thesis using ctx_path_split assms(1,2) by blast
qed

lemma ctx_path_example: "ctx_path [''app'', ''mail''] = Inr ''app/mail''"
  by (simp add: ctx_base_def ctx_add_def validate_segment_def segment_byte_def MAX_CONTEXT_LEN_def
      CTX_VERSION_def)

lemma app_built: "built_ctx ''app''"
proof -
  have "ctx_path [''app''] = Inr ''app''"
    by (simp add: ctx_base_def validate_segment_def segment_byte_def MAX_CONTEXT_LEN_def)
  then show ?thesis unfolding built_ctx_def by blast
qed

theorem context_binding_is_injective_witness:
  "\<exists>c. ctx_path [''app'', ''mail''] = Inr c \<and> bind_aad c [1] = as_bytes ''app/mail/v1'' @ [0, 1]
    \<and> (\<forall>segs aad. ctx_path segs = Inr c \<and> bind_aad c aad = bind_aad c [1]
         \<longrightarrow> segs = [''app'', ''mail''] \<and> aad = [1])"
proof (intro exI conjI allI impI)
  show ok: "ctx_path [''app'', ''mail''] = Inr ''app/mail''" by (rule ctx_path_example)
  show "bind_aad ''app/mail'' [1] = as_bytes ''app/mail/v1'' @ [0, 1]"
    by (simp add: bind_aad_def ctx_label_def CTX_VERSION_def)
  fix segs aad
  assume "ctx_path segs = Inr ''app/mail'' \<and> bind_aad ''app/mail'' aad = bind_aad ''app/mail'' [1]"
  then show "segs = [''app'', ''mail'']" and "aad = [1]"
    using context_binding_is_injective [OF _ ok] by blast+
qed

end
