(* ===== verification/Arena.thy ===== *)
theory Arena
  imports ByteTypes
begin

text \<open>
  The locked-memory arena of \<^verbatim>\<open>src/src/secrets/arena.rs\<close>: a mapping of zeroed pages from which
  regions are handed out and to which they return wiped.  The mapping is the list of its bytes, a
  region its offset, length and rounded length; the free lists are a function from rounded lengths.
  The theory shows, over every sequence of allocations, writes and releases, that live regions are
  disjoint, aligned and inside the mapping, that writing one changes no other, and that memory that
  is not in a live region is zero.
\<close>

section \<open>State and operations\<close>

definition ALIGN :: nat where
  "ALIGN = 16"

definition div_ceil :: "nat \<Rightarrow> nat \<Rightarrow> nat" where
  "div_ceil a b = a div b + (if a mod b > 0 then 1 else 0)"

definition round_up :: "nat \<Rightarrow> nat \<Rightarrow> nat option" where
  "round_up v to = checked_mul_usize (div_ceil v to) to"

record arena =
  mem :: bytes
  offset :: nat
  free_slots :: "nat \<Rightarrow> nat list"

definition arena_size :: "arena \<Rightarrow> nat" where
  "arena_size a = length (mem a)"

definition arena_alloc :: "nat \<Rightarrow> arena \<Rightarrow> (nat \<times> nat) result \<times> arena" where
  "arena_alloc len a =
     (case round_up (max len 1) ALIGN of
        None \<Rightarrow> (Inl (internal_error ''arena_size_overflow''), a)
      | Some len \<Rightarrow>
          if free_slots a len \<noteq> []
          then (Inr (last (free_slots a len), len),
                a\<lparr>free_slots := (free_slots a)(len := butlast (free_slots a len))\<rparr>)
          else case checked_add_usize (offset a) len of
            None \<Rightarrow> (Inl (internal_error ''arena_size_overflow''), a)
          | Some e \<Rightarrow>
              if e > arena_size a then (Inl (internal_error ''arena_exhausted''), a)
              else (Inr (offset a, len), a\<lparr>offset := e\<rparr>))"

text \<open>A write of raw memory inside the mapping.\<close>

definition write_mem :: "nat \<Rightarrow> bytes \<Rightarrow> bytes \<Rightarrow> bytes" where
  "write_mem off bs m = take off m @ bs @ drop (off + length bs) m"

definition arena_dealloc :: "nat \<Rightarrow> nat \<Rightarrow> arena \<Rightarrow> arena" where
  "arena_dealloc off aligned_len a =
     a\<lparr>mem := write_mem off (replicate aligned_len 0) (mem a),
       free_slots := (free_slots a)(aligned_len := free_slots a aligned_len @ [off])\<rparr>"

record region =
  r_off :: nat
  r_len :: nat
  r_aligned :: nat

definition region_slice :: "region \<Rightarrow> arena \<Rightarrow> bytes" where
  "region_slice r a = take (r_len r) (drop (r_off r) (mem a))"

definition region_write :: "region \<Rightarrow> bytes \<Rightarrow> arena \<Rightarrow> arena" where
  "region_write r bs a = a\<lparr>mem := write_mem (r_off r) bs (mem a)\<rparr>"

definition region_drop :: "region \<Rightarrow> arena \<Rightarrow> arena" where
  "region_drop r a = arena_dealloc (r_off r) (r_aligned r) a"

definition region_zeroize :: "region \<Rightarrow> arena \<Rightarrow> arena" where
  "region_zeroize r a = region_write r (zeroize (region_slice r a)) a"

text \<open>Comparison in constant time, of regions that may belong to different arenas.\<close>

definition region_eq :: "region \<Rightarrow> arena \<Rightarrow> region \<Rightarrow> arena \<Rightarrow> bool" where
  "region_eq r a s b \<longleftrightarrow> region_slice r a = region_slice s b"

text \<open>Dropping the arena: the content of the pages when they are unmapped.\<close>

definition arena_drop :: "arena \<Rightarrow> bytes" where
  "arena_drop a = write_mem 0 (replicate (arena_size a) 0) (mem a)"

definition claim :: "nat \<Rightarrow> arena \<Rightarrow> region result \<times> arena" where
  "claim len a = (case arena_alloc len a of
     (Inl e, a') \<Rightarrow> (Inl e, a')
   | (Inr (off, aligned_len), a') \<Rightarrow> (Inr \<lparr>r_off = off, r_len = len, r_aligned = aligned_len\<rparr>, a'))"

definition store_fixed :: "nat \<Rightarrow> bytes \<Rightarrow> arena \<Rightarrow> region result \<times> arena" where
  "store_fixed n secret a = (case claim n a of
     (Inl e, a') \<Rightarrow> (Inl e, a')
   | (Inr r, a') \<Rightarrow> (Inr r, region_write r secret a'))"

definition store_slice_fixed :: "nat \<Rightarrow> bytes \<Rightarrow> arena \<Rightarrow> region result \<times> arena" where
  "store_slice_fixed n s a =
     (if length s \<noteq> n then (Inl (invalid_len n (length s)), a) else store_fixed n s a)"

text \<open>\<open>store_fixed_wiped\<close> also returns what it leaves in the source buffer; a source that does not
  fit the arena is left as it is.\<close>

definition store_fixed_wiped :: "nat \<Rightarrow> bytes \<Rightarrow> arena \<Rightarrow> (region result \<times> bytes) \<times> arena" where
  "store_fixed_wiped n src a =
     (if length src \<noteq> n then ((Inl (invalid_len n (length src)), zeroize src), a)
      else case claim n a of
        (Inl e, a') \<Rightarrow> ((Inl e, src), a')
      | (Inr r, a') \<Rightarrow> ((Inr r, zeroize src), region_write r src a'))"

text \<open>\<open>SecretArena::build\<close>: \<open>map_fault\<close> is the failure of the mapping call, \<open>lock_fault\<close> of \<open>mlock\<close>.\<close>

definition arena_build :: "nat \<Rightarrow> bool \<Rightarrow> nat \<Rightarrow> io_kind option \<Rightarrow> io_kind option \<Rightarrow> string \<Rightarrow> (arena \<times> bool) result" where
  "arena_build page_size require_lock bytes_wanted map_fault lock_fault text =
     (case round_up (max bytes_wanted 1) page_size of
        None \<Rightarrow> Inl (internal_error ''arena_size_overflow'')
      | Some sz \<Rightarrow>
          (case map_fault of
             Some k \<Rightarrow> Inl (io_error k text)
           | None \<Rightarrow>
              (case lock_fault of
                 Some k \<Rightarrow> if require_lock then Inl (io_error k text)
                           else Inr (\<lparr>mem = replicate sz 0, offset = 0, free_slots = (\<lambda>_. [])\<rparr>, False)
               | None \<Rightarrow> Inr (\<lparr>mem = replicate sz 0, offset = 0, free_slots = (\<lambda>_. [])\<rparr>, True))))"

section \<open>The invariant\<close>

definition disjoint_slots :: "nat \<times> nat \<Rightarrow> nat \<times> nat \<Rightarrow> bool" where
  "disjoint_slots s t \<longleftrightarrow> fst s + snd s \<le> fst t \<or> fst t + snd t \<le> fst s"

definition free_set :: "arena \<Rightarrow> (nat \<times> nat) set" where
  "free_set a = {(off, len). off \<in> set (free_slots a len)}"

definition slot_ok :: "arena \<Rightarrow> nat \<times> nat \<Rightarrow> bool" where
  "slot_ok a s \<longleftrightarrow> 0 < snd s \<and> ALIGN dvd fst s \<and> ALIGN dvd snd s \<and> fst s + snd s \<le> offset a"

definition mem_zero :: "arena \<Rightarrow> nat \<times> nat \<Rightarrow> bool" where
  "mem_zero a s \<longleftrightarrow> (\<forall>i\<in>{fst s..<fst s + snd s}. mem a ! i = 0)"

text \<open>\<open>live\<close> are the slots of the regions handed out and not yet dropped.\<close>

definition arena_inv :: "(nat \<times> nat) set \<Rightarrow> arena \<Rightarrow> bool" where
  "arena_inv live a \<longleftrightarrow>
     offset a \<le> arena_size a \<and> ALIGN dvd offset a
   \<and> (\<forall>s\<in>live \<union> free_set a. slot_ok a s)
   \<and> (\<forall>s\<in>live \<union> free_set a. \<forall>t\<in>live \<union> free_set a. s \<noteq> t \<longrightarrow> disjoint_slots s t)
   \<and> live \<inter> free_set a = {}
   \<and> (\<forall>len. distinct (free_slots a len))
   \<and> (\<forall>s\<in>free_set a. mem_zero a s)
   \<and> mem_zero a (offset a, arena_size a - offset a)
   \<and> (\<forall>i<offset a. \<exists>s\<in>live \<union> free_set a. fst s \<le> i \<and> i < fst s + snd s)"

section \<open>Preservation\<close>

lemma length_write_mem: "off + length bs \<le> length m \<Longrightarrow> length (write_mem off bs m) = length m"
  by (simp add: write_mem_def)

lemma nth_write_mem:
  assumes "off + length bs \<le> length m" and "i < length m"
  shows "write_mem off bs m ! i = (if off \<le> i \<and> i < off + length bs then bs ! (i - off) else m ! i)"
proof -
  have len: "length (take off m) = off" using assms by simp
  consider "i < off" | "off \<le> i" "i - off < length bs" | "off \<le> i" "length bs \<le> i - off" by linarith
  then show ?thesis
    using assms by cases (auto simp: write_mem_def nth_append len)
qed

lemma round_up_align:
  assumes "round_up (max len 1) ALIGN = Some n"
  shows "0 < n" and "len \<le> n" and "ALIGN dvd n"
proof -
  have n: "n = div_ceil (max len 1) 16 * 16"
    using assms by (auto simp: round_up_def checked_mul_usize_def ALIGN_def split: if_splits)
  then show "ALIGN dvd n" by (simp add: ALIGN_def)
  have "m \<le> div_ceil m 16 * 16" for m
    using div_mult_mod_eq [of m 16] mod_less_divisor [of 16 m]
    by (cases "m mod 16 = 0") (simp_all add: div_ceil_def)
  then have "max len 1 \<le> n" unfolding n .
  then show "0 < n" and "len \<le> n" by linarith+
qed

lemma arena_inv_slotD:
  assumes "arena_inv live a" and "s \<in> live \<union> free_set a"
  shows "slot_ok a s" and "fst s + snd s \<le> arena_size a"
proof -
  show *: "slot_ok a s" using assms unfolding arena_inv_def by blast
  have "offset a \<le> arena_size a" using assms(1) unfolding arena_inv_def by blast
  with * show "fst s + snd s \<le> arena_size a" by (simp add: slot_ok_def)
qed

lemma free_set_pop:
  assumes "free_slots a n \<noteq> []" and "distinct (free_slots a n)"
  shows "free_set (a\<lparr>free_slots := (free_slots a)(n := butlast (free_slots a n))\<rparr>)
    = free_set a - {(last (free_slots a n), n)}"
proof -
  obtain xs x where "free_slots a n = xs @ [x]" using assms(1) by (metis append_butlast_last_id)
  then show ?thesis using assms(2) by (auto simp: free_set_def split: if_splits)
qed

lemma arena_inv_alloc:
  assumes "arena_inv live a" and "arena_alloc len a = (Inr s, a')"
  shows "arena_inv (insert s live) a'" and "s \<notin> live" and "len \<le> snd s" and "mem a' = mem a"
    and "mem_zero a' s"
proof -
  note I = assms(1) [unfolded arena_inv_def]
  obtain n where n: "round_up (max len 1) ALIGN = Some n"
    using assms(2) by (auto simp: arena_alloc_def split: option.splits)
  note R = round_up_align [OF n]
  have "arena_inv (insert s live) a' \<and> s \<notin> live \<and> len \<le> snd s \<and> mem a' = mem a \<and> mem_zero a' s"
  proof (cases "free_slots a n = []")
    case False
    then have s: "s = (last (free_slots a n), n)"
        and a': "a' = a\<lparr>free_slots := (free_slots a)(n := butlast (free_slots a n))\<rparr>"
      using assms(2) n by (auto simp: arena_alloc_def)
    have fs: "free_set a' = free_set a - {s}"
      unfolding a' s by (rule free_set_pop [OF False]) (use I in blast)
    have sin: "s \<in> free_set a" using False by (simp add: s free_set_def)
    have un: "insert s live \<union> free_set a' = live \<union> free_set a" using sin fs by blast
    have same: "slot_ok a' t = slot_ok a t" "mem_zero a' t = mem_zero a t" for t
      by (simp_all add: a' slot_ok_def mem_zero_def)
    have "distinct (free_slots a' l)" for l
      using I by (simp add: a' distinct_butlast)
    moreover have "offset a' = offset a" "arena_size a' = arena_size a" by (simp_all add: a' arena_size_def)
    ultimately have "arena_inv (insert s live) a'"
      unfolding arena_inv_def un same using I fs by (auto simp del: Un_iff)
    then show ?thesis using I sin R(2) by (auto simp: s a' mem_zero_def)
  next
    case True
    then have s: "s = (offset a, n)" and a': "a' = a\<lparr>offset := offset a + n\<rparr>" and le: "offset a + n \<le> arena_size a"
      using assms(2) n by (auto simp: arena_alloc_def checked_add_usize_def split: if_splits)
    have fs: "free_set a' = free_set a" by (simp add: a' free_set_def)
    have sz: "arena_size a' = arena_size a" by (simp add: a' arena_size_def)
    have old: "slot_ok a t" "slot_ok a' t" "disjoint_slots s t" "disjoint_slots t s" "t \<noteq> s"
      if "t \<in> live \<union> free_set a" for t
    proof -
      show *: "slot_ok a t" using I that by blast
      then show "slot_ok a' t" and "disjoint_slots s t" and "disjoint_slots t s" and "t \<noteq> s"
        by (auto simp: a' s slot_ok_def disjoint_slots_def)
    qed
    have new: "slot_ok a' s" using R I by (simp add: s a' slot_ok_def)
    have z: "mem_zero a' s" "mem_zero a' (offset a', arena_size a' - offset a')"
      using I le by (auto simp: mem_zero_def s a' arena_size_def)
    have "arena_inv (insert s live) a'"
      unfolding arena_inv_def fs sz
    proof (intro conjI)
      show "\<forall>t\<in>insert s live \<union> free_set a. \<forall>u\<in>insert s live \<union> free_set a. t \<noteq> u \<longrightarrow> disjoint_slots t u"
        using I old by auto
      show "\<forall>t\<in>insert s live \<union> free_set a. slot_ok a' t" using old new by auto
      have "s \<notin> free_set a" using old(5) [of s] by blast
      then show "insert s live \<inter> free_set a = {}" using I by blast
      show "\<forall>t\<in>free_set a. mem_zero a' t" using I by (simp add: mem_zero_def a')
      show "\<forall>i<offset a'. \<exists>t\<in>insert s live \<union> free_set a. fst t \<le> i \<and> i < fst t + snd t"
      proof (intro allI impI)
        fix i
        assume "i < offset a'"
        then consider "i < offset a" | "offset a \<le> i" "i < offset a + n" by (fastforce simp: a')
        then show "\<exists>t\<in>insert s live \<union> free_set a. fst t \<le> i \<and> i < fst t + snd t"
          using I by cases (blast, simp add: s)
      qed
    qed (use I le R(3) z(2) in \<open>auto simp: a' arena_size_def\<close>)
    then show ?thesis using z(1) old(5) R(2) by (auto simp: s a')
  qed
  then show "arena_inv (insert s live) a'" and "s \<notin> live" and "len \<le> snd s" and "mem a' = mem a"
    and "mem_zero a' s" by simp_all
qed

lemma mem_zero_write:
  assumes "off + length bs \<le> arena_size a" and "disjoint_slots (off, length bs) s"
    and "fst s + snd s \<le> arena_size a" and "mem_zero a s"
  shows "mem_zero (a\<lparr>mem := write_mem off bs (mem a)\<rparr>) s"
  using assms by (auto simp: mem_zero_def nth_write_mem arena_size_def disjoint_slots_def)

lemma arena_inv_write:
  assumes "arena_inv live a" and "s \<in> live" and "length bs \<le> snd s"
  shows "arena_inv live (a\<lparr>mem := write_mem (fst s) bs (mem a)\<rparr>)" (is "arena_inv live ?a")
proof -
  note I = assms(1) [unfolded arena_inv_def]
  have s: "fst s + snd s \<le> offset a" "fst s + snd s \<le> arena_size a"
    using arena_inv_slotD [OF assms(1), of s] assms(2) by (auto simp: slot_ok_def)
  have fit: "fst s + length bs \<le> arena_size a" using s(2) assms(3) by simp
  have sz: "arena_size ?a = arena_size a" using fit by (simp add: arena_size_def length_write_mem)
  have fs: "free_set ?a = free_set a" by (simp add: free_set_def)
  have z: "mem_zero ?a t" if "t \<in> free_set a" for t
  proof (rule mem_zero_write [OF fit])
    have "s \<noteq> t" using I assms(2) that by blast
    then have "disjoint_slots s t" using I assms(2) that by blast
    then show "disjoint_slots (fst s, length bs) t" using assms(3) by (auto simp: disjoint_slots_def)
  qed (use I that arena_inv_slotD [OF assms(1), of t] in auto)
  have "mem_zero ?a (offset a, arena_size a - offset a)"
    by (rule mem_zero_write [OF fit]) (use I s assms(3) in \<open>auto simp: disjoint_slots_def\<close>)
  then show ?thesis
    using I z unfolding arena_inv_def fs sz by (simp add: slot_ok_def)
qed

lemma arena_inv_dealloc:
  assumes "arena_inv live a" and "(off, n) \<in> live"
  shows "arena_inv (live - {(off, n)}) (arena_dealloc off n a)"
proof -
  let ?b = "a\<lparr>mem := write_mem off (replicate n 0) (mem a)\<rparr>"
  let ?a = "arena_dealloc off n a"
  have b: "arena_inv live ?b"
    using arena_inv_write [OF assms, of "replicate n 0"] by simp
  note I = b [unfolded arena_inv_def]
  have fs: "free_set ?a = insert (off, n) (free_set ?b)"
    by (auto simp: arena_dealloc_def free_set_def split: if_splits)
  have un: "live - {(off, n)} \<union> free_set ?a = live \<union> free_set ?b"
    unfolding fs using assms(2) by blast
  have "off \<notin> set (free_slots a n)" using I assms(2) by (auto simp: free_set_def)
  then have d: "distinct (free_slots ?a l)" for l
    using I by (auto simp: arena_dealloc_def)
  have fit: "off + n \<le> arena_size a" using arena_inv_slotD(2) [OF assms(1), of "(off, n)"] assms(2) by simp
  have same: "slot_ok ?a t = slot_ok ?b t" "mem_zero ?a t = mem_zero ?b t" "offset ?a = offset ?b"
      "arena_size ?a = arena_size ?b" for t
    by (simp_all add: arena_dealloc_def slot_ok_def mem_zero_def arena_size_def)
  have "mem_zero ?b (off, n)"
    using fit by (auto simp: mem_zero_def nth_write_mem arena_size_def)
  then show ?thesis
    unfolding arena_inv_def un same using I d fs by auto
qed

lemma arena_inv_new:
  assumes "arena_build ps rl n mf lf text = Inr (a, locked)"
  shows "arena_inv {} a" and "rl \<Longrightarrow> locked"
  using assms
  by (auto simp: arena_build_def arena_inv_def free_set_def mem_zero_def arena_size_def
      split: option.splits if_splits)

section \<open>Any sequence of operations\<close>

text \<open>One operation of a client: claim a region, write into a live one, drop a live one.\<close>

inductive arena_step :: "region set \<times> arena \<Rightarrow> region set \<times> arena \<Rightarrow> bool" where
  step_claim: "claim len a = (Inr r, a') \<Longrightarrow> arena_step (L, a) (insert r L, a')"
| step_refused: "claim len a = (Inl e, a') \<Longrightarrow> arena_step (L, a) (L, a')"
| step_write: "r \<in> L \<Longrightarrow> length bs = r_len r \<Longrightarrow> arena_step (L, a) (L, region_write r bs a)"
| step_drop: "r \<in> L \<Longrightarrow> arena_step (L, a) (L - {r}, region_drop r a)"

inductive_cases arena_stepE: "arena_step s s'"

definition slot_of :: "region \<Rightarrow> nat \<times> nat" where
  "slot_of r = (r_off r, r_aligned r)"

definition arena_state_ok :: "region set \<times> arena \<Rightarrow> bool" where
  "arena_state_ok st \<longleftrightarrow> arena_inv (slot_of ` fst st) (snd st) \<and> inj_on slot_of (fst st)
     \<and> (\<forall>r\<in>fst st. r_len r \<le> r_aligned r)"

lemma claim_SomeD:
  assumes "claim len a = (Inr r, a')"
  shows "arena_alloc len a = (Inr (slot_of r), a')" and "r_len r = len"
  using assms by (auto simp: claim_def slot_of_def split: prod.splits sum.splits)

lemma claim_refused: "claim len a = (Inl e, a') \<Longrightarrow> a' = a"
  by (auto simp: claim_def arena_alloc_def split: option.splits if_splits prod.splits sum.splits)

lemma arena_step_ok:
  assumes "arena_step st st'" and "arena_state_ok st"
  shows "arena_state_ok st'"
  using assms
proof cases
  case (step_claim len a r a' L)
  note C = claim_SomeD [OF step_claim(3)]
  have inv: "arena_inv (slot_of ` L) a" using assms(2) step_claim by (simp add: arena_state_ok_def)
  note A = arena_inv_alloc [OF inv C(1)]
  have ok: "inj_on slot_of L" "\<forall>r\<in>L. r_len r \<le> r_aligned r"
    using assms(2) step_claim by (simp_all add: arena_state_ok_def)
  have "r_len r \<le> r_aligned r" using A(3) C(2) by (simp add: slot_of_def)
  moreover have "inj_on slot_of (insert r L)" using ok(1) A(2) by (auto simp: inj_on_insert)
  ultimately show ?thesis
    using A(1) ok(2) unfolding step_claim(2) arena_state_ok_def by simp
next
  case (step_refused len a e a' L)
  then show ?thesis using assms(2) claim_refused by blast
next
  case (step_write r L bs a)
  have ok: "arena_inv (slot_of ` L) a" "inj_on slot_of L" "\<forall>r\<in>L. r_len r \<le> r_aligned r"
    using assms(2) step_write by (simp_all add: arena_state_ok_def)
  have "arena_inv (slot_of ` L) (a\<lparr>mem := write_mem (fst (slot_of r)) bs (mem a)\<rparr>)"
    by (rule arena_inv_write [OF ok(1)]) (use step_write ok(3) in \<open>simp_all add: slot_of_def\<close>)
  then show ?thesis
    using ok(2,3) unfolding step_write(2) by (simp add: arena_state_ok_def region_write_def slot_of_def)
next
  case (step_drop r L a)
  have ok: "arena_inv (slot_of ` L) a" "inj_on slot_of L" "\<forall>r\<in>L. r_len r \<le> r_aligned r"
    using assms(2) step_drop by (simp_all add: arena_state_ok_def)
  have sl: "slot_of r = (r_off r, r_aligned r)" by (simp add: slot_of_def)
  have "(r_off r, r_aligned r) \<in> slot_of ` L" using step_drop(3) sl by (metis image_eqI)
  then have "arena_inv (slot_of ` L - {slot_of r}) (region_drop r a)"
    using arena_inv_dealloc [OF ok(1)] by (simp add: region_drop_def sl)
  moreover have "slot_of ` (L - {r}) = slot_of ` L - {slot_of r}"
    using inj_on_image_set_diff [OF ok(2), of L "{r}"] step_drop(3) by simp
  moreover have "inj_on slot_of (L - {r})" using ok(2) by (rule inj_on_diff)
  ultimately show ?thesis
    using ok(3) unfolding step_drop(2) arena_state_ok_def by simp
qed

lemma arena_reachable_ok:
  "arena_step\<^sup>*\<^sup>* st st' \<Longrightarrow> arena_state_ok st \<Longrightarrow> arena_state_ok st'"
  by (induction rule: rtranclp_induct) (auto intro: arena_step_ok)

lemma region_slice_write_same:
  assumes "r_off r + length bs \<le> arena_size a" and "length bs = r_len r"
  shows "region_slice r (region_write r bs a) = bs"
  using assms by (simp add: region_slice_def region_write_def write_mem_def arena_size_def)

lemma region_slice_write_other:
  assumes "disjoint_slots (slot_of r) (slot_of r')" and "r_len r \<le> r_aligned r" and "r_len r' \<le> r_aligned r'"
    and "r_off r + r_aligned r \<le> arena_size a" and "r_off r' + r_aligned r' \<le> arena_size a" and "length bs = r_len r"
  shows "region_slice r' (region_write r bs a) = region_slice r' a"
proof (rule nth_equalityI)
  have fit: "r_off r + length bs \<le> length (mem a)" using assms by (simp add: arena_size_def)
  then show "length (region_slice r' (region_write r bs a)) = length (region_slice r' a)"
    by (simp add: region_slice_def region_write_def length_write_mem)
  fix i
  assume "i < length (region_slice r' (region_write r bs a))"
  then have i: "i < r_len r'" by (simp add: region_slice_def)
  then have le: "r_off r' + i < length (mem a)" using assms by (simp add: arena_size_def)
  show "region_slice r' (region_write r bs a) ! i = region_slice r' a ! i"
    using i le assms fit
    by (auto simp: region_slice_def region_write_def nth_write_mem length_write_mem disjoint_slots_def slot_of_def)
qed

lemma arena_state_regionD:
  assumes "arena_state_ok (L, a)" and "r \<in> L"
  shows "ALIGN dvd r_off r" and "r_off r + r_aligned r \<le> arena_size a" and "r_len r \<le> r_aligned r"
  using assms arena_inv_slotD [of "slot_of ` L" a "slot_of r"]
  by (auto simp: arena_state_ok_def slot_ok_def slot_of_def)

lemma arena_state_disjoint:
  assumes "arena_state_ok (L, a)" and "r \<in> L" and "r' \<in> L" and "r \<noteq> r'"
  shows "disjoint_slots (slot_of r) (slot_of r')"
proof -
  have "slot_of r \<noteq> slot_of r'" using assms by (auto simp: arena_state_ok_def inj_on_def)
  then show ?thesis using assms unfolding arena_state_ok_def arena_inv_def fst_conv snd_conv by blast
qed

lemma arena_unused_zero:
  assumes "arena_state_ok (L, a)" and "i < arena_size a"
    and "\<forall>r\<in>L. \<not> (r_off r \<le> i \<and> i < r_off r + r_aligned r)"
  shows "mem a ! i = 0"
proof -
  have I: "arena_inv (slot_of ` L) a" using assms(1) by (simp add: arena_state_ok_def)
  note I' = I [unfolded arena_inv_def]
  show ?thesis
  proof (cases "i < offset a")
    case True
    then obtain s where s: "s \<in> slot_of ` L \<union> free_set a" "fst s \<le> i" "i < fst s + snd s" using I' by blast
    moreover have "s \<notin> slot_of ` L" using s assms(3) by (auto simp: slot_of_def)
    ultimately have "mem_zero a s" using I' by blast
    with s show ?thesis by (simp add: mem_zero_def)
  next
    case False
    then have "i \<in> {fst (offset a, arena_size a - offset a)..<fst (offset a, arena_size a - offset a)
        + snd (offset a, arena_size a - offset a)}"
      using assms(2) by simp
    then show ?thesis using I' unfolding mem_zero_def by blast
  qed
qed

text \<open>C10. After any sequence of claims, writes and drops on a fresh arena: every live region is
  16-byte aligned and inside the mapping, two live regions do not overlap, a write to one is read back
  from it and changes no other, and every byte outside the live regions is zero.\<close>

theorem arena_regions_are_isolated:
  assumes "arena_build ps rl n mf lf text = Inr (a0, locked)" and "arena_step\<^sup>*\<^sup>* ({}, a0) (L, a)"
    and "r \<in> L" and "r' \<in> L" and "r \<noteq> r'" and "length bs = r_len r"
  shows "16 dvd r_off r \<and> r_len r \<le> r_aligned r \<and> r_off r + r_aligned r \<le> arena_size a
    \<and> (r_off r + r_aligned r \<le> r_off r' \<or> r_off r' + r_aligned r' \<le> r_off r)
    \<and> region_slice r (region_write r bs a) = bs
    \<and> region_slice r' (region_write r bs a) = region_slice r' a
    \<and> (\<forall>i<arena_size a. (\<forall>r\<in>L. \<not> (r_off r \<le> i \<and> i < r_off r + r_aligned r)) \<longrightarrow> mem a ! i = 0)"
proof -
  have "arena_state_ok ({}, a0)" using arena_inv_new(1) [OF assms(1)] by (simp add: arena_state_ok_def)
  then have ok: "arena_state_ok (L, a)" by (rule arena_reachable_ok [OF assms(2)])
  note R = arena_state_regionD [OF ok assms(3)] and R' = arena_state_regionD [OF ok assms(4)]
  note D = arena_state_disjoint [OF ok assms(3-5)]
  have "r_off r + length bs \<le> arena_size a" using R assms(6) by simp
  then show ?thesis
    using R D region_slice_write_same [OF _ assms(6)] arena_unused_zero [OF ok]
      region_slice_write_other [OF D R(3) R'(3) R(2) R'(2) assms(6)]
    by (auto simp: ALIGN_def disjoint_slots_def slot_of_def)
qed

lemma arena_sample_steps:
  defines "a0 \<equiv> \<lparr>mem = replicate 4096 0, offset = 0, free_slots = (\<lambda>_. [])\<rparr>"
    and "r \<equiv> \<lparr>r_off = 0, r_len = 20, r_aligned = 32\<rparr>"
    and "r' \<equiv> \<lparr>r_off = 32, r_len = 5, r_aligned = 16\<rparr>"
  shows "arena_build 4096 True 32 None None [] = Inr (a0, True)"
    and "arena_step\<^sup>*\<^sup>* ({}, a0) ({r', r}, a0\<lparr>offset := 48\<rparr>)"
proof -
  show "arena_build 4096 True 32 None None [] = Inr (a0, True)"
    by (simp add: arena_build_def round_up_def div_ceil_def checked_mul_usize_def usize_bound_def a0_def)
  have "claim 20 a0 = (Inr r, a0\<lparr>offset := 32\<rparr>)"
    and "claim 5 (a0\<lparr>offset := 32\<rparr>) = (Inr r', a0\<lparr>offset := 48\<rparr>)"
    by (simp_all add: claim_def arena_alloc_def round_up_def div_ceil_def checked_mul_usize_def
        checked_add_usize_def usize_bound_def ALIGN_def a0_def r_def r'_def arena_size_def)
  then have "arena_step ({}, a0) ({r}, a0\<lparr>offset := 32\<rparr>)"
    and "arena_step ({r}, a0\<lparr>offset := 32\<rparr>) ({r', r}, a0\<lparr>offset := 48\<rparr>)"
    by (auto intro: step_claim)
  then show "arena_step\<^sup>*\<^sup>* ({}, a0) ({r', r}, a0\<lparr>offset := 48\<rparr>)"
    by (rule rtranclp.rtrancl_into_rtrancl [OF r_into_rtranclp])
qed

theorem arena_regions_are_isolated_witness:
  "\<exists>a0 a r r'. arena_build 4096 True 32 None None [] = Inr (a0, True) \<and> arena_step\<^sup>*\<^sup>* ({}, a0) ({r', r}, a)
    \<and> r \<noteq> r' \<and> r_len r = 20 \<and> region_slice r (region_write r (replicate 20 7) a) = replicate 20 7
    \<and> region_slice r' (region_write r (replicate 20 7) a) = region_slice r' a"
proof -
  let ?r = "\<lparr>r_off = 0, r_len = 20, r_aligned = 32\<rparr>" and ?r' = "\<lparr>r_off = 32, r_len = 5, r_aligned = 16\<rparr>"
  have ne: "?r \<noteq> ?r'" by simp
  note run = arena_sample_steps
  show ?thesis
    using run ne arena_regions_are_isolated [OF run, of ?r ?r' "replicate 20 7"] by fastforce
qed

section \<open>The contract of an allocator\<close>

text \<open>What the key manager relies on: slots that are alive at the same time are disjoint, a refused
  request changes nothing, and a slot that was handed out can be given back.\<close>

locale slot_allocator =
  fixes alloc :: "nat \<Rightarrow> 'a \<Rightarrow> (nat \<times> nat) result \<times> 'a"
    and dealloc :: "nat \<Rightarrow> nat \<Rightarrow> 'a \<Rightarrow> 'a"
    and inv :: "(nat \<times> nat) set \<Rightarrow> 'a \<Rightarrow> bool"
  assumes alloc_keeps: "inv live a \<Longrightarrow> alloc n a = (Inr s, a') \<Longrightarrow> inv (insert s live) a'"
    and alloc_fresh: "inv live a \<Longrightarrow> alloc n a = (Inr s, a') \<Longrightarrow> s \<notin> live \<and> n \<le> snd s"
    and alloc_refused: "alloc n a = (Inl e, a') \<Longrightarrow> a' = a"
    and dealloc_keeps: "inv live a \<Longrightarrow> s \<in> live \<Longrightarrow> inv (live - {s}) (dealloc (fst s) (snd s) a)"
    and live_disjoint: "inv live a \<Longrightarrow> s \<in> live \<Longrightarrow> t \<in> live \<Longrightarrow> s \<noteq> t \<Longrightarrow> disjoint_slots s t"
begin

lemma two_allocs_disjoint:
  assumes "inv live a" and "alloc n a = (Inr s, a1)" and "alloc m a1 = (Inr t, a2)"
  shows "disjoint_slots s t" and "inv (insert t (insert s live)) a2"
proof -
  have 1: "inv (insert s live) a1" using alloc_keeps assms by blast
  then show 2: "inv (insert t (insert s live)) a2" using alloc_keeps assms by blast
  have "t \<notin> insert s live" using alloc_fresh [OF 1 assms(3)] by blast
  then show "disjoint_slots s t" by (intro live_disjoint [OF 2]) auto
qed

lemma alloc_then_dealloc:
  assumes "inv live a" and "alloc n a = (Inr s, a')"
  shows "inv live (dealloc (fst s) (snd s) a')"
proof -
  have "inv (insert s live - {s}) (dealloc (fst s) (snd s) a')"
    by (rule dealloc_keeps [OF alloc_keeps [OF assms]]) simp
  moreover have "insert s live - {s} = live" using alloc_fresh [OF assms] by simp
  ultimately show ?thesis by simp
qed

end

interpretation locked: slot_allocator arena_alloc arena_dealloc arena_inv
proof
  fix live a n s a'
  assume *: "arena_inv live a" "arena_alloc n a = (Inr s, a')"
  then show "arena_inv (insert s live) a'" and "s \<notin> live \<and> n \<le> snd s"
    using arena_inv_alloc by blast+
next
  show "arena_alloc n a = (Inl e, a') \<Longrightarrow> a' = a" for n a e a'
    by (auto simp: arena_alloc_def split: option.splits if_splits)
  show "arena_inv live a \<Longrightarrow> s \<in> live \<Longrightarrow> arena_inv (live - {s}) (arena_dealloc (fst s) (snd s) a)" for live a s
    using arena_inv_dealloc [of live a "fst s" "snd s"] by simp
  show "arena_inv live a \<Longrightarrow> s \<in> live \<Longrightarrow> t \<in> live \<Longrightarrow> s \<noteq> t \<Longrightarrow> disjoint_slots s t" for live a s t
    unfolding arena_inv_def by blast
qed

end
