(* ===== verification/World.thy ===== *)
theory World
  imports Arena "HOL-Library.AList" "HOL-Library.Sublist"
begin

unbundle bit_operations_syntax

text \<open>
  The environment of the effectful code: the file system and random number generator as the Rust
  standard library and \<^verbatim>\<open>SysRng\<close> present them on Linux.  A path is the list of its components
  below the root.  The tree is an association list from paths to nodes; a lookup walks the
  ancestors, which must be directories (symbolic links are followed only as last components, by
  the calls that do).  Every system call takes one tick; the fault table may make the call with a
  given tick fail with any \<open>io::ErrorKind\<close> or be the point where the process dies, and a faulty write
  has written an arbitrary prefix.  A call that takes effect is durable.  The random tape and its
  failures are arbitrary too.  Permission checks of the kernel are faults; the permission bits are
  data that the code itself inspects.  The process-wide state of the crate is part of the world: the
  temporary-name counter, the poison flag of the key manager and its arena; \<open>pstate\<close> is the state of the
  caller's master-key provider.
\<close>

section \<open>State\<close>

type_synonym path = "string list"

datatype node = File u32 bytes | Dir u32 | Symlink path | Special u32

type_synonym nodes = "(path \<times> node) list"

datatype sysop = OpStat | OpOpen | OpRead | OpCreate | OpWrite | OpSync | OpRename | OpLink
  | OpUnlink | OpMkdir | OpRmdir | OpReaddir | OpLock | OpMmap | OpMlock | OpSpawn | OpPrctl | OpRlimit

datatype fault = FFail io_kind | FCrash

type_synonym io_err = "io_kind \<times> string"

record 'p world =
  nodes :: nodes
  ticks :: nat
  faults :: "sysop \<Rightarrow> nat \<Rightarrow> fault option"
  partial :: "nat \<Rightarrow> nat"
  rank :: "path \<Rightarrow> nat"
  rng_tape :: "nat \<Rightarrow> u8"
  rng_pos :: nat
  rng_fail :: "nat \<Rightarrow> bool"
  pid :: nat
  tmp_seq :: u64
  page_size :: nat
  poisoned :: bool
  arena_st :: arena
  pstate :: 'p

text \<open>The operating system's message for a kind.\<close>

fun os_text :: "io_kind \<Rightarrow> string" where
  "os_text NotFound = ''No such file or directory (os error 2)''"
| "os_text AlreadyExists = ''File exists (os error 17)''"
| "os_text PermissionDenied = ''Permission denied (os error 13)''"
| "os_text NotADirectory = ''Not a directory (os error 20)''"
| "os_text IsADirectory = ''Is a directory (os error 21)''"
| "os_text FilesystemLoop = ''Too many levels of symbolic links (os error 40)''"
| "os_text WouldBlock = ''Resource temporarily unavailable (os error 11)''"
| "os_text (OtherIo n) = ''os error '' @ show_nat n"

definition lithium_io :: "io_err \<Rightarrow> lithium_error" where
  "lithium_io e = io_error (fst e) (snd e)"

section \<open>Path lookup\<close>

fun is_dir_node :: "node option \<Rightarrow> bool" where
  "is_dir_node (Some (Dir m)) = True"
| "is_dir_node _ = False"

definition walk_err :: "nodes \<Rightarrow> path \<Rightarrow> io_kind option" where
  "walk_err ns p =
     (case find (\<lambda>i. \<not> is_dir_node (map_of ns (take i p))) [1..<length p] of
        None \<Rightarrow> None
      | Some i \<Rightarrow> (case map_of ns (take i p) of None \<Rightarrow> Some NotFound | Some _ \<Rightarrow> Some NotADirectory))"

definition lookup_node :: "nodes \<Rightarrow> path \<Rightarrow> io_kind + node" where
  "lookup_node ns p =
     (if p = [] then Inr (Dir 493)
      else case walk_err ns p of
        Some k \<Rightarrow> Inl k
      | None \<Rightarrow> (case map_of ns p of None \<Rightarrow> Inl NotFound | Some n \<Rightarrow> Inr n))"

fun follow :: "nat \<Rightarrow> nodes \<Rightarrow> path \<Rightarrow> io_kind + node" where
  "follow 0 ns p = Inl FilesystemLoop"
| "follow (Suc k) ns p =
     (case lookup_node ns p of
        Inr (Symlink q) \<Rightarrow> follow k ns q
      | r \<Rightarrow> r)"

text \<open>The kernel follows at most 40 links.\<close>

definition follow_links :: "nodes \<Rightarrow> path \<Rightarrow> io_kind + node" where
  "follow_links ns p = follow 41 ns p"

definition parent_of :: "path \<Rightarrow> path option" where
  "parent_of p = (if p = [] then None else Some (butlast p))"

text \<open>The parent of a path that is about to be created.\<close>

definition parent_err :: "nodes \<Rightarrow> path \<Rightarrow> io_kind option" where
  "parent_err ns p =
     (if p = [] then Some AlreadyExists
      else case walk_err ns p of Some k \<Rightarrow> Some k | None \<Rightarrow> None)"

section \<open>System calls\<close>

definition syscall :: "sysop \<Rightarrow> ('p world \<Rightarrow> (io_kind + 'a) \<times> 'p world) \<Rightarrow> ('p world, io_err, 'a) eff" where
  "syscall op act w =
     (let w1 = w\<lparr>ticks := ticks w + 1\<rparr> in
      case faults w op (ticks w) of
        Some FCrash \<Rightarrow> (Crash, w1)
      | Some (FFail k) \<Rightarrow> (Fail (k, os_text k), w1)
      | None \<Rightarrow> (case act w1 of
           (Inl k, w2) \<Rightarrow> (Fail (k, os_text k), w2)
         | (Inr a, w2) \<Rightarrow> (Done a, w2)))"

definition query :: "sysop \<Rightarrow> (nodes \<Rightarrow> io_kind + 'a) \<Rightarrow> ('p world, io_err, 'a) eff" where
  "query op f = syscall op (\<lambda>w. (f (nodes w), w))"

definition update_fs :: "sysop \<Rightarrow> (nodes \<Rightarrow> io_kind + nodes) \<Rightarrow> ('p world, io_err, unit) eff" where
  "update_fs op f = syscall op (\<lambda>w. case f (nodes w) of
     Inl k \<Rightarrow> (Inl k, w) | Inr ns \<Rightarrow> (Inr (), w\<lparr>nodes := ns\<rparr>))"

text \<open>\<open>Path::exists\<close>, \<open>Path::try_exists\<close>, \<open>Path::is_file\<close>, \<open>Path::is_dir\<close>: the first and the last two
  answer \<open>false\<close> on any error.\<close>

definition stat_follow :: "path \<Rightarrow> ('p world, io_err, node) eff" where
  "stat_follow p = query OpStat (\<lambda>ns. follow_links ns p)"

definition path_exists :: "path \<Rightarrow> ('p world, 'e, bool) eff" where
  "path_exists p = bindM (tryM (stat_follow p)) (\<lambda>r. ret (is_ok r))"

definition path_try_exists :: "path \<Rightarrow> ('p world, io_err, bool) eff" where
  "path_try_exists p = bindM (tryM (stat_follow p)) (\<lambda>r. case r of
     Inr _ \<Rightarrow> ret True
   | Inl e \<Rightarrow> if fst e = NotFound then ret False else fail e)"

definition path_is_file :: "path \<Rightarrow> ('p world, 'e, bool) eff" where
  "path_is_file p = bindM (tryM (stat_follow p)) (\<lambda>r. ret (case r of Inr (File m d) \<Rightarrow> True | _ \<Rightarrow> False))"

definition path_is_dir :: "path \<Rightarrow> ('p world, 'e, bool) eff" where
  "path_is_dir p = bindM (tryM (stat_follow p)) (\<lambda>r. ret (case r of Inr (Dir m) \<Rightarrow> True | _ \<Rightarrow> False))"

definition symlink_metadata :: "path \<Rightarrow> ('p world, io_err, node) eff" where
  "symlink_metadata p = query OpStat (\<lambda>ns. lookup_node ns p)"

text \<open>Opening for reading with \<open>O_NOFOLLOW\<close>; the handle is the node, its metadata and its content.\<close>

definition open_nofollow :: "path \<Rightarrow> ('p world, io_err, node) eff" where
  "open_nofollow p = query OpOpen (\<lambda>ns. case lookup_node ns p of
     Inr (Symlink q) \<Rightarrow> Inl FilesystemLoop
   | r \<Rightarrow> r)"

definition fstat :: "node \<Rightarrow> ('p world, io_err, node) eff" where
  "fstat h = query OpStat (\<lambda>_. Inr h)"

definition read_limited :: "node \<Rightarrow> nat \<Rightarrow> ('p world, io_err, bytes) eff" where
  "read_limited h limit = query OpRead (\<lambda>_. case h of
     File m d \<Rightarrow> Inr (take limit d)
   | Dir m \<Rightarrow> Inl IsADirectory
   | _ \<Rightarrow> Inr [])"

definition open_dir :: "path \<Rightarrow> ('p world, io_err, node) eff" where
  "open_dir p = query OpOpen (\<lambda>ns. follow_links ns p)"

definition sync_all :: "('p world, io_err, unit) eff" where
  "sync_all = query OpSync (\<lambda>_. Inr ())"

definition create_new :: "path \<Rightarrow> u32 \<Rightarrow> ('p world, io_err, unit) eff" where
  "create_new p mode = update_fs OpCreate (\<lambda>ns.
     case parent_err ns p of
       Some k \<Rightarrow> Inl k
     | None \<Rightarrow> (case map_of ns p of
         Some _ \<Rightarrow> Inl AlreadyExists
       | None \<Rightarrow> Inr (AList.update p (File mode []) ns)))"

text \<open>Writing through a handle just created at \<open>p\<close>.  A faulty call leaves a prefix behind.\<close>

definition append_file :: "path \<Rightarrow> bytes \<Rightarrow> nodes \<Rightarrow> nodes" where
  "append_file p data ns = (case map_of ns p of
     Some (File m d) \<Rightarrow> AList.update p (File m (d @ data)) ns
   | _ \<Rightarrow> ns)"

definition write_all :: "path \<Rightarrow> bytes \<Rightarrow> ('p world, io_err, unit) eff" where
  "write_all p data w =
     (let w1 = w\<lparr>ticks := ticks w + 1\<rparr>;
          w2 = w1\<lparr>nodes := append_file p (take (partial w (ticks w)) data) (nodes w)\<rparr>;
          w3 = w1\<lparr>nodes := append_file p data (nodes w)\<rparr> in
      case faults w OpWrite (ticks w) of
        Some FCrash \<Rightarrow> (Crash, w2)
      | Some (FFail k) \<Rightarrow> (Fail (k, os_text k), w2)
      | None \<Rightarrow> (Done (), w3))"

definition rename_file :: "path \<Rightarrow> path \<Rightarrow> ('p world, io_err, unit) eff" where
  "rename_file a b = update_fs OpRename (\<lambda>ns.
     case lookup_node ns a of
       Inl k \<Rightarrow> Inl k
     | Inr n \<Rightarrow> (case parent_err ns b of
         Some k \<Rightarrow> Inl k
       | None \<Rightarrow> (case map_of ns b of
           Some (Dir m) \<Rightarrow> Inl IsADirectory
         | _ \<Rightarrow> Inr (AList.update b n (AList.delete a ns)))))"

definition hard_link :: "path \<Rightarrow> path \<Rightarrow> ('p world, io_err, unit) eff" where
  "hard_link a b = update_fs OpLink (\<lambda>ns.
     case lookup_node ns a of
       Inl k \<Rightarrow> Inl k
     | Inr n \<Rightarrow> (case parent_err ns b of
         Some k \<Rightarrow> Inl k
       | None \<Rightarrow> (case map_of ns b of
           Some _ \<Rightarrow> Inl AlreadyExists
         | None \<Rightarrow> Inr (AList.update b n ns))))"

definition remove_file :: "path \<Rightarrow> ('p world, io_err, unit) eff" where
  "remove_file p = update_fs OpUnlink (\<lambda>ns.
     case lookup_node ns p of
       Inl k \<Rightarrow> Inl k
     | Inr (Dir m) \<Rightarrow> Inl IsADirectory
     | Inr n \<Rightarrow> Inr (AList.delete p ns))"

definition mkdir :: "u32 \<Rightarrow> path \<Rightarrow> ('p world, io_err, unit) eff" where
  "mkdir mode p = update_fs OpMkdir (\<lambda>ns.
     case parent_err ns p of
       Some k \<Rightarrow> Inl k
     | None \<Rightarrow> (case map_of ns p of
         Some _ \<Rightarrow> Inl AlreadyExists
       | None \<Rightarrow> Inr (AList.update p (Dir mode) ns)))"

definition rmdir :: "path \<Rightarrow> ('p world, io_err, unit) eff" where
  "rmdir p = update_fs OpRmdir (\<lambda>ns.
     case lookup_node ns p of
       Inl k \<Rightarrow> Inl k
     | Inr (Dir m) \<Rightarrow> if \<exists>q\<in>set (map fst ns). q \<noteq> [] \<and> butlast q = p then Inl (OtherIo 39) else Inr (AList.delete p ns)
     | Inr n \<Rightarrow> Inl NotADirectory)"

text \<open>\<open>fs::DirBuilder\<close> with \<open>recursive(true)\<close>: the algorithm of \<open>create_dir_all\<close>.\<close>

definition mkdir_or_is_dir :: "u32 \<Rightarrow> path \<Rightarrow> ('p world, io_err, unit) eff" where
  "mkdir_or_is_dir mode p =
     bindM (tryM (mkdir mode p)) (\<lambda>r. case r of
       Inr u \<Rightarrow> ret ()
     | Inl e \<Rightarrow> bindM (path_is_dir p) (\<lambda>d. if d then ret () else fail e))"

function create_dir_all :: "u32 \<Rightarrow> path \<Rightarrow> ('p world, io_err, unit) eff" where
  "create_dir_all mode p =
     bindM (tryM (mkdir mode p)) (\<lambda>r. case r of
       Inr u \<Rightarrow> ret ()
     | Inl e \<Rightarrow>
         if fst e = NotFound
         then (if p = [] then fail (OtherIo 0, ''failed to create whole tree'')
               else bindM (create_dir_all mode (butlast p)) (\<lambda>_. mkdir_or_is_dir mode p))
         else bindM (path_is_dir p) (\<lambda>d. if d then ret () else fail e))"
  by pat_completeness auto
termination
  by (relation "measure (\<lambda>(mode, p). length p)") auto

declare create_dir_all.simps [simp del]

text \<open>Directory entries, in the order the file system gives them.\<close>

definition children :: "nodes \<Rightarrow> (path \<Rightarrow> nat) \<Rightarrow> path \<Rightarrow> path list" where
  "children ns rk p = sort_key rk (filter (\<lambda>q. q \<noteq> [] \<and> butlast q = p) (map fst ns))"

definition read_dir :: "path \<Rightarrow> ('p world, io_err, path list) eff" where
  "read_dir p = syscall OpReaddir (\<lambda>w. (case follow_links (nodes w) p of
     Inl k \<Rightarrow> Inl k
   | Inr (Dir m) \<Rightarrow> Inr (children (nodes w) (rank w) p)
   | Inr n \<Rightarrow> Inl NotADirectory, w))"

text \<open>One step of the directory iterator.\<close>

definition next_entry :: "path \<Rightarrow> ('p world, io_err, path) eff" where
  "next_entry q = query OpReaddir (\<lambda>_. Inr q)"

text \<open>
  \<open>fs::remove_dir_all\<close>: a depth-first walk that unlinks what is not a directory and removes each
  directory after its entries, one system call per entry.  A symbolic link is unlinked.  An entry
  that vanished is skipped.
\<close>

fun post_order :: "nat \<Rightarrow> nodes \<Rightarrow> (path \<Rightarrow> nat) \<Rightarrow> path \<Rightarrow> path list" where
  "post_order 0 ns rk p = [p]"
| "post_order (Suc k) ns rk p =
     (if is_dir_node (map_of ns p) then concat (map (post_order k ns rk) (children ns rk p)) @ [p]
      else [p])"

definition tree_depth :: "nodes \<Rightarrow> nat" where
  "tree_depth ns = foldr max (map (length \<circ> fst) ns) 0"

definition remove_entry :: "path \<Rightarrow> ('p world, io_err, unit) eff" where
  "remove_entry q w = (if is_dir_node (map_of (nodes w) q) then rmdir q w else remove_file q w)"

definition remove_child :: "path \<Rightarrow> ('p world, io_err, unit) eff" where
  "remove_child q = bindM (tryM (remove_entry q)) (\<lambda>r. case r of
     Inr u \<Rightarrow> ret ()
   | Inl e \<Rightarrow> if fst e = NotFound then ret () else fail e)"

definition remove_dir_all :: "path \<Rightarrow> ('p world, io_err, unit) eff" where
  "remove_dir_all p = bindM (symlink_metadata p) (\<lambda>n w.
     (case n of
        Dir m \<Rightarrow>
          bindM (forM (butlast (post_order (tree_depth (nodes w)) (nodes w) (rank w) p)) remove_child)
            (\<lambda>_. rmdir p) w
      | Symlink q \<Rightarrow> remove_file p w
      | _ \<Rightarrow> (Fail (NotADirectory, os_text NotADirectory), w)))"

section \<open>Randomness\<close>

definition rng_draw :: "'p world \<Rightarrow> nat \<Rightarrow> bytes" where
  "rng_draw w n = map (\<lambda>i. rng_tape w (rng_pos w + i)) [0..<n]"

text \<open>\<open>keys::random_fixed\<close>.\<close>

definition random_fixed :: "nat \<Rightarrow> ('p world, bytes) leff" where
  "random_fixed n w =
     (if rng_fail w (rng_pos w)
      then (Fail (with_source random_failed (OtherSource ''SysError'')), w\<lparr>rng_pos := rng_pos w + 1\<rparr>)
      else (Done (rng_draw w n), w\<lparr>rng_pos := rng_pos w + n\<rparr>))"

lemma length_rng_draw [simp]: "length (rng_draw w n) = n"
  by (simp add: rng_draw_def)

lemma random_fixed_length: "random_fixed n w = (Done x, w') \<Longrightarrow> length x = n"
  by (auto simp: random_fixed_def split: if_splits)

text \<open>Bytes that some run may draw from a tape.\<close>

definition drawn :: "(nat \<Rightarrow> u8) \<Rightarrow> nat \<Rightarrow> bytes \<Rightarrow> bool" where
  "drawn tp n x \<longleftrightarrow> (\<exists>i. x = map (\<lambda>k. tp (i + k)) [0..<n])"

lemma random_fixed_drawn: "random_fixed n w = (Done x, w') \<Longrightarrow> drawn (rng_tape w) n x \<and> rng_tape w' = rng_tape w"
  by (auto simp: random_fixed_def drawn_def rng_draw_def split: if_splits)

definition rng_live :: "'p world \<Rightarrow> bool" where
  "rng_live w \<longleftrightarrow> (\<forall>i. \<not> rng_fail w i)"

lemma random_fixed_live:
  "rng_live w \<Longrightarrow> random_fixed n w = (Done (rng_draw w n), w\<lparr>rng_pos := rng_pos w + n\<rparr>)"
  by (simp add: random_fixed_def rng_live_def)

lemma rng_live_update [simp]: "rng_live (w\<lparr>rng_pos := i\<rparr>) \<longleftrightarrow> rng_live w"
  by (simp add: rng_live_def)

section \<open>Paths\<close>

fun hex_char :: "nat \<Rightarrow> char" where
  "hex_char d = (if d < 10 then char_of (48 + d) else char_of (87 + d))"

fun show_hex :: "nat \<Rightarrow> string" where
  "show_hex n = (if n < 16 then [hex_char n] else show_hex (n div 16) @ [hex_char (n mod 16)])"

declare show_hex.simps [simp del]

text \<open>\<open>Path::file_stem\<close> and \<open>Path::extension\<close> of a file name: split at the last dot, unless it is the
  first character.\<close>

definition split_ext :: "string \<Rightarrow> string \<times> string option" where
  "split_ext name =
     (let r = rev name; e = takeWhile (\<lambda>c. c \<noteq> CHR ''.'') r; rest = dropWhile (\<lambda>c. c \<noteq> CHR ''.'') r in
      if name = ''..'' \<or> rest = [] \<or> tl rest = [] then (name, None)
      else (rev (tl rest), Some (rev e)))"

definition file_stem :: "path \<Rightarrow> string option" where
  "file_stem p = (if p = [] then None else Some (fst (split_ext (last p))))"

definition extension :: "path \<Rightarrow> string option" where
  "extension p = (if p = [] then None else snd (split_ext (last p)))"

definition with_extension :: "path \<Rightarrow> string \<Rightarrow> path" where
  "with_extension p e =
     (if p = [] then []
      else butlast p @ [fst (split_ext (last p)) @ (if e = [] then [] else ''.'' @ e)])"

definition join :: "path \<Rightarrow> string \<Rightarrow> path" where
  "join p name = p @ [name]"

definition strip_prefix :: "path \<Rightarrow> path \<Rightarrow> path option" where
  "strip_prefix root p = (if take (length root) p = root then Some (drop (length root) p) else None)"

section \<open>Trees as maps\<close>

lemma map_of_alist [simp]:
  "map_of (AList.update p n ns) = (map_of ns)(p \<mapsto> n)"
  "map_of (AList.delete p ns) = (map_of ns)(p := None)"
  by (simp_all add: update_conv' delete_conv')

lemma append_file_map:
  "map_of ns p = Some (File m d) \<Longrightarrow> map_of (append_file p data ns) = (map_of ns)(p \<mapsto> File m (d @ data))"
  by (simp add: append_file_def)

lemma walk_err_cong:
  "(\<And>i. 1 \<le> i \<Longrightarrow> i < length p \<Longrightarrow> map_of ns' (take i p) = map_of ns (take i p)) \<Longrightarrow> walk_err ns' p = walk_err ns p"
proof -
  assume *: "\<And>i. 1 \<le> i \<Longrightarrow> i < length p \<Longrightarrow> map_of ns' (take i p) = map_of ns (take i p)"
  have "find (\<lambda>i. \<not> is_dir_node (map_of ns' (take i p))) [1..<length p]
      = find (\<lambda>i. \<not> is_dir_node (map_of ns (take i p))) [1..<length p]"
    by (rule find_cong) (use * in auto)
  moreover have "find (\<lambda>i. \<not> is_dir_node (map_of ns (take i p))) [1..<length p] = Some i \<Longrightarrow>
      map_of ns' (take i p) = map_of ns (take i p)" for i
    by (rule *) (auto simp: find_Some_iff)
  ultimately show ?thesis by (auto simp: walk_err_def split: option.splits)
qed

lemma walk_err_None_iff:
  "walk_err ns p = None \<longleftrightarrow> (\<forall>i\<in>{1..<length p}. is_dir_node (map_of ns (take i p)))"
proof -
  have "walk_err ns p = None \<longleftrightarrow> find (\<lambda>i. \<not> is_dir_node (map_of ns (take i p))) [1..<length p] = None"
    by (auto simp: walk_err_def split: option.splits)
  then show ?thesis by (auto simp: find_None_iff)
qed

lemma lookup_node_iff:
  "p \<noteq> [] \<Longrightarrow> lookup_node ns p = Inr n \<longleftrightarrow> walk_err ns p = None \<and> map_of ns p = Some n"
  by (auto simp: lookup_node_def split: option.splits)

lemma parent_err_None_iff: "parent_err ns p = None \<longleftrightarrow> p \<noteq> [] \<and> walk_err ns p = None"
  by (auto simp: parent_err_def split: option.splits)

lemma lookup_node_SomeD: "lookup_node ns p = Inr n \<Longrightarrow> p \<noteq> [] \<Longrightarrow> map_of ns p = Some n"
  by (auto simp: lookup_node_def split: option.splits)

section \<open>Runs without faults\<close>

definition faultless :: "'p world \<Rightarrow> bool" where
  "faultless w \<longleftrightarrow> (\<forall>op n. faults w op n = None)"

lemma faultless_update [simp]:
  "faultless (w\<lparr>ticks := n\<rparr>) \<longleftrightarrow> faultless w"
  "faultless (w\<lparr>nodes := ns\<rparr>) \<longleftrightarrow> faultless w"
  "faultless (w\<lparr>rng_pos := i\<rparr>) \<longleftrightarrow> faultless w"
  "faultless (w\<lparr>tmp_seq := s\<rparr>) \<longleftrightarrow> faultless w"
  by (simp_all add: faultless_def)

lemma query_faultless:
  "faultless w \<Longrightarrow> query op f w = (case f (nodes w) of
     Inl k \<Rightarrow> (Fail (k, os_text k), w\<lparr>ticks := ticks w + 1\<rparr>)
   | Inr a \<Rightarrow> (Done a, w\<lparr>ticks := ticks w + 1\<rparr>))"
  by (simp add: query_def syscall_def faultless_def Let_def split: sum.splits)

lemma update_fs_faultless:
  "faultless w \<Longrightarrow> update_fs op f w = (case f (nodes w) of
     Inl k \<Rightarrow> (Fail (k, os_text k), w\<lparr>ticks := ticks w + 1\<rparr>)
   | Inr ns \<Rightarrow> (Done (), w\<lparr>ticks := ticks w + 1, nodes := ns\<rparr>))"
  by (simp add: update_fs_def syscall_def faultless_def Let_def split: sum.splits)

section \<open>A concrete world\<close>

text \<open>A fault-free world with a given tree, for evaluating the model on concrete inputs.\<close>

definition clean_world :: "nodes \<Rightarrow> unit world" where
  "clean_world ns = \<lparr>nodes = ns, ticks = 0, faults = (\<lambda>op n. None), partial = (\<lambda>n. 0),
     rank = (\<lambda>p. 0), rng_tape = of_nat, rng_pos = 0, rng_fail = (\<lambda>n. False), pid = 1, tmp_seq = 0, page_size = 4096,
     poisoned = False, arena_st = \<lparr>mem = replicate 4096 0, offset = 0, free_slots = (\<lambda>_. [])\<rparr>,
     pstate = ()\<rparr>"

lemmas run_defs = bindM_def ret_def fail_def tryM_def ignoreM_def mapM_err_def liftR_def

lemmas fs_defs = clean_world_def query_def update_fs_def syscall_def lookup_node_def walk_err_def
  follow_links_def parent_of_def parent_err_def symlink_metadata_def stat_follow_def open_nofollow_def
  fstat_def read_limited_def open_dir_def sync_all_def create_new_def append_file_def write_all_def
  rename_file_def hard_link_def remove_file_def mkdir_def random_fixed_def

lemma clean_world_faultless [simp]: "faultless (clean_world ns)"
  by (simp add: faultless_def clean_world_def)

lemma nodes_clean_world [simp]: "nodes (clean_world ns) = ns"
  by (simp add: clean_world_def)

lemma clean_world_live [simp]: "rng_live (clean_world ns)"
  by (simp add: rng_live_def clean_world_def)

end
