(* ===== verification/Primitives.thy ===== *)
theory Primitives
  imports Contexts World
begin

text \<open>
  The symmetric primitives and key helpers: \<^verbatim>\<open>src/src/crypto/aead.rs\<close>, \<^verbatim>\<open>kdf.rs\<close>, \<^verbatim>\<open>hash.rs\<close> and
  \<^verbatim>\<open>keys.rs\<close> of the same directory.  The cipher and the hash-based functions are those of the
  crates parameter; what is modelled is the crate's own work: associated-data binding, framing of
  nonce and version, length checks and error mapping.
\<close>

section \<open>Authenticated encryption\<close>

definition AEAD_BLOB_VERSION :: u8 where
  "AEAD_BLOB_VERSION = 1"

definition encrypt_raw :: "crates \<Rightarrow> bytes \<Rightarrow> bytes \<Rightarrow> bytes \<Rightarrow> bytes \<Rightarrow> bytes result" where
  "encrypt_raw cr plaintext key nonce aad = ok_or aead_failed (gcmsiv_encrypt cr key nonce aad plaintext)"

definition decrypt_raw :: "crates \<Rightarrow> bytes \<Rightarrow> bytes \<Rightarrow> bytes \<Rightarrow> bytes \<Rightarrow> bytes result" where
  "decrypt_raw cr ciphertext key nonce aad = ok_or aead_failed (gcmsiv_decrypt cr key nonce aad ciphertext)"

definition encrypt_framed :: "crates \<Rightarrow> bytes \<Rightarrow> bytes \<Rightarrow> bytes \<Rightarrow> string \<Rightarrow> bytes \<Rightarrow> bytes result" where
  "encrypt_framed cr plaintext key nonce c aad =
     rbind (encrypt_raw cr plaintext key nonce (bind_aad c aad)) (\<lambda>ct.
     Inr ([AEAD_BLOB_VERSION] @ nonce @ ct))"

definition aead_encrypt :: "crates \<Rightarrow> bytes \<Rightarrow> bytes \<Rightarrow> string \<Rightarrow> bytes \<Rightarrow> ('p world, bytes) leff" where
  "aead_encrypt cr plaintext key c aad =
     bindM (random_fixed 12) (\<lambda>nonce. liftR (encrypt_framed cr plaintext key nonce c aad))"

definition aead_decrypt :: "crates \<Rightarrow> bytes \<Rightarrow> bytes \<Rightarrow> string \<Rightarrow> bytes \<Rightarrow> bytes result" where
  "aead_decrypt cr blob key c aad =
     (if length blob < 1 + 12 + 16 then Inl aead_failed
      else if blob ! 0 \<noteq> AEAD_BLOB_VERSION then Inl aead_failed
      else rbind (sec_fixed_from_slice 12 (take 12 (drop 1 blob))) (\<lambda>nonce.
        decrypt_raw cr (drop 13 blob) key nonce (bind_aad c aad)))"

section \<open>Key derivation\<close>

definition HKDF_SHA256_MAX_OUTPUT :: nat where
  "HKDF_SHA256_MAX_OUTPUT = 255 * 32"

definition ARGON2_OUT_LEN :: nat where
  "ARGON2_OUT_LEN = 32"

definition ARGON2_MIN_M_COST :: u32 where
  "ARGON2_MIN_M_COST = 19 * 1024"

definition ARGON2_MIN_T_COST :: u32 where
  "ARGON2_MIN_T_COST = 2"

definition ARGON2_MIN_P_COST :: u32 where
  "ARGON2_MIN_P_COST = 1"

definition validate_hkdf_len :: "nat \<Rightarrow> unit result" where
  "validate_hkdf_len len =
     (if len > HKDF_SHA256_MAX_OUTPUT then Inl (invalid_len HKDF_SHA256_MAX_OUTPUT len) else Inr ())"

record argon2_params =
  m_cost :: u32
  t_cost :: u32
  p_cost :: u32

definition OWASP_DEFAULT :: argon2_params where
  "OWASP_DEFAULT = \<lparr>m_cost = 64 * 1024, t_cost = 3, p_cost = 1\<rparr>"

definition argon2_new_unchecked :: "crates \<Rightarrow> u32 \<Rightarrow> u32 \<Rightarrow> u32 \<Rightarrow> argon2_params result" where
  "argon2_new_unchecked cr m t p =
     (if argon2_params_new cr m t p (Some ARGON2_OUT_LEN)
      then Inr \<lparr>m_cost = m, t_cost = t, p_cost = p\<rparr>
      else Inl (internal_error ''argon2_params''))"

definition argon2_new :: "crates \<Rightarrow> u32 \<Rightarrow> u32 \<Rightarrow> u32 \<Rightarrow> argon2_params result" where
  "argon2_new cr m t p =
     (if m < ARGON2_MIN_M_COST \<or> t < ARGON2_MIN_T_COST \<or> p < ARGON2_MIN_P_COST
      then Inl (malformed_input ''argon2_params_below_minimum'')
      else argon2_new_unchecked cr m t p)"

definition argon2_to_params :: "crates \<Rightarrow> argon2_params \<Rightarrow> nat option \<Rightarrow> argon2_params result" where
  "argon2_to_params cr a out_len =
     (if argon2_params_new cr (m_cost a) (t_cost a) (p_cost a) out_len then Inr a
      else Inl (internal_error ''argon2_params''))"

definition derive_bytes_raw :: "crates \<Rightarrow> bytes \<Rightarrow> bytes option \<Rightarrow> bytes \<Rightarrow> nat \<Rightarrow> bytes result" where
  "derive_bytes_raw cr input salt info len =
     rbind (validate_hkdf_len len) (\<lambda>_.
     ok_or kdf_failed (hkdf_expand_prk cr (hkdf_extract_prk cr salt input) info len))"

definition derive32_raw :: "crates \<Rightarrow> bytes \<Rightarrow> bytes option \<Rightarrow> bytes \<Rightarrow> bytes result" where
  "derive32_raw cr input salt info =
     rbind (derive_bytes_raw cr input salt info 32) (sec_fixed_from_slice 32)"

definition derive32 :: "crates \<Rightarrow> bytes \<Rightarrow> bytes option \<Rightarrow> string \<Rightarrow> bytes \<Rightarrow> bytes result" where
  "derive32 cr input salt c aad = derive32_raw cr input salt (bind_aad c aad)"

definition derive_bytes :: "crates \<Rightarrow> bytes \<Rightarrow> bytes option \<Rightarrow> string \<Rightarrow> bytes \<Rightarrow> nat \<Rightarrow> bytes result" where
  "derive_bytes cr input salt c aad len = derive_bytes_raw cr input salt (bind_aad c aad) len"

definition hkdf_extract :: "crates \<Rightarrow> bytes option \<Rightarrow> bytes \<Rightarrow> bytes" where
  "hkdf_extract cr salt ikm = hkdf_extract_prk cr salt ikm"

text \<open>\<open>Hkdf::from_prk\<close> rejects a key shorter than the hash, which 32 bytes never are.\<close>

definition hkdf_expand :: "crates \<Rightarrow> bytes \<Rightarrow> bytes \<Rightarrow> nat \<Rightarrow> bytes result" where
  "hkdf_expand cr prk info len =
     rbind (validate_hkdf_len len) (\<lambda>_.
     if length prk < 32 then Inl (internal_error ''hkdf_prk_len'')
     else ok_or kdf_failed (hkdf_expand_prk cr prk info len))"

section \<open>Hash and key helpers\<close>

definition sha256 :: "crates \<Rightarrow> bytes \<Rightarrow> bytes" where
  "sha256 cr m = sha256_digest cr m"

definition ed25519_pub_from_seed :: "crates \<Rightarrow> bytes \<Rightarrow> bytes" where
  "ed25519_pub_from_seed cr seed = ed25519_public cr seed"

definition x25519_pub_from_seed :: "crates \<Rightarrow> bytes \<Rightarrow> bytes" where
  "x25519_pub_from_seed cr seed = x25519_public cr seed"

definition mldsa87_pub_from_seed :: "crates \<Rightarrow> bytes \<Rightarrow> bytes" where
  "mldsa87_pub_from_seed cr seed = mldsa_public cr seed"

definition mlkem1024_pub_from_seed :: "crates \<Rightarrow> bytes \<Rightarrow> bytes" where
  "mlkem1024_pub_from_seed cr seed = mlkem_ek_of_seed cr seed"

definition ephemeral_x25519_keypair :: "crates \<Rightarrow> ('p world, bytes \<times> bytes) leff" where
  "ephemeral_x25519_keypair cr =
     bindM (random_fixed 32) (\<lambda>seed. ret (seed, x25519_pub_from_seed cr seed))"

definition ephemeral_ed25519_keypair :: "crates \<Rightarrow> ('p world, bytes \<times> bytes) leff" where
  "ephemeral_ed25519_keypair cr =
     bindM (random_fixed 32) (\<lambda>seed. ret (seed, ed25519_pub_from_seed cr seed))"

definition ephemeral_kyber_mlkem1024_keypair :: "crates \<Rightarrow> ('p world, bytes \<times> bytes) leff" where
  "ephemeral_kyber_mlkem1024_keypair cr =
     bindM (random_fixed 64) (\<lambda>seed. ret (seed, mlkem1024_pub_from_seed cr seed))"

definition ephemeral_dilithium_mldsa87_keypair :: "crates \<Rightarrow> ('p world, bytes \<times> bytes) leff" where
  "ephemeral_dilithium_mldsa87_keypair cr =
     bindM (random_fixed 32) (\<lambda>seed. ret (seed, mldsa87_pub_from_seed cr seed))"

section \<open>Facts\<close>

lemma sec_fixed_from_slice_iff [simp]: "sec_fixed_from_slice n s = Inr x \<longleftrightarrow> length s = n \<and> x = s"
  by (auto simp: sec_fixed_from_slice_def)

lemma pub_fixed_from_slice_iff [simp]: "pub_fixed_from_slice n s = Inr x \<longleftrightarrow> length s = n \<and> x = s"
  by (auto simp: pub_fixed_from_slice_def)

lemma decrypt_encrypt_raw:
  assumes "aead_ok cr" and "length key = 32" and "length nonce = 12"
    and "encrypt_raw cr m key nonce aad = Inr ct"
  shows "decrypt_raw cr ct key nonce aad = Inr m" and "length ct = length m + 16"
  using assms(4) aead_roundtrip [OF assms(1-3)] aead_length [OF assms(1-3)]
  by (auto simp: encrypt_raw_def decrypt_raw_def)

lemma decrypt_framed:
  assumes "aead_ok cr" and "length key = 32" and "length nonce = 12"
    and "encrypt_framed cr m key nonce c aad = Inr blob"
  shows "aead_decrypt cr blob key c aad = Inr m" and "length blob = length m + 29"
proof -
  obtain ct where ct: "encrypt_raw cr m key nonce (bind_aad c aad) = Inr ct"
      and blob: "blob = AEAD_BLOB_VERSION # nonce @ ct"
    using assms(4) by (auto simp: encrypt_framed_def rbind_Inr_iff)
  note raw = decrypt_encrypt_raw [OF assms(1-3) ct]
  show "aead_decrypt cr blob key c aad = Inr m"
    using raw assms(3)
    by (simp add: blob aead_decrypt_def sec_fixed_from_slice_def)
  show "length blob = length m + 29" using raw assms(3) by (simp add: blob)
qed

lemma aead_encrypt_Done:
  "aead_encrypt cr m key c aad w = (Done blob, w') \<Longrightarrow> encrypt_framed cr m key (rng_draw w 12) c aad = Inr blob"
  by (auto simp: aead_encrypt_def bindM_def random_fixed_def liftR_def split: if_splits sum.splits)

text \<open>C26. Whatever nonce the generator yields, a blob produced by \<open>encrypt\<close> decrypts under the same
  key, context and associated data to the plaintext, and is 29 bytes longer than it; the only ways
  to fail are the generator's and the cipher's.\<close>

theorem aead_decrypt_encrypt:
  assumes "aead_ok cr" and "length key = 32"
    and "aead_encrypt cr m key c aad w = (Done blob, w')"
  shows "aead_decrypt cr blob key c aad = Inr m \<and> length blob = length m + 29"
  using decrypt_framed [OF assms(1,2) length_rng_draw aead_encrypt_Done [OF assms(3)]] by simp

lemma aead_encrypt_sample:
  "fst (aead_encrypt sample_crates [1, 2] (replicate 32 7) ''app'' [] (clean_world [])) =
     Done (1 # rng_draw (clean_world []) 12 @ [1, 2] @ s_tag (replicate 32 7) [] (bind_aad ''app'' []))"
  by (simp add: aead_encrypt_def bindM_def random_fixed_def clean_world_def encrypt_framed_def
      encrypt_raw_def sample_crates_def AEAD_BLOB_VERSION_def ret_def s_tag_def)

theorem aead_decrypt_encrypt_witness:
  "\<exists>blob w'. aead_encrypt sample_crates [1, 2] (replicate 32 7) ''app'' [] (clean_world []) = (Done blob, w')
    \<and> aead_decrypt sample_crates blob (replicate 32 7) ''app'' [] = Inr [1, 2] \<and> length blob = 31"
proof -
  obtain blob w' where run:
      "aead_encrypt sample_crates [1, 2] (replicate 32 7) ''app'' [] (clean_world []) = (Done blob, w')"
    using aead_encrypt_sample by (metis prod.collapse)
  show ?thesis
    using run aead_decrypt_encrypt [OF sample_aead_ok _ run] by auto
qed

text \<open>C25. A blob that decrypts carries the version byte, a nonce and a ciphertext that the cipher
  accepts under exactly the bound associated data of the given context; the plaintext is 29 bytes
  shorter.  Every other input is rejected with the one error \<open>AeadFailed\<close>.\<close>

theorem aead_decrypt_rejects_uniformly:
  assumes "aead_ok cr" and "length key = 32"
  shows "(case aead_decrypt cr blob key c aad of
      Inr m \<Rightarrow> length blob = length m + 29 \<and> blob ! 0 = 1
        \<and> gcmsiv_decrypt cr key (take 12 (drop 1 blob)) (bind_aad c aad) (drop 13 blob) = Some m
    | Inl e \<Rightarrow> e = aead_failed)"
proof (cases "length blob < 29 \<or> blob ! 0 \<noteq> 1")
  case True
  then show ?thesis by (auto simp: aead_decrypt_def AEAD_BLOB_VERSION_def)
next
  case False
  then have n: "length (take 12 (drop 1 blob)) = 12" by auto
  show ?thesis
    using False aead_open_length [OF assms n, of "bind_aad c aad" "drop 13 blob"]
    by (auto simp: aead_decrypt_def AEAD_BLOB_VERSION_def sec_fixed_from_slice_def decrypt_raw_def
        ok_or_def split: option.splits)
qed

theorem aead_decrypt_rejects_uniformly_witness:
  "aead_decrypt sample_crates [2] (replicate 32 7) ''app'' [] = Inl aead_failed \<and> aead_ok sample_crates"
proof -
  have "is_ok (aead_decrypt sample_crates [2] (replicate 32 7) ''app'' []) \<Longrightarrow> False"
    using aead_decrypt_rejects_uniformly [OF sample_aead_ok, of "replicate 32 7" "[2]" "''app''" "[]"]
    by (auto simp: is_ok_iff)
  then show ?thesis
    using aead_decrypt_rejects_uniformly [OF sample_aead_ok, of "replicate 32 7" "[2]" "''app''" "[]"]
      sample_aead_ok
    by (cases "aead_decrypt sample_crates [2] (replicate 32 7) ''app'' []") auto
qed

lemma derive_bytes_raw_spec:
  assumes "hkdf_ok cr"
  shows "(case derive_bytes_raw cr input salt info len of
      Inr out \<Rightarrow> len \<le> 8160 \<and> length out = len
    | Inl e \<Rightarrow> len > 8160 \<and> e = invalid_len 8160 len)"
proof (cases "len \<le> 8160")
  case True
  then have "len \<le> 255 * 32" by simp
  then obtain out where "hkdf_expand_prk cr (hkdf_extract_prk cr salt input) info len = Some out"
      and "length out = len"
    by (rule hkdf_expandE [OF assms hkdf_prk_length [OF assms]])
  with True show ?thesis
    by (simp add: derive_bytes_raw_def validate_hkdf_len_def HKDF_SHA256_MAX_OUTPUT_def)
next
  case False
  then show ?thesis
    by (simp add: derive_bytes_raw_def validate_hkdf_len_def HKDF_SHA256_MAX_OUTPUT_def)
qed

lemma derive32_raw_total:
  assumes "hkdf_ok cr"
  obtains out where "derive32_raw cr input salt info = Inr out" and "length out = 32"
proof (cases "derive_bytes_raw cr input salt info 32")
  case (Inl e)
  then show thesis
    using derive_bytes_raw_spec [OF assms, where input = input and salt = salt and info = info and len = 32]
    by simp
next
  case (Inr out)
  then have "length out = 32"
    using derive_bytes_raw_spec [OF assms, where input = input and salt = salt and info = info and len = 32]
    by simp
  with Inr show thesis by (intro that [of out]) (simp_all add: derive32_raw_def)
qed

text \<open>Key derivation returns exactly the requested number of bytes up to the HKDF limit of
  8160, and above it fails with \<open>InvalidLength\<close> before touching the hash; the 32-byte form never
  fails; expansion of a 32-byte key obeys the same bound.\<close>

theorem kdf_output_length:
  assumes "hkdf_ok cr" and "length prk = 32"
  shows "(case derive_bytes cr input salt c aad len of
      Inr out \<Rightarrow> len \<le> 8160 \<and> length out = len
    | Inl e \<Rightarrow> len > 8160 \<and> e = invalid_len 8160 len)
    \<and> (\<exists>out. derive32 cr input salt c aad = Inr out \<and> length out = 32)
    \<and> (case hkdf_expand cr prk info len of
      Inr out \<Rightarrow> len \<le> 8160 \<and> length out = len
    | Inl e \<Rightarrow> len > 8160 \<and> e = invalid_len 8160 len)"
proof (intro conjI)
  show "case derive_bytes cr input salt c aad len of
      Inr out \<Rightarrow> len \<le> 8160 \<and> length out = len
    | Inl e \<Rightarrow> len > 8160 \<and> e = invalid_len 8160 len"
    unfolding derive_bytes_def by (rule derive_bytes_raw_spec [OF assms(1)])
  show "\<exists>out. derive32 cr input salt c aad = Inr out \<and> length out = 32"
    unfolding derive32_def using derive32_raw_total [OF assms(1)] by metis
  show "case hkdf_expand cr prk info len of
      Inr out \<Rightarrow> len \<le> 8160 \<and> length out = len
    | Inl e \<Rightarrow> len > 8160 \<and> e = invalid_len 8160 len"
  proof (cases "len \<le> 255 * 32")
    case True
    then obtain out where "hkdf_expand_prk cr prk info len = Some out" and "length out = len"
      by (rule hkdf_expandE [OF assms])
    with True assms(2) show ?thesis
      by (simp add: hkdf_expand_def validate_hkdf_len_def HKDF_SHA256_MAX_OUTPUT_def)
  next
    case False
    then show ?thesis
      by (simp add: hkdf_expand_def validate_hkdf_len_def HKDF_SHA256_MAX_OUTPUT_def)
  qed
qed

theorem kdf_output_length_witness:
  "derive_bytes sample_crates [1] None ''app'' [] 8161 = Inl (invalid_len 8160 8161)
   \<and> (\<exists>out. derive32 sample_crates [1] None ''app'' [] = Inr out \<and> length out = 32)"
  using kdf_output_length [OF sample_hkdf_ok, where prk = "replicate 32 0" and input = "[1]"
      and salt = None and c = "''app''" and aad = "[]" and info = "[]" and len = 8161]
  by (cases "derive_bytes sample_crates [1] None ''app'' [] 8161") auto

text \<open>Password-hashing parameters below the minimum (19 MiB, two passes, one lane) never become
  an \<open>Argon2Params\<close>, whatever the argon2 package would accept, and what is accepted is kept as given.\<close>

theorem argon2_params_minimum:
  assumes "argon2_new cr m t p = Inr a"
  shows "19456 \<le> unat (m_cost a) \<and> 2 \<le> unat (t_cost a) \<and> 1 \<le> unat (p_cost a)
    \<and> m_cost a = m \<and> t_cost a = t \<and> p_cost a = p \<and> argon2_to_params cr a (Some 32) = Inr a"
  using assms
  by (auto simp: argon2_new_def argon2_new_unchecked_def argon2_to_params_def ARGON2_MIN_M_COST_def
      ARGON2_MIN_T_COST_def ARGON2_MIN_P_COST_def ARGON2_OUT_LEN_def not_less word_le_nat_alt
      Suc_le_eq unat_gt_0 split: if_splits)

theorem argon2_params_minimum_witness:
  "\<exists>a. argon2_new sample_crates 19456 2 1 = Inr a \<and> 19456 \<le> unat (m_cost a)
    \<and> \<not> is_ok (argon2_new sample_crates 19455 2 1)"
proof -
  have ok: "argon2_new sample_crates 19456 2 1 = Inr \<lparr>m_cost = 19456, t_cost = 2, p_cost = 1\<rparr>"
    by (simp add: argon2_new_def argon2_new_unchecked_def sample_crates_def ARGON2_MIN_M_COST_def
        ARGON2_MIN_T_COST_def ARGON2_MIN_P_COST_def)
  moreover have "\<not> is_ok (argon2_new sample_crates 19455 2 1)"
    by (simp add: argon2_new_def ARGON2_MIN_M_COST_def)
  ultimately show ?thesis using argon2_params_minimum [OF ok] by blast
qed

end
