(* ===== verification/KeyRecord.thy ===== *)
theory KeyRecord
  imports Primitives
begin

text \<open>
  The keyfile format and its envelope encryption, the pure half of \<^verbatim>\<open>src/src/keys/keyfile.rs\<close>.  A
  keyfile is one record: magic, version, algorithm, the salt and nonce of the wrapped data key, the
  wrapped key, and the encrypted payload with its nonce, each with its length in front.  The theory
  shows that parsing accepts exactly what \<open>build_record\<close> writes, that what is encoded under a master
  key opens under it, and that rewrapping to a new master key changes neither payload nor ciphertext.
\<close>

section \<open>Constants and the record\<close>

definition KEYFILE_MAGIC :: bytes where
  "KEYFILE_MAGIC = as_bytes ''KEYF''"

definition KEYFILE_VERSION :: u8 where
  "KEYFILE_VERSION = 1"

definition ALG_ID_AES256_GCM_SIV :: u8 where
  "ALG_ID_AES256_GCM_SIV = 1"

definition DEK_LEN :: u16 where
  "DEK_LEN = 32"

definition KEYFILE_KEK_INFO :: bytes where
  "KEYFILE_KEK_INFO = as_bytes ''kek/v1''"

definition MAX_KEYFILE_SIZE :: nat where
  "MAX_KEYFILE_SIZE = 64 * 1024"

definition CT_WRAP_LEN :: nat where
  "CT_WRAP_LEN = 48"

record keyfile =
  kf_version :: u8
  kf_alg_id :: u8
  kf_dek_len :: u16
  kf_salt :: bytes
  kf_nonce_wrap :: bytes
  kf_ct_wrap :: bytes
  kf_nonce_payload :: bytes
  kf_ct_payload :: bytes

definition build_record :: "keyfile \<Rightarrow> bytes" where
  "build_record r =
     KEYFILE_MAGIC @ [kf_version r] @ [kf_alg_id r] @ be_bytes 2 (unat (kf_dek_len r))
     @ be_bytes 2 (length (kf_salt r)) @ kf_salt r
     @ be_bytes 2 (length (kf_nonce_wrap r)) @ kf_nonce_wrap r
     @ be_bytes 2 (length (kf_ct_wrap r)) @ kf_ct_wrap r
     @ be_bytes 2 (length (kf_nonce_payload r)) @ kf_nonce_payload r
     @ be_bytes 4 (length (kf_ct_payload r)) @ kf_ct_payload r"

section \<open>Parsing\<close>

definition take_at :: "bytes \<Rightarrow> nat \<Rightarrow> nat \<Rightarrow> (bytes \<times> nat) result" where
  "take_at buf idx len =
     rbind (ok_or malformed_keyfile (checked_add_usize idx len)) (\<lambda>end_idx.
     rbind (ok_or malformed_keyfile (slice_get buf idx end_idx)) (\<lambda>slice.
     Inr (slice, end_idx)))"

definition read_u16 :: "bytes \<Rightarrow> nat \<Rightarrow> (u16 \<times> nat) result" where
  "read_u16 buf idx = rbind (take_at buf idx 2) (\<lambda>(b, idx). Inr (of_nat (be_nat b), idx))"

definition read_u32 :: "bytes \<Rightarrow> nat \<Rightarrow> (u32 \<times> nat) result" where
  "read_u32 buf idx = rbind (take_at buf idx 4) (\<lambda>(b, idx). Inr (of_nat (be_nat b), idx))"

definition guard_eq :: "nat \<Rightarrow> nat \<Rightarrow> unit result" where
  "guard_eq a b = (if a \<noteq> b then Inl malformed_keyfile else Inr ())"

definition parse_keyfile :: "bytes \<Rightarrow> keyfile result" where
  "parse_keyfile buf =
     (if length buf < 8 then Inl (invalid_len 8 (length buf))
      else if take 4 buf \<noteq> KEYFILE_MAGIC then Inl malformed_keyfile
      else
        rbind (read_u16 buf 6) (\<lambda>(dek_len, idx).
        rbind (read_u16 buf idx) (\<lambda>(len_salt, idx).
        rbind (guard_eq (unat len_salt) 32) (\<lambda>_.
        rbind (take_at buf idx 32) (\<lambda>(salt, idx).
        rbind (read_u16 buf idx) (\<lambda>(len_nonce_wrap, idx).
        rbind (guard_eq (unat len_nonce_wrap) 12) (\<lambda>_.
        rbind (take_at buf idx 12) (\<lambda>(nonce_wrap, idx).
        rbind (read_u16 buf idx) (\<lambda>(len_ct_wrap, idx).
        rbind (guard_eq (unat len_ct_wrap) CT_WRAP_LEN) (\<lambda>_.
        rbind (take_at buf idx (unat len_ct_wrap)) (\<lambda>(ct_wrap, idx).
        rbind (read_u16 buf idx) (\<lambda>(len_nonce_payload, idx).
        rbind (guard_eq (unat len_nonce_payload) 12) (\<lambda>_.
        rbind (take_at buf idx 12) (\<lambda>(nonce_payload, idx).
        rbind (read_u32 buf idx) (\<lambda>(len_ct_payload, idx).
        rbind (take_at buf idx (unat len_ct_payload)) (\<lambda>(ct_payload, idx).
        rbind (guard_eq idx (length buf)) (\<lambda>_.
        Inr \<lparr>kf_version = buf ! 4, kf_alg_id = buf ! 5, kf_dek_len = dek_len, kf_salt = salt,
             kf_nonce_wrap = nonce_wrap, kf_ct_wrap = ct_wrap, kf_nonce_payload = nonce_payload,
             kf_ct_payload = ct_payload\<rparr>)))))))))))))))))"

section \<open>Envelope encryption\<close>

definition aad_for :: "u8 \<Rightarrow> string \<Rightarrow> bytes" where
  "aad_for version key_type = as_bytes (''keyfile:v'' @ show_nat (unat version) @ ''|'' @ key_type)"

definition derive_kek :: "crates \<Rightarrow> bytes \<Rightarrow> bytes \<Rightarrow> bytes result" where
  "derive_kek cr mk salt =
     ok_or kdf_failed (hkdf_expand_prk cr (hkdf_extract_prk cr (Some salt) mk) KEYFILE_KEK_INFO 32)"

definition wrap_dek :: "crates \<Rightarrow> bytes \<Rightarrow> bytes \<Rightarrow> bytes \<Rightarrow> ('p world, bytes \<times> bytes) leff" where
  "wrap_dek cr kek dek aad =
     bindM (random_fixed 12) (\<lambda>nonce.
     bindM (liftR (encrypt_raw cr dek kek nonce aad)) (\<lambda>ct. ret (ct, nonce)))"

definition encrypt_payload :: "crates \<Rightarrow> bytes \<Rightarrow> bytes \<Rightarrow> bytes \<Rightarrow> ('p world, bytes \<times> bytes) leff" where
  "encrypt_payload cr dek payload aad =
     bindM (random_fixed 12) (\<lambda>nonce.
     bindM (liftR (encrypt_raw cr payload dek nonce aad)) (\<lambda>ct. ret (ct, nonce)))"

definition unwrap_dek :: "crates \<Rightarrow> bytes \<Rightarrow> bytes \<Rightarrow> bytes \<Rightarrow> bytes \<Rightarrow> bytes \<Rightarrow> bytes result" where
  "unwrap_dek cr mk salt nonce_wrap ct_wrap aad =
     rbind (derive_kek cr mk salt) (\<lambda>kek.
     rbind (sec_fixed_from_slice 12 nonce_wrap) (\<lambda>nonce.
     rbind (decrypt_raw cr ct_wrap kek nonce aad) (\<lambda>dek_bytes.
     sec_fixed_from_slice 32 dek_bytes)))"

definition decrypt_payload_bytes :: "crates \<Rightarrow> bytes \<Rightarrow> bytes \<Rightarrow> bytes \<Rightarrow> bytes \<Rightarrow> bytes result" where
  "decrypt_payload_bytes cr dek nonce_payload ct_payload aad =
     rbind (sec_fixed_from_slice 12 nonce_payload) (\<lambda>nonce. decrypt_raw cr ct_payload dek nonce aad)"

definition decrypt_payload_32 :: "crates \<Rightarrow> bytes \<Rightarrow> bytes \<Rightarrow> bytes \<Rightarrow> bytes \<Rightarrow> bytes result" where
  "decrypt_payload_32 cr dek nonce_payload ct_payload aad =
     rbind (decrypt_payload_bytes cr dek nonce_payload ct_payload aad) (sec_fixed_from_slice 32)"

definition encode_encrypted :: "crates \<Rightarrow> bytes \<Rightarrow> bytes \<Rightarrow> string \<Rightarrow> ('p world, bytes) leff" where
  "encode_encrypted cr mk payload key_type =
     bindM (random_fixed 32) (\<lambda>dek.
     bindM (random_fixed 32) (\<lambda>salt.
     bindM (liftR (derive_kek cr mk salt)) (\<lambda>kek.
     let aad = aad_for KEYFILE_VERSION key_type in
     bindM (wrap_dek cr kek dek aad) (\<lambda>(ct_wrap, nonce_wrap).
     bindM (encrypt_payload cr dek payload aad) (\<lambda>(ct_payload, nonce_payload).
     ret (build_record \<lparr>kf_version = KEYFILE_VERSION, kf_alg_id = ALG_ID_AES256_GCM_SIV, kf_dek_len = DEK_LEN,
       kf_salt = salt, kf_nonce_wrap = nonce_wrap, kf_ct_wrap = ct_wrap, kf_nonce_payload = nonce_payload,
       kf_ct_payload = ct_payload\<rparr>))))))"

text \<open>The header check that every reader makes after parsing, and what the two loaders and the
  rewrapping do with the bytes of the file.\<close>

definition check_header :: "keyfile \<Rightarrow> unit result" where
  "check_header r =
     (if kf_version r \<noteq> KEYFILE_VERSION \<or> kf_alg_id r \<noteq> ALG_ID_AES256_GCM_SIV \<or> kf_dek_len r \<noteq> DEK_LEN
      then Inl malformed_keyfile else Inr ())"

definition record_dek :: "crates \<Rightarrow> keyfile \<Rightarrow> bytes \<Rightarrow> string \<Rightarrow> bytes result" where
  "record_dek cr r mk key_type =
     unwrap_dek cr mk (kf_salt r) (kf_nonce_wrap r) (kf_ct_wrap r) (aad_for (kf_version r) key_type)"

definition open_bytes :: "crates \<Rightarrow> bytes \<Rightarrow> string \<Rightarrow> bytes \<Rightarrow> bytes result" where
  "open_bytes cr mk key_type buf =
     rbind (parse_keyfile buf) (\<lambda>r.
     rbind (check_header r) (\<lambda>_.
     rbind (record_dek cr r mk key_type) (\<lambda>dek.
     decrypt_payload_bytes cr dek (kf_nonce_payload r) (kf_ct_payload r) (aad_for (kf_version r) key_type))))"

definition open_secret32 :: "crates \<Rightarrow> bytes \<Rightarrow> string \<Rightarrow> bytes \<Rightarrow> bytes result" where
  "open_secret32 cr mk key_type buf =
     rbind (parse_keyfile buf) (\<lambda>r.
     rbind (check_header r) (\<lambda>_.
     rbind (record_dek cr r mk key_type) (\<lambda>dek.
     decrypt_payload_32 cr dek (kf_nonce_payload r) (kf_ct_payload r) (aad_for (kf_version r) key_type))))"

definition rewrap_bytes :: "crates \<Rightarrow> bytes \<Rightarrow> bytes \<Rightarrow> string \<Rightarrow> bytes \<Rightarrow> ('p world, bytes) leff" where
  "rewrap_bytes cr old_mk new_mk key_type buf =
     bindM (liftR (parse_keyfile buf)) (\<lambda>r.
     bindM (liftR (check_header r)) (\<lambda>_.
     bindM (liftR (record_dek cr r old_mk key_type)) (\<lambda>dek.
     bindM (random_fixed 32) (\<lambda>salt_new.
     bindM (liftR (derive_kek cr new_mk salt_new)) (\<lambda>kek_new.
     bindM (wrap_dek cr kek_new dek (aad_for (kf_version r) key_type)) (\<lambda>(ct_wrap_new, nonce_wrap_new).
     ret (build_record (r\<lparr>kf_salt := salt_new, kf_nonce_wrap := nonce_wrap_new, kf_ct_wrap := ct_wrap_new\<rparr>))))))))"

section \<open>The format is canonical\<close>

definition keyfile_wf :: "keyfile \<Rightarrow> bool" where
  "keyfile_wf r \<longleftrightarrow> length (kf_salt r) = 32 \<and> length (kf_nonce_wrap r) = 12 \<and> length (kf_ct_wrap r) = CT_WRAP_LEN
     \<and> length (kf_nonce_payload r) = 12 \<and> length (kf_ct_payload r) < 2 ^ 32"

lemma take_at_iff:
  "take_at buf i n = Inr (s, j) \<longleftrightarrow>
     j = i + n \<and> j < usize_bound \<and> j \<le> length buf \<and> s = take n (drop i buf)"
  by (auto simp: take_at_def rbind_Inr_iff checked_add_usize_def slice_get_def split: if_splits)

lemma take_atD:
  assumes "take_at buf i n = Inr (s, j)"
  shows "take j buf = take i buf @ s" and "length s = n" and "j \<le> length buf"
  using assms by (auto simp: take_at_iff take_add)

lemma unat_of_nat_be16: "length b = 2 \<Longrightarrow> unat (of_nat (be_nat b) :: u16) = be_nat b"
  using be_nat_bound [of b] by (simp add: unat_of_nat)

lemma unat_of_nat_be32: "length b = 4 \<Longrightarrow> unat (of_nat (be_nat b) :: u32) = be_nat b"
  using be_nat_bound [of b] by (simp add: unat_of_nat)

lemma read_u16D:
  assumes "read_u16 buf i = Inr (x, j)"
  shows "take j buf = take i buf @ be_bytes 2 (unat x)"
proof -
  obtain b where b: "take_at buf i 2 = Inr (b, j)" and x: "x = of_nat (be_nat b)"
    using assms by (auto simp: read_u16_def rbind_Inr_iff)
  have "be_bytes 2 (unat x) = b"
    using take_atD(2) [OF b] by (simp add: x unat_of_nat_be16 be_bytes_eq_iff del: be_bytes.simps)
  then show ?thesis using take_atD(1) [OF b] by simp
qed

lemma read_u32D:
  assumes "read_u32 buf i = Inr (x, j)"
  shows "take j buf = take i buf @ be_bytes 4 (unat x)"
proof -
  obtain b where b: "take_at buf i 4 = Inr (b, j)" and x: "x = of_nat (be_nat b)"
    using assms by (auto simp: read_u32_def rbind_Inr_iff)
  have "be_bytes 4 (unat x) = b"
    using take_atD(2) [OF b] by (simp add: x unat_of_nat_be32 be_bytes_eq_iff del: be_bytes.simps)
  then show ?thesis using take_atD(1) [OF b] by simp
qed

lemma guard_eq_iff [simp]: "guard_eq a b = Inr u \<longleftrightarrow> a = b"
  by (simp add: guard_eq_def)

lemma take6_header:
  assumes "8 \<le> length buf"
  shows "take 6 buf = take 4 buf @ [buf ! 4] @ [buf ! 5]"
proof -
  have "take 6 buf = take (Suc (Suc 4)) buf" by (simp add: eval_nat_numeral)
  then show ?thesis using assms by (simp only: take_Suc_conv_app_nth) simp
qed

lemma parse_keyfile_sound:
  assumes "parse_keyfile buf = Inr r"
  shows "keyfile_wf r" and "build_record r = buf"
proof -
  obtain ls i1 i2 i3 ln i4 i5 lw i6 i7 lp i8 i9 lc i10 i11 where
      head: "8 \<le> length buf" "take 4 buf = KEYFILE_MAGIC" "kf_version r = buf ! 4" "kf_alg_id r = buf ! 5"
      and rd: "read_u16 buf 6 = Inr (kf_dek_len r, i1)" "read_u16 buf i1 = Inr (ls, i2)"
      "read_u16 buf i3 = Inr (ln, i4)" "read_u16 buf i5 = Inr (lw, i6)"
      "read_u16 buf i7 = Inr (lp, i8)" "read_u32 buf i9 = Inr (lc, i10)"
      and tk: "take_at buf i2 32 = Inr (kf_salt r, i3)" "take_at buf i4 12 = Inr (kf_nonce_wrap r, i5)"
      "take_at buf i6 (unat lw) = Inr (kf_ct_wrap r, i7)"
      "take_at buf i8 12 = Inr (kf_nonce_payload r, i9)"
      "take_at buf i10 (unat lc) = Inr (kf_ct_payload r, i11)"
      and len: "unat ls = 32" "unat ln = 12" "unat lw = CT_WRAP_LEN" "unat lp = 12" "i11 = length buf"
    using assms by (auto simp: parse_keyfile_def rbind_Inr_iff split: if_splits)
  note lens = tk [THEN take_atD(2)]
  have lc: "unat lc < 2 ^ 32" by (rule order_less_le_trans [OF unsigned_less]) simp
  show "keyfile_wf r" using lens len lc by (simp add: keyfile_wf_def)
  have "buf = take i11 buf" using len by simp
  also have "\<dots> = build_record r"
    unfolding tk [THEN take_atD(1)] rd(1-5) [THEN read_u16D] rd(6) [THEN read_u32D]
      take6_header [OF head(1)] build_record_def
    using lens len head by simp
  finally show "build_record r = buf" by simp
qed

lemma take_at_drop:
  assumes "drop i buf = xs @ post" and "length xs = n" and "i \<le> length buf" and "length buf < usize_bound"
  shows "take_at buf i n = Inr (xs, i + n)" and "drop (i + n) buf = post" and "i + n \<le> length buf"
proof -
  have "length (drop i buf) = length xs + length post" using assms(1) by simp
  then show le: "i + n \<le> length buf" using assms(2,3) by simp
  have "drop (i + n) buf = drop n (drop i buf)" by (simp add: add.commute)
  then show "drop (i + n) buf = post" using assms(1,2) by simp
  show "take_at buf i n = Inr (xs, i + n)" using assms le by (simp add: take_at_iff)
qed

lemma read_u16_drop:
  assumes "drop i buf = be_bytes 2 x @ post" and "x < 65536" and "i \<le> length buf" and "length buf < usize_bound"
  shows "read_u16 buf i = Inr (of_nat x, i + 2)" and "drop (i + 2) buf = post" and "i + 2 \<le> length buf"
  using take_at_drop [OF assms(1) length_be_bytes assms(3,4)] assms(2)
  by (simp_all add: read_u16_def del: be_bytes.simps)

lemma read_u32_drop:
  assumes "drop i buf = be_bytes 4 x @ post" and "x < 2 ^ 32" and "i \<le> length buf" and "length buf < usize_bound"
  shows "read_u32 buf i = Inr (of_nat x, i + 4)" and "drop (i + 4) buf = post" and "i + 4 \<le> length buf"
  using take_at_drop [OF assms(1) length_be_bytes assms(3,4)] assms(2)
  by (simp_all add: read_u32_def del: be_bytes.simps)

lemma length_build_record: "keyfile_wf r \<Longrightarrow> length (build_record r) = 124 + length (kf_ct_payload r)"
  by (simp add: build_record_def keyfile_wf_def KEYFILE_MAGIC_def CT_WRAP_LEN_def del: be_bytes.simps)

lemma unat_u16_less [simp]: "unat (x :: u16) < 65536"
  by (rule order_less_le_trans [OF unsigned_less]) simp

lemma parse_keyfile_complete:
  assumes "keyfile_wf r"
  shows "parse_keyfile (build_record r) = Inr r"
proof -
  let ?b = "build_record r"
  have ls: "length (kf_salt r) = 32" "length (kf_nonce_wrap r) = 12" "length (kf_ct_wrap r) = 48"
      "length (kf_nonce_payload r) = 12" "length (kf_ct_payload r) < 2 ^ 32"
    and lt: "(32 :: nat) < 65536" "(12 :: nat) < 65536" "(48 :: nat) < 65536"
    using assms by (simp_all add: keyfile_wf_def CT_WRAP_LEN_def)
  have lb: "length ?b < usize_bound" and l8: "6 \<le> length ?b"
    using length_build_record [OF assms] ls(5) by (simp_all add: usize_bound_def)
  have h: "take 4 ?b = KEYFILE_MAGIC" "?b ! 4 = kf_version r" "?b ! 5 = kf_alg_id r"
    by (simp_all add: build_record_def KEYFILE_MAGIC_def del: be_bytes.simps)
  have d6: "drop 6 ?b = be_bytes 2 (unat (kf_dek_len r)) @ be_bytes 2 32 @ kf_salt r @ be_bytes 2 12 @ kf_nonce_wrap r
     @ be_bytes 2 48 @ kf_ct_wrap r @ be_bytes 2 12 @ kf_nonce_payload r
     @ be_bytes 4 (length (kf_ct_payload r)) @ kf_ct_payload r @ []"
    using ls by (simp add: build_record_def KEYFILE_MAGIC_def del: be_bytes.simps)
  note r1 = read_u16_drop [OF d6 unat_u16_less l8 lb]
  note r2 = read_u16_drop [OF r1(2) lt(1) r1(3) lb]
  note t1 = take_at_drop [OF r2(2) ls(1) r2(3) lb]
  note r3 = read_u16_drop [OF t1(2) lt(2) t1(3) lb]
  note t2 = take_at_drop [OF r3(2) ls(2) r3(3) lb]
  note r4 = read_u16_drop [OF t2(2) lt(3) t2(3) lb]
  note t3 = take_at_drop [OF r4(2) ls(3) r4(3) lb]
  note r5 = read_u16_drop [OF t3(2) lt(2) t3(3) lb]
  note t4 = take_at_drop [OF r5(2) ls(4) r5(3) lb]
  note r6 = read_u32_drop [OF t4(2) ls(5) t4(3) lb]
  note t5 = take_at_drop [OF r6(2) refl r6(3) lb]
  have u: "unat (of_nat (length (kf_ct_payload r)) :: u32) = length (kf_ct_payload r)"
    using ls(5) by (simp add: unat_of_nat)
  show ?thesis
    using r1(1) r2(1) t1(1) r3(1) t2(1) r4(1) t3(1) r5(1) t4(1) r6(1) t5(1)
      length_build_record [OF assms] u
    by (simp add: parse_keyfile_def h CT_WRAP_LEN_def guard_eq_def)
qed

interpretation kf: wire_codec build_record parse_keyfile keyfile_wf
  by unfold_locales (auto intro: parse_keyfile_complete parse_keyfile_sound)

text \<open>C32. The keyfile format is canonical: parsing accepts a byte string exactly when it is the encoding
  of a well-formed record, and then returns that record; so records and files determine each other, and
  truncated, extended or otherwise altered lengths are rejected.\<close>

theorem keyfile_format_is_canonical:
  "(parse_keyfile buf = Inr r \<longleftrightarrow> keyfile_wf r \<and> build_record r = buf)
   \<and> (is_ok (parse_keyfile buf) \<longleftrightarrow> buf \<in> build_record ` Collect keyfile_wf)
   \<and> inj_on build_record (Collect keyfile_wf)"
  using kf.accepts_iff kf.accepted_range kf.to_wire_inject by (simp add: inj_on_def)

section \<open>The envelope\<close>

lemma aad_for_inject: "aad_for v kt = aad_for v kt' \<longleftrightarrow> kt = kt'"
  by (simp add: aad_for_def)

lemma derive_kek_total:
  assumes "hkdf_ok cr"
  obtains kek where "derive_kek cr mk salt = Inr kek" and "length kek = 32"
proof -
  have "(32 :: nat) \<le> 255 * 32" by simp
  then obtain kek where "hkdf_expand_prk cr (hkdf_extract_prk cr (Some salt) mk) KEYFILE_KEK_INFO 32 = Some kek"
      and "length kek = 32"
    by (rule hkdf_expandE [OF assms hkdf_prk_length [OF assms]])
  then show thesis by (intro that) (simp_all add: derive_kek_def)
qed

lemma derive_kek_length: "hkdf_ok cr \<Longrightarrow> derive_kek cr mk salt = Inr kek \<Longrightarrow> length kek = 32"
  by (metis derive_kek_total Inr_inject)

lemma wrap_dekD:
  assumes "aead_ok cr" and "length kek = 32" and "wrap_dek cr kek dek aad w = (Done (ct, nonce), w')"
  shows "length nonce = 12" and "length ct = length dek + 16" and "decrypt_raw cr ct kek nonce aad = Inr dek"
proof -
  show n: "length nonce = 12"
    using assms(3) by (auto simp: wrap_dek_def done_iffs dest: random_fixed_length)
  have "encrypt_raw cr dek kek nonce aad = Inr ct"
    using assms(3) by (auto simp: wrap_dek_def done_iffs)
  from decrypt_encrypt_raw [OF assms(1,2) n this]
  show "length ct = length dek + 16" and "decrypt_raw cr ct kek nonce aad = Inr dek" by simp_all
qed

lemma encrypt_payloadD:
  assumes "aead_ok cr" and "length dek = 32" and "encrypt_payload cr dek m aad w = (Done (ct, nonce), w')"
  shows "length nonce = 12" and "length ct = length m + 16" and "decrypt_raw cr ct dek nonce aad = Inr m"
proof -
  show n: "length nonce = 12"
    using assms(3) by (auto simp: encrypt_payload_def done_iffs dest: random_fixed_length)
  have "encrypt_raw cr m dek nonce aad = Inr ct"
    using assms(3) by (auto simp: encrypt_payload_def done_iffs)
  from decrypt_encrypt_raw [OF assms(1,2) n this]
  show "length ct = length m + 16" and "decrypt_raw cr ct dek nonce aad = Inr m" by simp_all
qed

lemma record_dek_wrapped:
  assumes "aead_ok cr" and "hkdf_ok cr" and "derive_kek cr mk (kf_salt r) = Inr kek" and "length dek = 32"
    and "wrap_dek cr kek dek (aad_for (kf_version r) kt) w = (Done (kf_ct_wrap r, kf_nonce_wrap r), w')"
  shows "record_dek cr r mk kt = Inr dek"
  using wrap_dekD [OF assms(1) derive_kek_length [OF assms(2,3)] assms(5)] assms(3,4)
  by (simp add: record_dek_def unwrap_dek_def sec_fixed_from_slice_def)

lemma open_bytes_record:
  assumes "keyfile_wf r" and "check_header r = Inr ()"
  shows "open_bytes cr mk kt (build_record r) =
    rbind (record_dek cr r mk kt) (\<lambda>dek.
      decrypt_payload_bytes cr dek (kf_nonce_payload r) (kf_ct_payload r) (aad_for (kf_version r) kt))"
  using assms by (simp add: open_bytes_def parse_keyfile_complete)

lemma open_secret32_bytes:
  "open_secret32 cr mk kt buf = rbind (open_bytes cr mk kt buf) (sec_fixed_from_slice 32)"
proof (cases "parse_keyfile buf")
  case (Inr r)
  then show ?thesis
    by (cases "check_header r"; cases "record_dek cr r mk kt")
       (simp_all add: open_secret32_def open_bytes_def decrypt_payload_32_def)
qed (simp add: open_secret32_def open_bytes_def)

lemma encode_encryptedE:
  assumes "aead_ok cr" and "hkdf_ok cr" and "length payload + 16 < 2 ^ 32"
    and "encode_encrypted cr mk payload kt w = (Done buf, w')"
  obtains r dek where "buf = build_record r" and "keyfile_wf r" and "check_header r = Inr ()" and "kf_version r = KEYFILE_VERSION"
    and "record_dek cr r mk kt = Inr dek" and "drawn (rng_tape w) 32 dek" and "drawn (rng_tape w) 32 (kf_salt r)"
    and "drawn (rng_tape w) 12 (kf_nonce_wrap r)"
    and "decrypt_payload_bytes cr dek (kf_nonce_payload r) (kf_ct_payload r) (aad_for KEYFILE_VERSION kt) = Inr payload"
    and "length (kf_ct_payload r) = length payload + 16"
proof -
  obtain dek salt kek ct_wrap nonce_wrap ct_payload nonce_payload w1 w2 w3 w4 w5 where
      rnd: "random_fixed 32 w = (Done dek, w1)" "random_fixed 32 w1 = (Done salt, w2)"
      and kek: "derive_kek cr mk salt = Inr kek"
      and wd: "wrap_dek cr kek dek (aad_for KEYFILE_VERSION kt) w2 = (Done (ct_wrap, nonce_wrap), w4)"
      and ep: "encrypt_payload cr dek payload (aad_for KEYFILE_VERSION kt) w4 = (Done (ct_payload, nonce_payload), w5)"
      and buf: "buf = build_record \<lparr>kf_version = KEYFILE_VERSION, kf_alg_id = ALG_ID_AES256_GCM_SIV,
        kf_dek_len = DEK_LEN, kf_salt = salt, kf_nonce_wrap = nonce_wrap, kf_ct_wrap = ct_wrap,
        kf_nonce_payload = nonce_payload, kf_ct_payload = ct_payload\<rparr>"
    using assms(4) by (auto simp: encode_encrypted_def done_iffs Let_def)
  let ?r = "\<lparr>kf_version = KEYFILE_VERSION, kf_alg_id = ALG_ID_AES256_GCM_SIV,
        kf_dek_len = DEK_LEN, kf_salt = salt, kf_nonce_wrap = nonce_wrap, kf_ct_wrap = ct_wrap,
        kf_nonce_payload = nonce_payload, kf_ct_payload = ct_payload\<rparr>"
  note len = random_fixed_length [OF rnd(1)] random_fixed_length [OF rnd(2)]
  note W = wrap_dekD [OF assms(1) derive_kek_length [OF assms(2) kek] wd]
  note E = encrypt_payloadD [OF assms(1) len(1) ep]
  note drawn = random_fixed_drawn [OF rnd(1)] random_fixed_drawn [OF rnd(2)]
  have nonce: "drawn (rng_tape w) 12 nonce_wrap"
    using wd drawn by (auto simp: wrap_dek_def done_iffs dest: random_fixed_drawn)
  show thesis
  proof (rule that [OF buf, of dek])
    show "keyfile_wf ?r" using len W E assms(3) by (simp add: keyfile_wf_def CT_WRAP_LEN_def)
    show "record_dek cr ?r mk kt = Inr dek"
      using record_dek_wrapped [OF assms(1,2), of mk ?r kek dek kt w2 w4] kek len wd by simp
  qed (use E drawn nonce in \<open>simp_all add: check_header_def decrypt_payload_bytes_def sec_fixed_from_slice_def\<close>)
qed

lemma encode_encrypted_opens:
  assumes "aead_ok cr" and "hkdf_ok cr" and "length payload + 16 < 2 ^ 32"
    and "encode_encrypted cr mk payload kt w = (Done buf, w')"
  shows "open_bytes cr mk kt buf = Inr payload" and "length buf = length payload + 140"
proof -
  obtain r dek where r: "buf = build_record r" "keyfile_wf r" "check_header r = Inr ()" "kf_version r = KEYFILE_VERSION"
      "record_dek cr r mk kt = Inr dek"
      "decrypt_payload_bytes cr dek (kf_nonce_payload r) (kf_ct_payload r) (aad_for KEYFILE_VERSION kt) = Inr payload"
      "length (kf_ct_payload r) = length payload + 16"
    by (rule encode_encryptedE [OF assms])
  then show "open_bytes cr mk kt buf = Inr payload" "length buf = length payload + 140"
    using open_bytes_record [OF r(2,3)] length_build_record [OF r(2)] by (simp_all add: r(1))
qed

lemma encrypt_raw_total:
  assumes "aead_total cr" and "length k = 32" and "length n = 12" and "length m < 2 ^ 36" and "length aad < 2 ^ 36"
  obtains c where "encrypt_raw cr m k n aad = Inr c"
proof -
  have "gcmsiv_encrypt cr k n aad m \<noteq> None" using assms unfolding aead_total_def by blast
  then show thesis using that by (auto simp: encrypt_raw_def)
qed

lemma aad_for_short: "length kt < 2 ^ 35 \<Longrightarrow> length (aad_for KEYFILE_VERSION kt) < 2 ^ 36"
  by (simp add: aad_for_def KEYFILE_VERSION_def show_nat.simps [of "Suc 0"])

lemma wrap_dek_total:
  assumes "aead_total cr" and "rng_live w" and "length kek = 32" and "length dek = 32" and "length aad < 2 ^ 36"
  obtains ct nonce where "wrap_dek cr kek dek aad w = (Done (ct, nonce), w\<lparr>rng_pos := rng_pos w + 12\<rparr>)"
proof -
  have l: "length dek < 2 ^ 36" using assms(4) by simp
  obtain ct where "encrypt_raw cr dek kek (rng_draw w 12) aad = Inr ct"
    by (rule encrypt_raw_total [OF assms(1,3) length_rng_draw l assms(5)])
  then show thesis
    using that assms(2) by (simp add: wrap_dek_def bindM_def random_fixed_live ret_def)
qed

lemma encrypt_payload_total:
  assumes "aead_total cr" and "rng_live w" and "length dek = 32" and "length m < 2 ^ 36" and "length aad < 2 ^ 36"
  obtains ct nonce where "encrypt_payload cr dek m aad w = (Done (ct, nonce), w\<lparr>rng_pos := rng_pos w + 12\<rparr>)"
proof -
  obtain ct where "encrypt_raw cr m dek (rng_draw w 12) aad = Inr ct"
    by (rule encrypt_raw_total [OF assms(1,3) length_rng_draw assms(4,5)])
  then show thesis
    using that assms(2) by (simp add: encrypt_payload_def bindM_def random_fixed_live ret_def)
qed

lemma encode_encrypted_total:
  assumes "hkdf_ok cr" and "aead_total cr" and "rng_live w" and "length payload < 2 ^ 36" and "length kt < 2 ^ 35"
  obtains buf where "encode_encrypted cr mk payload kt w = (Done buf, w\<lparr>rng_pos := 88 + rng_pos w\<rparr>)"
proof -
  let ?w1 = "w\<lparr>rng_pos := rng_pos w + 32\<rparr>" and ?w2 = "w\<lparr>rng_pos := 64 + rng_pos w\<rparr>"
  let ?dek = "rng_draw w 32" and ?salt = "rng_draw ?w1 32"
  let ?w3 = "w\<lparr>rng_pos := 76 + rng_pos w\<rparr>"
  note aad = aad_for_short [OF assms(5)]
  have live: "rng_live ?w2" "rng_live ?w3" using assms(3) by simp_all
  obtain kek where kek: "derive_kek cr mk ?salt = Inr kek" "length kek = 32"
    by (rule derive_kek_total [OF assms(1)])
  obtain cw nw where wd: "wrap_dek cr kek ?dek (aad_for KEYFILE_VERSION kt) ?w2
      = (Done (cw, nw), ?w2\<lparr>rng_pos := rng_pos ?w2 + 12\<rparr>)"
    by (rule wrap_dek_total [OF assms(2) live(1) kek(2) length_rng_draw aad])
  obtain cp np where ep: "encrypt_payload cr ?dek payload (aad_for KEYFILE_VERSION kt) ?w3
      = (Done (cp, np), ?w3\<lparr>rng_pos := rng_pos ?w3 + 12\<rparr>)"
    by (rule encrypt_payload_total [OF assms(2) live(2) length_rng_draw assms(4) aad])
  show thesis
    using kek wd ep assms(3) that
    by (simp add: encode_encrypted_def bindM_def random_fixed_live Let_def ret_def)
qed

text \<open>C14. What is encoded under a master key and a key type, whatever the generator yields, opens under
  them to the payload; the file is 140 bytes longer than the payload; a 32-byte payload also opens
  through the fixed-size reader, and any other size is refused by it.\<close>

theorem keyfile_opens_what_it_encodes:
  assumes "aead_ok cr" and "hkdf_ok cr" and "length payload + 16 < 2 ^ 32"
    and "encode_encrypted cr mk payload kt w = (Done buf, w')"
  shows "open_bytes cr mk kt buf = Inr payload \<and> length buf = length payload + 140
    \<and> open_secret32 cr mk kt buf
        = (if length payload = 32 then Inr payload else Inl (invalid_len 32 (length payload)))"
  using encode_encrypted_opens [OF assms]
  by (simp add: open_secret32_bytes sec_fixed_from_slice_def)

theorem keyfile_opens_what_it_encodes_witness:
  "\<exists>buf w'. encode_encrypted sample_crates [9] [1, 2, 3] ''demo'' (clean_world []) = (Done buf, w')
    \<and> open_bytes sample_crates [9] ''demo'' buf = Inr [1, 2, 3] \<and> length buf = 143
    \<and> open_secret32 sample_crates [9] ''demo'' buf = Inl (invalid_len 32 3)"
proof -
  have l: "length [1, 2, 3 :: u8] < 2 ^ 36" "length ''demo'' < 2 ^ 35" by simp_all
  obtain buf where run: "encode_encrypted sample_crates [9] [1, 2, 3] ''demo'' (clean_world [])
      = (Done buf, (clean_world [])\<lparr>rng_pos := 88 + rng_pos (clean_world [])\<rparr>)"
    by (rule encode_encrypted_total [OF sample_hkdf_ok sample_aead_total clean_world_live l])
  show ?thesis
    using run keyfile_opens_what_it_encodes [OF sample_aead_ok sample_hkdf_ok _ run]
    by (auto simp: numeral_3_eq_3)
qed

lemma rewrap_bytesE:
  assumes "rewrap_bytes cr old_mk new_mk kt buf w = (Done buf', w')"
  obtains r dek salt kek ct nonce w1 w2 where "parse_keyfile buf = Inr r" and "check_header r = Inr ()"
    and "record_dek cr r old_mk kt = Inr dek" and "random_fixed 32 w = (Done salt, w1)"
    and "derive_kek cr new_mk salt = Inr kek"
    and "wrap_dek cr kek dek (aad_for (kf_version r) kt) w1 = (Done (ct, nonce), w2)"
    and "buf' = build_record (r\<lparr>kf_salt := salt, kf_nonce_wrap := nonce, kf_ct_wrap := ct\<rparr>)"
  using assms by (auto simp: rewrap_bytes_def done_iffs)

lemma record_dek_length: "record_dek cr r mk kt = Inr dek \<Longrightarrow> length dek = 32"
  by (auto simp: record_dek_def unwrap_dek_def rbind_Inr_iff)

lemma rewrap_bytes_opens:
  assumes "aead_ok cr" and "hkdf_ok cr" and "rewrap_bytes cr old_mk new_mk kt buf w = (Done buf', w')"
  shows "open_bytes cr new_mk kt buf' = open_bytes cr old_mk kt buf" and "length buf' = length buf"
proof -
  obtain r dek salt kek ct nonce w1 w2 where r: "parse_keyfile buf = Inr r" and h: "check_header r = Inr ()"
      and dek: "record_dek cr r old_mk kt = Inr dek" and rnd: "random_fixed 32 w = (Done salt, w1)"
      and kek: "derive_kek cr new_mk salt = Inr kek"
      and wd: "wrap_dek cr kek dek (aad_for (kf_version r) kt) w1 = (Done (ct, nonce), w2)"
      and buf': "buf' = build_record (r\<lparr>kf_salt := salt, kf_nonce_wrap := nonce, kf_ct_wrap := ct\<rparr>)"
    by (rule rewrap_bytesE [OF assms(3)])
  let ?r = "r\<lparr>kf_salt := salt, kf_nonce_wrap := nonce, kf_ct_wrap := ct\<rparr>"
  note W = wrap_dekD [OF assms(1) derive_kek_length [OF assms(2) kek] wd]
  note S = parse_keyfile_sound [OF r]
  have wf: "keyfile_wf ?r"
    using S(1) W random_fixed_length [OF rnd] record_dek_length [OF dek]
    by (simp add: keyfile_wf_def CT_WRAP_LEN_def)
  have h': "check_header ?r = Inr ()" using h by (simp add: check_header_def)
  have dek': "record_dek cr ?r new_mk kt = Inr dek"
    using record_dek_wrapped [OF assms(1,2), of new_mk ?r kek dek kt w1 w2] kek wd record_dek_length [OF dek]
    by simp
  have "open_bytes cr old_mk kt (build_record r) = decrypt_payload_bytes cr dek (kf_nonce_payload r) (kf_ct_payload r) (aad_for (kf_version r) kt)"
    using open_bytes_record [OF S(1) h] dek by simp
  then show "open_bytes cr new_mk kt buf' = open_bytes cr old_mk kt buf"
    using open_bytes_record [OF wf h'] dek' S(2) by (simp add: buf')
  show "length buf' = length buf"
    using length_build_record [OF wf] length_build_record [OF S(1)] S(2) by (simp add: buf')
qed

lemma open_bytesE:
  assumes "open_bytes cr mk kt buf = Inr payload"
  obtains r dek where "parse_keyfile buf = Inr r" and "check_header r = Inr ()"
    and "record_dek cr r mk kt = Inr dek" and "kf_version r = KEYFILE_VERSION"
  using assms by (auto simp: open_bytes_def rbind_Inr_iff check_header_def split: if_splits)

lemma rewrap_bytes_total:
  assumes "hkdf_ok cr" and "aead_total cr" and "rng_live w" and "length kt < 2 ^ 35"
    and "open_bytes cr old_mk kt buf = Inr payload"
  obtains buf' where "rewrap_bytes cr old_mk new_mk kt buf w = (Done buf', w\<lparr>rng_pos := 44 + rng_pos w\<rparr>)"
proof -
  let ?w1 = "w\<lparr>rng_pos := rng_pos w + 32\<rparr>"
  obtain r dek where r: "parse_keyfile buf = Inr r" "check_header r = Inr ()"
      "record_dek cr r old_mk kt = Inr dek" "kf_version r = KEYFILE_VERSION"
    by (rule open_bytesE [OF assms(5)])
  obtain kek where kek: "derive_kek cr new_mk (rng_draw w 32) = Inr kek" "length kek = 32"
    by (rule derive_kek_total [OF assms(1)])
  have live: "rng_live ?w1" using assms(3) by simp
  obtain ct nonce where "wrap_dek cr kek dek (aad_for KEYFILE_VERSION kt) ?w1
      = (Done (ct, nonce), ?w1\<lparr>rng_pos := rng_pos ?w1 + 12\<rparr>)"
    by (rule wrap_dek_total [OF assms(2) live kek(2) record_dek_length [OF r(3)] aad_for_short [OF assms(4)]])
  then show thesis
    using r kek assms(3) that by (simp add: rewrap_bytes_def bindM_def random_fixed_live ret_def)
qed

text \<open>C8. Rewrapping to a new master key keeps the payload: the rewrapped file opens under the new key
  to exactly what the old file opened to under the old key, has the same size, and carries the same
  payload ciphertext and nonce, so the payload key is not exposed to a second encryption.\<close>

theorem rewrap_preserves_payload:
  assumes "aead_ok cr" and "hkdf_ok cr" and "rewrap_bytes cr old_mk new_mk kt buf w = (Done buf', w')"
  shows "open_bytes cr new_mk kt buf' = open_bytes cr old_mk kt buf \<and> length buf' = length buf
    \<and> (\<exists>r r'. parse_keyfile buf = Inr r \<and> parse_keyfile buf' = Inr r'
         \<and> kf_ct_payload r' = kf_ct_payload r \<and> kf_nonce_payload r' = kf_nonce_payload r)"
proof -
  obtain r salt ct nonce where "parse_keyfile buf = Inr r"
      and "buf' = build_record (r\<lparr>kf_salt := salt, kf_nonce_wrap := nonce, kf_ct_wrap := ct\<rparr>)"
      and "keyfile_wf (r\<lparr>kf_salt := salt, kf_nonce_wrap := nonce, kf_ct_wrap := ct\<rparr>)"
  proof (rule rewrap_bytesE [OF assms(3)])
    fix r dek salt kek ct nonce w1 w2
    assume *: "parse_keyfile buf = Inr r" "record_dek cr r old_mk kt = Inr dek"
      "random_fixed 32 w = (Done salt, w1)" "derive_kek cr new_mk salt = Inr kek"
      "wrap_dek cr kek dek (aad_for (kf_version r) kt) w1 = (Done (ct, nonce), w2)"
      "buf' = build_record (r\<lparr>kf_salt := salt, kf_nonce_wrap := nonce, kf_ct_wrap := ct\<rparr>)"
    have "keyfile_wf (r\<lparr>kf_salt := salt, kf_nonce_wrap := nonce, kf_ct_wrap := ct\<rparr>)"
      using parse_keyfile_sound(1) [OF *(1)] random_fixed_length [OF *(3)] record_dek_length [OF *(2)]
        wrap_dekD [OF assms(1) derive_kek_length [OF assms(2) *(4)] *(5)]
      by (simp add: keyfile_wf_def CT_WRAP_LEN_def)
    with * show thesis by (intro that)
  qed
  then show ?thesis
    using rewrap_bytes_opens [OF assms] parse_keyfile_complete by fastforce
qed

theorem rewrap_preserves_payload_witness:
  "\<exists>buf w buf' w'. encode_encrypted sample_crates [9] [1, 2, 3] ''demo'' (clean_world []) = (Done buf, w)
    \<and> rewrap_bytes sample_crates [9] [8] ''demo'' buf w = (Done buf', w')
    \<and> open_bytes sample_crates [8] ''demo'' buf' = Inr [1, 2, 3]"
proof -
  have l: "length [1, 2, 3 :: u8] < 2 ^ 36" "length ''demo'' < 2 ^ 35" "length [1, 2, 3 :: u8] + 16 < 2 ^ 32"
    by simp_all
  obtain buf where run: "encode_encrypted sample_crates [9] [1, 2, 3] ''demo'' (clean_world [])
      = (Done buf, (clean_world [])\<lparr>rng_pos := 88 + rng_pos (clean_world [])\<rparr>)" (is "_ = (_, ?w)")
    by (rule encode_encrypted_total [OF sample_hkdf_ok sample_aead_total clean_world_live l(1,2)])
  have live: "rng_live ?w" by simp
  note op = encode_encrypted_opens(1) [OF sample_aead_ok sample_hkdf_ok l(3) run]
  obtain buf' where re: "rewrap_bytes sample_crates [9] [8] ''demo'' buf ?w
      = (Done buf', ?w\<lparr>rng_pos := 44 + rng_pos ?w\<rparr>)"
    by (rule rewrap_bytes_total [OF sample_hkdf_ok sample_aead_total live l(2) op])
  show ?thesis
    using run re op rewrap_preserves_payload [OF sample_aead_ok sample_hkdf_ok re] by metis
qed

end
