(* ===== verification/Hoare.thy ===== *)
theory Hoare
  imports World
begin

text \<open>
  Partial-correctness triples for effectful code with three exits, and the rules for the system
  calls of the world.  \<open>triple P m Q F C\<close> says of every run of \<open>m\<close> from a state with \<open>P\<close>: if it
  returns, \<open>Q\<close> holds of the result and the state; if it fails, \<open>F\<close> of the error and the state; if
  the process dies in it, \<open>C\<close> of the state left behind.
\<close>

definition triple :: "('s \<Rightarrow> bool) \<Rightarrow> ('s, 'e, 'a) eff \<Rightarrow> ('a \<Rightarrow> 's \<Rightarrow> bool) \<Rightarrow> ('e \<Rightarrow> 's \<Rightarrow> bool)
    \<Rightarrow> ('s \<Rightarrow> bool) \<Rightarrow> bool" where
  "triple P m Q F C \<longleftrightarrow> (\<forall>s. P s \<longrightarrow> (case m s of
     (Done a, s') \<Rightarrow> Q a s' | (Fail e, s') \<Rightarrow> F e s' | (Crash, s') \<Rightarrow> C s'))"

named_theorems triple_rules \<open>syntax-directed rules of the triples\<close>

section \<open>Structural rules\<close>

lemma tripleI:
  assumes "\<And>s a s'. P s \<Longrightarrow> m s = (Done a, s') \<Longrightarrow> Q a s'"
    and "\<And>s e s'. P s \<Longrightarrow> m s = (Fail e, s') \<Longrightarrow> F e s'"
    and "\<And>s s'. P s \<Longrightarrow> m s = (Crash, s') \<Longrightarrow> C s'"
  shows "triple P m Q F C"
  using assms by (auto simp: triple_def split: prod.splits outcome.splits)

lemma triple_DoneD: "triple P m Q F C \<Longrightarrow> P s \<Longrightarrow> m s = (Done a, s') \<Longrightarrow> Q a s'"
  and triple_FailD: "triple P m Q F C \<Longrightarrow> P s \<Longrightarrow> m s = (Fail e, s') \<Longrightarrow> F e s'"
  and triple_CrashD: "triple P m Q F C \<Longrightarrow> P s \<Longrightarrow> m s = (Crash, s') \<Longrightarrow> C s'"
  by (auto simp: triple_def split: prod.splits outcome.splits)

lemma tripleD:
  "triple P m Q F C \<Longrightarrow> P s \<Longrightarrow>
   (case m s of (Done a, s') \<Rightarrow> Q a s' | (Fail e, s') \<Rightarrow> F e s' | (Crash, s') \<Rightarrow> C s')"
  by (simp add: triple_def)

lemma triple_conseq:
  assumes "triple P m Q F C" and "\<And>s. P' s \<Longrightarrow> P s" and "\<And>a s. Q a s \<Longrightarrow> Q' a s"
    and "\<And>e s. F e s \<Longrightarrow> F' e s" and "\<And>s. C s \<Longrightarrow> C' s"
  shows "triple P' m Q' F' C'"
  using assms by (fastforce simp: triple_def split: prod.splits outcome.splits)

lemma triple_pre: "triple P m Q F C \<Longrightarrow> (\<And>s. P' s \<Longrightarrow> P s) \<Longrightarrow> triple P' m Q F C"
  by (auto simp: triple_def)

lemma triple_pure: "triple P m Q F C \<Longrightarrow> triple (\<lambda>s. P s \<and> A) m (\<lambda>a s. Q a s \<and> A) F C"
  by (rule tripleI) (auto dest: triple_DoneD triple_FailD triple_CrashD)

lemma triple_ret: "(\<And>s. P s \<Longrightarrow> Q a s) \<Longrightarrow> triple P (ret a) Q F C"
  by (simp add: triple_def ret_def)

lemma triple_fail: "(\<And>s. P s \<Longrightarrow> F e s) \<Longrightarrow> triple P (fail e) Q F C"
  by (simp add: triple_def fail_def)

lemma triple_liftR:
  "(\<And>a s. P s \<Longrightarrow> r = Inr a \<Longrightarrow> Q a s) \<Longrightarrow> (\<And>e s. P s \<Longrightarrow> r = Inl e \<Longrightarrow> F e s) \<Longrightarrow> triple P (liftR r) Q F C"
  by (simp add: triple_def liftR_def split: sum.splits)

lemma triple_bind:
  assumes "triple P m R F C" and "\<And>a. triple (R a) (f a) Q F C"
  shows "triple P (bindM m f) Q F C"
  unfolding triple_def
proof (intro allI impI)
  fix s
  assume "P s"
  then have m: "case m s of (Done a, s') \<Rightarrow> R a s' | (Fail e, s') \<Rightarrow> F e s' | (Crash, s') \<Rightarrow> C s'"
    using assms(1) by (simp add: triple_def)
  show "case bindM m f s of (Done a, s') \<Rightarrow> Q a s' | (Fail e, s') \<Rightarrow> F e s' | (Crash, s') \<Rightarrow> C s'"
  proof (cases "m s")
    case (Pair out s')
    then show ?thesis
      using m assms(2) by (cases out) (simp_all add: bindM_def triple_def)
  qed
qed

lemma triple_tryM:
  assumes "triple P m (\<lambda>a. Q (Inr a)) (\<lambda>e. Q (Inl e)) C"
  shows "triple P (tryM m) Q F C"
  using assms by (fastforce simp: triple_def tryM_def split: prod.splits outcome.splits)

lemma triple_ignoreM:
  assumes "triple P m (\<lambda>a. Q ()) (\<lambda>e. Q ()) C"
  shows "triple P (ignoreM m) Q F C"
  unfolding ignoreM_def
  by (rule triple_bind [OF triple_tryM [where Q = "\<lambda>_. Q ()"]])
     (use assms in \<open>auto intro: triple_ret\<close>)

lemma triple_mapM_err:
  assumes "triple P m Q (\<lambda>e. F (g e)) C"
  shows "triple P (mapM_err g m) Q F C"
  using assms by (fastforce simp: triple_def mapM_err_def split: prod.splits outcome.splits)

lemma triple_conj:
  assumes "triple P m Q F C" and "triple P' m Q' F' C'"
  shows "triple (\<lambda>s. P s \<and> P' s) m (\<lambda>a s. Q a s \<and> Q' a s) (\<lambda>e s. F e s \<and> F' e s) (\<lambda>s. C s \<and> C' s)"
  using assms by (fastforce simp: triple_def split: prod.splits outcome.splits)

text \<open>A loop over a list keeps an invariant of the elements done and to do.\<close>

lemma triple_forM_split:
  assumes "\<And>xs y ys. zs = xs @ y # ys \<Longrightarrow>
      triple (I xs (y # ys)) (f y) (\<lambda>_. I (xs @ [y]) ys) F C"
  shows "zs = xs @ ys \<Longrightarrow> triple (I xs ys) (forM ys f) (\<lambda>_. I zs []) F C"
proof (induction ys arbitrary: xs)
  case Nil
  then show ?case by (auto intro: triple_ret)
next
  case (Cons y ys)
  show ?case
    unfolding forM.simps
    by (rule triple_bind [OF assms [OF Cons.prems]]) (use Cons in simp)
qed

lemma triple_forM:
  assumes "\<And>y. y \<in> set ys \<Longrightarrow> triple I (f y) (\<lambda>_. I) F C"
  shows "triple I (forM ys f) (\<lambda>_. I) F C"
  using assms
proof (induction ys)
  case Nil
  then show ?case by (auto intro: triple_ret)
next
  case (Cons y ys)
  show ?case
    unfolding forM.simps by (rule triple_bind [where R = "\<lambda>_. I"]) (use Cons in auto)
qed

section \<open>System calls\<close>

text \<open>Assertions that look neither at the tick counter nor at the generator's position nor at the
  temporary-name counter nor at the arena.\<close>

definition tick_free :: "('p world \<Rightarrow> bool) \<Rightarrow> bool" where
  "tick_free P \<longleftrightarrow> (\<forall>w. P w \<longrightarrow> (\<forall>n. P (w\<lparr>ticks := n\<rparr>)) \<and> (\<forall>i. P (w\<lparr>rng_pos := i\<rparr>)) \<and> (\<forall>s. P (w\<lparr>tmp_seq := s\<rparr>))
     \<and> (\<forall>a. P (w\<lparr>arena_st := a\<rparr>)))"

abbreviation keeps :: "('s \<Rightarrow> bool) \<Rightarrow> ('s, 'e, 'a) eff \<Rightarrow> bool" where
  "keeps I m \<equiv> triple I m (\<lambda>_. I) (\<lambda>_. I) I"

lemma tick_free_nodes [simp]: "tick_free (\<lambda>w. A (nodes w))"
  by (simp add: tick_free_def)

lemma tick_free_conj [simp]: "tick_free P \<Longrightarrow> tick_free Q \<Longrightarrow> tick_free (\<lambda>w. P w \<and> Q w)"
  by (auto simp: tick_free_def)

lemma triple_syscall:
  assumes "tick_free P"
    and "\<And>w a w'. P w \<Longrightarrow> act w = (Inr a, w') \<Longrightarrow> Q a w'"
    and "\<And>w k w'. P w \<Longrightarrow> act w = (Inl k, w') \<Longrightarrow> P w'"
  shows "triple P (syscall op act) Q (\<lambda>_. P) P"
  unfolding triple_def
proof (intro allI impI)
  fix w :: "'a world"
  assume P: "P w"
  let ?w = "w\<lparr>ticks := ticks w + 1\<rparr>"
  have P1: "P ?w" using assms(1) P by (simp add: tick_free_def)
  obtain r w' where act: "act ?w = (r, w')" by fastforce
  show "case syscall op act w of (Done a, s') \<Rightarrow> Q a s' | (Fail e, s') \<Rightarrow> P s' | (Crash, s') \<Rightarrow> P s'"
    using P1 act assms(2) [OF P1] assms(3) [OF P1]
    by (cases r) (auto simp: syscall_def Let_def split: option.splits fault.splits)
qed

lemma triple_query:
  assumes "tick_free P"
  shows "triple P (query op f) (\<lambda>a w. P w \<and> f (nodes w) = Inr a) (\<lambda>_. P) P"
  unfolding query_def using assms by (rule triple_syscall) auto

lemma keeps_query: "tick_free P \<Longrightarrow> keeps P (query op f)"
  by (rule triple_conseq [OF triple_query]) auto

lemma triple_update_fs:
  assumes "tick_free P"
    and "\<And>w ns. P w \<Longrightarrow> f (nodes w) = Inr ns \<Longrightarrow> Q (w\<lparr>nodes := ns\<rparr>)"
  shows "triple P (update_fs op f) (\<lambda>_. Q) (\<lambda>_. P) P"
  unfolding update_fs_def using assms(1)
  by (rule triple_syscall) (auto intro: assms(2) split: sum.splits)

lemma triple_random_fixed:
  "tick_free P \<Longrightarrow> triple P (random_fixed n) (\<lambda>x w. P w \<and> length x = n) (\<lambda>_. P) P"
  by (auto simp: triple_def random_fixed_def tick_free_def)

lemma keeps_random_fixed: "tick_free P \<Longrightarrow> keeps P (random_fixed n)"
  by (rule triple_conseq [OF triple_random_fixed]) auto

lemma keeps_stat: "tick_free P \<Longrightarrow> keeps P (stat_follow p)"
  unfolding stat_follow_def by (rule keeps_query)

lemma keeps_path_test:
  assumes "tick_free P"
  shows "keeps P (path_exists p)" and "keeps P (path_is_dir p)" and "keeps P (path_is_file p)"
  unfolding path_exists_def path_is_dir_def path_is_file_def
  by (rule triple_bind [OF triple_tryM [OF keeps_stat [OF assms]]], rule triple_ret, assumption)+

lemma keeps_tryM: "keeps P m \<Longrightarrow> keeps P (tryM m)"
  by (rule triple_tryM)

lemma keeps_bind: "keeps P m \<Longrightarrow> (\<And>a. keeps P (f a)) \<Longrightarrow> keeps P (bindM m f)"
  by (rule triple_bind)

lemma keeps_leaf:
  "keeps P (ret a)" "keeps P (fail e)" "keeps P (liftR r)"
  by (auto intro: triple_ret triple_fail triple_liftR)

lemma keeps_mapM_err: "keeps P m \<Longrightarrow> keeps P (mapM_err g m)"
  by (rule triple_mapM_err)

lemma keeps_ignoreM: "keeps P m \<Longrightarrow> keeps P (ignoreM m)"
  by (rule triple_ignoreM)

lemma triple_mkdir:
  assumes "tick_free P"
    and "\<And>w. P w \<Longrightarrow> d \<noteq> [] \<Longrightarrow> walk_err (nodes w) d = None \<Longrightarrow> map_of (nodes w) d = None \<Longrightarrow>
      P (w\<lparr>nodes := AList.update d (Dir mode) (nodes w)\<rparr>)"
  shows "keeps P (mkdir mode d)"
  unfolding mkdir_def
  by (rule triple_update_fs [OF assms(1)]) (auto intro: assms(2) simp: parent_err_None_iff split: option.splits)

lemma keeps_create_dir_all:
  assumes "tick_free P"
    and "\<And>w d'. P w \<Longrightarrow> prefix d' d \<Longrightarrow> d' \<noteq> [] \<Longrightarrow> walk_err (nodes w) d' = None \<Longrightarrow> map_of (nodes w) d' = None \<Longrightarrow>
      P (w\<lparr>nodes := AList.update d' (Dir mode) (nodes w)\<rparr>)"
  shows "keeps P (create_dir_all mode d)"
  using assms(2)
proof (induction d rule: rev_induct)
  case Nil
  have "keeps P (mkdir mode [])"
    by (rule triple_mkdir [OF assms(1)]) (use Nil in simp)
  then show ?case
    unfolding create_dir_all.simps [of mode "[]"]
    by (intro keeps_bind keeps_tryM) (auto split: sum.split intro!: keeps_leaf keeps_bind keeps_path_test assms(1))
next
  case (snoc x xs)
  have mk: "keeps P (mkdir mode (xs @ [x]))"
    by (rule triple_mkdir [OF assms(1)]) (use snoc(2) in simp)
  have rec: "keeps P (create_dir_all mode xs)"
    by (rule snoc.IH) (use snoc(2) in \<open>simp add: prefix_snoc\<close>)
  have mk': "keeps P (mkdir_or_is_dir mode (xs @ [x]))"
    unfolding mkdir_or_is_dir_def
    by (rule keeps_bind [OF keeps_tryM [OF mk]])
       (auto split: sum.split intro!: keeps_leaf keeps_bind keeps_path_test assms(1))
  show ?case
    unfolding create_dir_all.simps [of mode "xs @ [x]"]
    by (rule keeps_bind [OF keeps_tryM [OF mk]])
       (auto split: sum.split intro!: keeps_leaf keeps_bind keeps_path_test assms(1) rec mk')
qed

end
