(* ===== verification/KeyFile.thy ===== *)
theory KeyFile
  imports KeyRecord Hoare
begin

text \<open>
  The file half of \<^verbatim>\<open>src/src/keys/keyfile.rs\<close>, in its Unix configuration: reading with the metadata
  check, private directories, the private temporary file, the atomic writers, and the save, load and
  rewrap entry points.  The theory shows that a writer is atomic whatever system call fails and
  wherever the process dies: the target holds its old content or the complete new one.
\<close>

section \<open>Reading\<close>

definition check_keyfile_metadata :: "node \<Rightarrow> unit result" where
  "check_keyfile_metadata meta = (case meta of
     Symlink q \<Rightarrow> Inl (invalid_perms ''keyfile_is_symlink'')
   | Dir m \<Rightarrow> Inl (invalid_perms ''keyfile_not_regular_file'')
   | Special m \<Rightarrow> Inl (invalid_perms ''keyfile_not_regular_file'')
   | File mode d \<Rightarrow>
       if length d > MAX_KEYFILE_SIZE then Inl (invalid_len MAX_KEYFILE_SIZE (length d))
       else if mode AND 0x3f \<noteq> 0 then Inl (invalid_perms ''keyfile_group_or_world_accessible'')
       else Inr ())"

definition read_keyfile_bytes :: "path \<Rightarrow> ('p world, bytes) leff" where
  "read_keyfile_bytes p =
     bindM (mapM_err lithium_io (open_nofollow p)) (\<lambda>f.
     bindM (mapM_err lithium_io (fstat f)) (\<lambda>meta.
     bindM (liftR (check_keyfile_metadata meta)) (\<lambda>_.
     mapM_err lithium_io (read_limited f MAX_KEYFILE_SIZE))))"

section \<open>Writing\<close>

text \<open>Mode \<open>0o700\<close> of directories, \<open>0o600\<close> of files, and the mask \<open>0o077\<close> above.\<close>

definition ensure_private_dir :: "path \<Rightarrow> ('p world, unit) leff" where
  "ensure_private_dir p =
     bindM (tryM (symlink_metadata p)) (\<lambda>r. case r of
       Inr meta \<Rightarrow> (case meta of
         Dir mode \<Rightarrow>
           if mode AND 0x3f \<noteq> 0 then fail (invalid_perms ''keystore_dir_group_or_world_accessible'')
           else ret ()
       | _ \<Rightarrow> fail (invalid_perms ''keystore_dir_not_directory''))
     | Inl e \<Rightarrow>
         if fst e = NotFound then mapM_err lithium_io (create_dir_all 0x1c0 p)
         else fail (lithium_io e))"

definition ensure_parent :: "path \<Rightarrow> ('p world, unit) leff" where
  "ensure_parent p = (case parent_of p of None \<Rightarrow> ret () | Some d \<Rightarrow> ensure_private_dir d)"

definition fetch_tmp_seq :: "('p world, 'e, u64) eff" where
  "fetch_tmp_seq w = (Done (tmp_seq w), w\<lparr>tmp_seq := tmp_seq w + 1\<rparr>)"

definition tmp_path :: "crates \<Rightarrow> path \<Rightarrow> nat \<Rightarrow> u64 \<Rightarrow> bytes \<Rightarrow> path" where
  "tmp_path cr p process_id seq sfx =
     with_extension p (''tmp-'' @ show_hex process_id @ ''-'' @ show_hex (unat seq) @ ''-'' @ hex_encode cr sfx)"

definition get_pid :: "('p world, 'e, nat) eff" where
  "get_pid w = (Done (pid w), w)"

fun tmp_attempts :: "crates \<Rightarrow> nat \<Rightarrow> path \<Rightarrow> ('p world, path) leff" where
  "tmp_attempts cr 0 p = fail (lithium_io (AlreadyExists, ''keyfile tmp name not unique''))"
| "tmp_attempts cr (Suc n) p =
     bindM (random_fixed 8) (\<lambda>sfx.
     bindM fetch_tmp_seq (\<lambda>seq.
     bindM get_pid (\<lambda>process_id.
     let tmp = tmp_path cr p process_id seq sfx in
     bindM (tryM (create_new tmp 0x180)) (\<lambda>r. case r of
       Inr u \<Rightarrow> ret tmp
     | Inl e \<Rightarrow> if fst e = AlreadyExists then tmp_attempts cr n p else fail (lithium_io e)))))"

definition create_private_tmp :: "crates \<Rightarrow> path \<Rightarrow> ('p world, path) leff" where
  "create_private_tmp cr p = tmp_attempts cr 8 p"

definition fill_tmp :: "path \<Rightarrow> bytes \<Rightarrow> ('p world, unit) leff" where
  "fill_tmp tmp data =
     bindM (tryM (bindM (mapM_err lithium_io (write_all tmp data)) (\<lambda>_. mapM_err lithium_io sync_all)))
       (\<lambda>r. case r of
         Inr u \<Rightarrow> ret ()
       | Inl e \<Rightarrow> bindM (ignoreM (remove_file tmp)) (\<lambda>_. fail e))"

definition sync_parent_best_effort :: "path \<Rightarrow> ('p world, unit) leff" where
  "sync_parent_best_effort p = (case parent_of p of
     None \<Rightarrow> ret ()
   | Some d \<Rightarrow> ignoreM (bindM (open_dir d) (\<lambda>_. sync_all)))"

definition write_secure :: "crates \<Rightarrow> path \<Rightarrow> bytes \<Rightarrow> ('p world, unit) leff" where
  "write_secure cr p data =
     bindM (ensure_parent p) (\<lambda>_.
     bindM (create_private_tmp cr p) (\<lambda>tmp.
     bindM (fill_tmp tmp data) (\<lambda>_.
     bindM (mapM_err lithium_io (rename_file tmp p)) (\<lambda>_.
     sync_parent_best_effort p))))"

definition write_secure_new :: "crates \<Rightarrow> path \<Rightarrow> bytes \<Rightarrow> ('p world, unit) leff" where
  "write_secure_new cr p data =
     bindM (ensure_parent p) (\<lambda>_.
     bindM (create_private_tmp cr p) (\<lambda>tmp.
     bindM (fill_tmp tmp data) (\<lambda>_.
     bindM (tryM (hard_link tmp p)) (\<lambda>link_res.
     bindM (ignoreM (remove_file tmp)) (\<lambda>_.
     bindM (liftR (map_err lithium_io link_res)) (\<lambda>_.
     sync_parent_best_effort p))))))"

definition write_secure_new_best_effort :: "crates \<Rightarrow> path \<Rightarrow> bytes \<Rightarrow> ('p world, unit) leff" where
  "write_secure_new_best_effort cr p data =
     bindM (ensure_parent p) (\<lambda>_.
     bindM (mapM_err lithium_io (path_try_exists p)) (\<lambda>ex.
     if ex then fail (lithium_io (AlreadyExists, ''keyfile already exists''))
     else
     bindM (create_private_tmp cr p) (\<lambda>tmp.
     bindM (fill_tmp tmp data) (\<lambda>_.
     bindM (tryM (rename_file tmp p)) (\<lambda>r. case r of
       Inl e \<Rightarrow> bindM (ignoreM (remove_file tmp)) (\<lambda>_. fail (lithium_io e))
     | Inr u \<Rightarrow> sync_parent_best_effort p)))))"

section \<open>Entry points\<close>

definition save_secret32_encrypted :: "crates \<Rightarrow> path \<Rightarrow> bytes \<Rightarrow> bytes \<Rightarrow> string \<Rightarrow> ('p world, unit) leff" where
  "save_secret32_encrypted cr p mk payload key_type =
     bindM (encode_encrypted cr mk payload key_type) (\<lambda>data. write_secure cr p data)"

definition save_secret32_encrypted_new :: "crates \<Rightarrow> path \<Rightarrow> bytes \<Rightarrow> bytes \<Rightarrow> string \<Rightarrow> ('p world, unit) leff" where
  "save_secret32_encrypted_new cr p mk payload key_type =
     bindM (encode_encrypted cr mk payload key_type) (\<lambda>data. write_secure_new cr p data)"

definition save_bytes_encrypted :: "crates \<Rightarrow> path \<Rightarrow> bytes \<Rightarrow> bytes \<Rightarrow> string \<Rightarrow> ('p world, unit) leff" where
  "save_bytes_encrypted cr p mk payload key_type =
     bindM (encode_encrypted cr mk payload key_type) (\<lambda>data. write_secure cr p data)"

definition save_bytes_encrypted_new :: "crates \<Rightarrow> path \<Rightarrow> bytes \<Rightarrow> bytes \<Rightarrow> string \<Rightarrow> ('p world, unit) leff" where
  "save_bytes_encrypted_new cr p mk payload key_type =
     bindM (encode_encrypted cr mk payload key_type) (\<lambda>data. write_secure_new cr p data)"

definition save_secret32_encrypted_new_best_effort :: "crates \<Rightarrow> path \<Rightarrow> bytes \<Rightarrow> bytes \<Rightarrow> string \<Rightarrow> ('p world, unit) leff" where
  "save_secret32_encrypted_new_best_effort cr p mk payload key_type =
     bindM (encode_encrypted cr mk payload key_type) (\<lambda>data. write_secure_new_best_effort cr p data)"

definition save_bytes_encrypted_new_best_effort :: "crates \<Rightarrow> path \<Rightarrow> bytes \<Rightarrow> bytes \<Rightarrow> string \<Rightarrow> ('p world, unit) leff" where
  "save_bytes_encrypted_new_best_effort cr p mk payload key_type =
     bindM (encode_encrypted cr mk payload key_type) (\<lambda>data. write_secure_new_best_effort cr p data)"

definition load_secret32_decrypted :: "crates \<Rightarrow> path \<Rightarrow> bytes \<Rightarrow> string \<Rightarrow> ('p world, bytes) leff" where
  "load_secret32_decrypted cr p mk key_type =
     bindM (read_keyfile_bytes p) (\<lambda>buf. liftR (open_secret32 cr mk key_type buf))"

definition load_bytes_decrypted :: "crates \<Rightarrow> path \<Rightarrow> bytes \<Rightarrow> string \<Rightarrow> ('p world, bytes) leff" where
  "load_bytes_decrypted cr p mk key_type =
     bindM (read_keyfile_bytes p) (\<lambda>buf. liftR (open_bytes cr mk key_type buf))"

definition rewrap_keyfile_dek_to_bytes :: "crates \<Rightarrow> path \<Rightarrow> bytes \<Rightarrow> bytes \<Rightarrow> string \<Rightarrow> ('p world, bytes) leff" where
  "rewrap_keyfile_dek_to_bytes cr p old_mk new_mk key_type =
     bindM (read_keyfile_bytes p) (\<lambda>buf. rewrap_bytes cr old_mk new_mk key_type buf)"

definition rewrap_keyfile_dek :: "crates \<Rightarrow> path \<Rightarrow> bytes \<Rightarrow> bytes \<Rightarrow> string \<Rightarrow> ('p world, unit) leff" where
  "rewrap_keyfile_dek cr p old_mk new_mk key_type =
     bindM (rewrap_keyfile_dek_to_bytes cr p old_mk new_mk key_type) (\<lambda>out. write_secure cr p out)"

section \<open>Temporary names\<close>

definition is_tmp :: "path \<Rightarrow> bool" where
  "is_tmp q = (case extension q of None \<Rightarrow> False | Some e \<Rightarrow> take 4 e = ''tmp-'')"

text \<open>A path that can be a target: it has a file name, and not that of a temporary file.\<close>

definition target_path :: "path \<Rightarrow> bool" where
  "target_path p \<longleftrightarrow> p \<noteq> [] \<and> last p \<noteq> [] \<and> \<not> is_tmp p"

lemma split_ext_snoc:
  "stem \<noteq> [] \<Longrightarrow> e \<noteq> [] \<Longrightarrow> CHR ''.'' \<notin> set e \<Longrightarrow> split_ext (stem @ ''.'' @ e) = (stem, Some e)"
proof -
  assume a: "stem \<noteq> []" "e \<noteq> []" "CHR ''.'' \<notin> set e"
  have t: "takeWhile (\<lambda>c. c \<noteq> CHR ''.'') (rev e @ CHR ''.'' # rev stem) = rev e"
    and d: "dropWhile (\<lambda>c. c \<noteq> CHR ''.'') (rev e @ CHR ''.'' # rev stem) = CHR ''.'' # rev stem"
    by (subst takeWhile_append2 dropWhile_append2; use a(3) in auto)+
  have "stem @ CHR ''.'' # e \<noteq> ''..''"
    using a by (cases stem; cases "tl stem"; cases e) auto
  then show ?thesis using a t d by (simp add: split_ext_def Let_def)
qed

lemma stem_not_empty: "name \<noteq> [] \<Longrightarrow> fst (split_ext name) \<noteq> []"
  by (auto simp: split_ext_def Let_def)

lemma hex_char_no_dot: "d < 16 \<Longrightarrow> hex_char d \<noteq> CHR ''.''"
proof
  assume d: "d < 16" and eq: "hex_char d = CHR ''.''"
  have "(of_char (hex_char d) :: nat) = (if d < 10 then 48 + d else 87 + d)" using d by simp
  moreover have "(of_char (CHR ''.'') :: nat) = 46" by simp
  ultimately show False using eq by (simp del: hex_char.simps split: if_splits)
qed

lemma show_hex_no_dot: "CHR ''.'' \<notin> set (show_hex n)"
proof (induction n rule: show_hex.induct)
  case (1 n)
  then show ?case
    using hex_char_no_dot [of n] hex_char_no_dot [of "n mod 16"]
    by (subst show_hex.simps) (auto simp del: hex_char.simps)
qed

lemma hex_encode_no_dot: "hex_ok cr \<Longrightarrow> CHR ''.'' \<notin> set (hex_encode cr bs)"
  using hex_encode_digits [of cr bs] by (auto simp: lower_hex_digits_def)

lemma tmp_path_is_tmp:
  assumes "hex_ok cr" and "p \<noteq> []" and "last p \<noteq> []"
  shows "is_tmp (tmp_path cr p i s x)" and "tmp_path cr p i s x \<noteq> []"
    and "length (tmp_path cr p i s x) = length p" and "butlast (tmp_path cr p i s x) = butlast p"
proof -
  let ?e = "''tmp-'' @ show_hex i @ ''-'' @ show_hex (unat s) @ ''-'' @ hex_encode cr x"
  have e: "CHR ''.'' \<notin> set ?e"
    using hex_encode_no_dot [OF assms(1)] show_hex_no_dot by simp
  have "last (tmp_path cr p i s x) = fst (split_ext (last p)) @ ''.'' @ ?e"
    using assms(2) by (simp add: tmp_path_def with_extension_def)
  then have "split_ext (last (tmp_path cr p i s x)) = (fst (split_ext (last p)), Some ?e)"
    using split_ext_snoc [OF stem_not_empty [OF assms(3)] _ e] by simp
  moreover show ne: "tmp_path cr p i s x \<noteq> []" and "length (tmp_path cr p i s x) = length p"
      and "butlast (tmp_path cr p i s x) = butlast p"
    using assms(2) by (simp_all add: tmp_path_def with_extension_def)
  ultimately show "is_tmp (tmp_path cr p i s x)"
    by (simp add: is_tmp_def extension_def)
qed

lemma tmp_path_not_target: "hex_ok cr \<Longrightarrow> target_path p \<Longrightarrow> tmp_path cr p i s x \<noteq> p"
  using tmp_path_is_tmp(1) [of cr p i s x] by (auto simp: target_path_def)

section \<open>Atomic replacement\<close>

text \<open>What a writer may have done to a tree \<open>B\<close> besides its target \<open>p\<close>: nothing that existed is
  touched; what is new is a private directory above the target or a private temporary file.\<close>

definition allowed :: "(path \<rightharpoonup> node) \<Rightarrow> path \<Rightarrow> path \<Rightarrow> node option \<Rightarrow> bool" where
  "allowed B p q n = (case B q of
     Some n' \<Rightarrow> n = Some n'
   | None \<Rightarrow> n = None
       \<or> strict_prefix q p \<and> n = Some (Dir 0x1c0)
       \<or> is_tmp q \<and> butlast q = butlast p \<and> (\<exists>d. n = Some (File 0x180 d)))"

definition frame :: "(path \<rightharpoonup> node) \<Rightarrow> path \<Rightarrow> nodes \<Rightarrow> bool" where
  "frame B p ns \<longleftrightarrow> (\<forall>q. q \<noteq> p \<longrightarrow> allowed B p q (map_of ns q))"

definition untouched :: "(path \<rightharpoonup> node) \<Rightarrow> path \<Rightarrow> nodes \<Rightarrow> bool" where
  "untouched B p ns \<longleftrightarrow> frame B p ns \<and> map_of ns p = B p"

definition tmp_holds :: "(path \<rightharpoonup> node) \<Rightarrow> path \<Rightarrow> path \<Rightarrow> bytes \<Rightarrow> nodes \<Rightarrow> bool" where
  "tmp_holds B p t data ns \<longleftrightarrow>
     untouched B p ns \<and> t \<noteq> p \<and> t \<noteq> [] \<and> length t = length p \<and> butlast t = butlast p \<and> is_tmp t \<and> B t = None
     \<and> map_of ns t = Some (File 0x180 data)"

lemma frame_update: "frame B p ns \<Longrightarrow> allowed B p q (Some n) \<Longrightarrow> frame B p (AList.update q n ns)"
  by (simp add: frame_def)

lemma frame_delete: "frame B p ns \<Longrightarrow> allowed B p q None \<Longrightarrow> frame B p (AList.delete q ns)"
  by (simp add: frame_def)

lemma frame_dir:
  assumes "frame B p ns" and "strict_prefix d p" and "map_of ns d = None"
  shows "frame B p (AList.update d (Dir 0x1c0) ns)"
proof (rule frame_update [OF assms(1)])
  have "d \<noteq> p" using assms(2) by auto
  then have "allowed B p d None" using assms(1,3) by (auto simp: frame_def dest: spec [of _ d])
  then show "allowed B p d (Some (Dir 0x1c0))"
    using assms(2) by (auto simp: allowed_def split: option.splits)
qed

lemma frame_tmp:
  assumes "frame B p ns" and "B t = None" and "is_tmp t" and "butlast t = butlast p"
  shows "frame B p (AList.update t (File 0x180 d) ns)" and "frame B p (AList.delete t ns)"
  using assms by (auto intro!: frame_update frame_delete simp: allowed_def)

lemma frame_target: "frame B p (AList.update p n ns) \<longleftrightarrow> frame B p ns"
  by (simp add: frame_def)

lemma ensure_private_dir_untouched:
  assumes "strict_prefix d p"
  shows "keeps (\<lambda>w. untouched B p (nodes w)) (ensure_private_dir d)"
proof -
  have "keeps (\<lambda>w. untouched B p (nodes w)) (create_dir_all 0x1c0 d)"
  proof (rule keeps_create_dir_all [OF tick_free_nodes])
    fix w d'
    assume "untouched B p (nodes w)" "prefix d' d" "map_of (nodes w) d' = None"
    moreover have "strict_prefix d' p" using assms \<open>prefix d' d\<close> by (meson prefix_order.le_less_trans)
    ultimately show "untouched B p (nodes (w\<lparr>nodes := AList.update d' (Dir 0x1c0) (nodes w)\<rparr>))"
      by (auto simp: untouched_def frame_dir)
  qed
  then show ?thesis
    unfolding ensure_private_dir_def symlink_metadata_def
    by (intro keeps_bind keeps_tryM keeps_query tick_free_nodes)
       (auto split: sum.split node.split intro!: keeps_leaf keeps_mapM_err)
qed

lemma ensure_parent_untouched:
  assumes "p \<noteq> []"
  shows "keeps (\<lambda>w. untouched B p (nodes w)) (ensure_parent p)"
proof -
  have "strict_prefix (butlast p) p"
    using assms by (metis append_butlast_last_id strict_prefix_def prefixI append_self_conv not_Cons_self2)
  then show ?thesis
    using assms ensure_private_dir_untouched by (simp add: ensure_parent_def parent_of_def)
qed

lemma triple_create_new:
  assumes "tick_free P"
    and "\<And>w. P w \<Longrightarrow> map_of (nodes w) t = None \<Longrightarrow> Q (w\<lparr>nodes := AList.update t (File mode []) (nodes w)\<rparr>)"
  shows "triple P (create_new t mode) (\<lambda>_. Q) (\<lambda>_. P) P"
  unfolding create_new_def
  by (rule triple_update_fs [OF assms(1)]) (auto intro: assms(2) split: option.splits)

lemma keeps_fetch_tmp_seq: "tick_free P \<Longrightarrow> keeps P fetch_tmp_seq"
  by (auto simp: triple_def fetch_tmp_seq_def tick_free_def)

lemma keeps_get_pid: "keeps P get_pid"
  by (auto simp: triple_def get_pid_def)

lemma tmp_attempts_holds:
  assumes "hex_ok cr" and "target_path p"
  shows "triple (\<lambda>w :: 'p world. untouched B p (nodes w)) (tmp_attempts cr n p)
    (\<lambda>t w. tmp_holds B p t [] (nodes w)) (\<lambda>_ w. untouched B p (nodes w)) (\<lambda>w. untouched B p (nodes w))"
proof (induction n)
  case 0
  show ?case by (simp add: triple_fail)
next
  case (Suc n)
  have p: "p \<noteq> []" "last p \<noteq> []" using assms(2) by (simp_all add: target_path_def)
  have new: "triple (\<lambda>w :: 'p world. untouched B p (nodes w)) (create_new t 0x180)
      (\<lambda>_ w. tmp_holds B p t [] (nodes w)) (\<lambda>_ w. untouched B p (nodes w)) (\<lambda>w. untouched B p (nodes w))"
    if "t = tmp_path cr p i s x" for t i s x
  proof (rule triple_create_new [OF tick_free_nodes])
    fix w
    assume u: "untouched B p (nodes w)" and no: "map_of (nodes w) t = None"
    note t = tmp_path_is_tmp [OF assms(1) p, of i s x, folded that]
      tmp_path_not_target [OF assms, of i s x, folded that]
    have "B t = None"
      using u no t(5) by (auto simp: untouched_def frame_def allowed_def dest!: spec [of _ t] split: option.splits)
    then show "tmp_holds B p t [] (nodes (w\<lparr>nodes := AList.update t (File 0x180 []) (nodes w)\<rparr>))"
      using u t frame_tmp(1) [of B p "nodes w" t "[]"] by (simp add: tmp_holds_def untouched_def)
  qed
  have last: "triple (case r of Inr u \<Rightarrow> (\<lambda>w. tmp_holds B p t [] (nodes w)) | Inl e \<Rightarrow> (\<lambda>w :: 'p world. untouched B p (nodes w)))
      (case r of Inr u \<Rightarrow> ret t | Inl e \<Rightarrow> if fst e = AlreadyExists then tmp_attempts cr n p else fail (lithium_io e))
      (\<lambda>t w. tmp_holds B p t [] (nodes w)) (\<lambda>_ w. untouched B p (nodes w)) (\<lambda>w. untouched B p (nodes w))"
    for r :: "io_err + unit" and t
    using Suc by (cases r) (auto intro: triple_ret triple_fail)
  have step: "triple (\<lambda>w :: 'p world. untouched B p (nodes w))
      (bindM (tryM (create_new (tmp_path cr p i s x) 0x180)) (\<lambda>r. case r of Inr u \<Rightarrow> ret (tmp_path cr p i s x)
        | Inl e \<Rightarrow> if fst e = AlreadyExists then tmp_attempts cr n p else fail (lithium_io e)))
      (\<lambda>t w. tmp_holds B p t [] (nodes w)) (\<lambda>_ w. untouched B p (nodes w)) (\<lambda>w. untouched B p (nodes w))"
    for i s x
    by (rule triple_bind [OF triple_tryM last]) (use new [OF refl] in simp)
  show ?case
    unfolding tmp_attempts.simps Let_def
    by (intro triple_bind [OF keeps_random_fixed] triple_bind [OF keeps_fetch_tmp_seq]
        triple_bind [OF keeps_get_pid] tick_free_nodes step)
qed

lemma write_all_holds:
  "triple (\<lambda>w. tmp_holds B p t [] (nodes w)) (write_all t data)
    (\<lambda>_ w. tmp_holds B p t data (nodes w)) (\<lambda>_ w. \<exists>d. tmp_holds B p t d (nodes w)) (\<lambda>w. \<exists>d. tmp_holds B p t d (nodes w))"
proof -
  have "tmp_holds B p t d (append_file t d ns)" if "tmp_holds B p t [] ns" for d ns
    using that by (auto simp: tmp_holds_def untouched_def append_file_def frame_tmp)
  then show ?thesis
    by (auto simp: triple_def write_all_def Let_def split: option.splits fault.splits)
qed

lemma tmp_holds_remove:
  "triple (\<lambda>w. \<exists>d. tmp_holds B p t d (nodes w)) (remove_file t)
    (\<lambda>_ w. untouched B p (nodes w)) (\<lambda>_ w. untouched B p (nodes w)) (\<lambda>w. untouched B p (nodes w))"
proof -
  have "triple (\<lambda>w. \<exists>d. tmp_holds B p t d (nodes w)) (remove_file t)
      (\<lambda>_ w. untouched B p (nodes w)) (\<lambda>_ w. \<exists>d. tmp_holds B p t d (nodes w)) (\<lambda>w. \<exists>d. tmp_holds B p t d (nodes w))"
    unfolding remove_file_def
  proof (rule triple_update_fs)
    fix w and ns
    assume "\<exists>d. tmp_holds B p t d (nodes w)"
      and "(case lookup_node (nodes w) t of Inl k \<Rightarrow> Inl k | Inr (Dir m) \<Rightarrow> Inl IsADirectory
            | Inr n \<Rightarrow> Inr (AList.delete t (nodes w))) = Inr ns"
    then show "untouched B p (nodes (w\<lparr>nodes := ns\<rparr>))"
      by (auto simp: tmp_holds_def untouched_def frame_tmp split: sum.splits node.splits)
  qed (simp add: tick_free_def)
  then show ?thesis by (rule triple_conseq) (auto simp: tmp_holds_def)
qed

lemma fill_tmp_holds:
  "triple (\<lambda>w. tmp_holds B p t [] (nodes w)) (fill_tmp t data)
    (\<lambda>_ w. tmp_holds B p t data (nodes w)) (\<lambda>_ w. untouched B p (nodes w)) (\<lambda>w. untouched B p (nodes w))"
proof -
  let ?H = "\<lambda>w. \<exists>d. tmp_holds B p t d (nodes w)"
  let ?R = "\<lambda>r w. case r of Inr u \<Rightarrow> tmp_holds B p t data (nodes w) | Inl (e :: lithium_error) \<Rightarrow> ?H w"
  have sync: "triple (\<lambda>w. tmp_holds B p t data (nodes w)) (mapM_err lithium_io sync_all)
      (\<lambda>_ w. tmp_holds B p t data (nodes w)) (\<lambda>_. ?H) ?H"
    unfolding sync_all_def
    by (rule triple_mapM_err, rule triple_conseq [OF keeps_query [OF tick_free_nodes [of "tmp_holds B p t data"]]])
       auto
  have wr: "triple (\<lambda>w. tmp_holds B p t [] (nodes w))
      (bindM (mapM_err lithium_io (write_all t data)) (\<lambda>_. mapM_err lithium_io sync_all))
      (\<lambda>_ w. tmp_holds B p t data (nodes w)) (\<lambda>_. ?H) ?H"
    by (rule triple_bind [OF triple_mapM_err [OF write_all_holds] sync])
  have fin: "triple (?R r) (case r of Inr u \<Rightarrow> ret () | Inl e \<Rightarrow> bindM (ignoreM (remove_file t)) (\<lambda>_. fail e))
      (\<lambda>_ w. tmp_holds B p t data (nodes w)) (\<lambda>_ w. untouched B p (nodes w)) (\<lambda>w. untouched B p (nodes w))" for r
  proof (cases r)
    case (Inl e)
    show ?thesis
      unfolding Inl sum.case
      by (rule triple_bind [OF triple_ignoreM [OF tmp_holds_remove]], rule triple_fail)
  qed (auto intro: triple_ret)
  show ?thesis
    unfolding fill_tmp_def
    by (rule triple_bind [OF _ fin], rule triple_tryM, rule triple_conseq [OF wr])
       (auto simp: tmp_holds_def)
qed

text \<open>The target has been replaced, and can be reached.\<close>

definition replaced :: "(path \<rightharpoonup> node) \<Rightarrow> path \<Rightarrow> bytes \<Rightarrow> nodes \<Rightarrow> bool" where
  "replaced B p data ns \<longleftrightarrow> frame B p ns \<and> lookup_node ns p = Inr (File 0x180 data)"

lemma replaced_map: "replaced B p data ns \<Longrightarrow> p \<noteq> [] \<Longrightarrow> map_of ns p = Some (File 0x180 data)"
  by (simp add: replaced_def lookup_node_iff)

lemma walk_err_same_level:
  "length t = length p \<Longrightarrow> walk_err (AList.update p n (AList.delete t ns)) p = walk_err ns p"
  "walk_err (AList.update p n ns) p = walk_err ns p"
  "length t = length p \<Longrightarrow> walk_err (AList.delete t ns) p = walk_err ns p"
  by (rule walk_err_cong; auto simp: fun_upd_def dest: arg_cong [of _ _ length])+

lemma rename_holds:
  "triple (\<lambda>w. tmp_holds B p t data (nodes w)) (rename_file t p)
    (\<lambda>_ w. replaced B p data (nodes w))
    (\<lambda>_ w. tmp_holds B p t data (nodes w)) (\<lambda>w. tmp_holds B p t data (nodes w))"
  unfolding rename_file_def
proof (rule triple_update_fs [OF tick_free_nodes])
  fix w ns
  assume h: "tmp_holds B p t data (nodes w)"
    and "(case lookup_node (nodes w) t of Inl k \<Rightarrow> Inl k | Inr n \<Rightarrow> (case parent_err (nodes w) p of
          Some k \<Rightarrow> Inl k | None \<Rightarrow> (case map_of (nodes w) p of Some (Dir m) \<Rightarrow> Inl IsADirectory
        | _ \<Rightarrow> Inr (AList.update p n (AList.delete t (nodes w)))))) = Inr ns"
  then obtain n where n: "lookup_node (nodes w) t = Inr n" and pe: "parent_err (nodes w) p = None"
      and ns: "ns = AList.update p n (AList.delete t (nodes w))"
    by (auto split: sum.splits option.splits node.splits)
  have "n = File 0x180 data" using h lookup_node_SomeD [OF n] by (simp add: tmp_holds_def)
  then show "replaced B p data (nodes (w\<lparr>nodes := ns\<rparr>))"
    using h pe
    by (simp add: ns frame_target frame_tmp tmp_holds_def untouched_def replaced_def lookup_node_iff
        parent_err_None_iff walk_err_same_level)
qed

lemma keeps_sync_parent: "tick_free P \<Longrightarrow> keeps P (sync_parent_best_effort p)"
  unfolding sync_parent_best_effort_def open_dir_def sync_all_def
  by (auto split: option.split intro!: keeps_leaf keeps_ignoreM keeps_bind keeps_query)

lemma sync_parent_no_fail: "tick_free P \<Longrightarrow> triple P (sync_parent_best_effort p) (\<lambda>_. P) (\<lambda>_ _. False) P"
  unfolding sync_parent_best_effort_def open_dir_def sync_all_def
  by (auto split: option.split intro!: triple_ret triple_ignoreM keeps_bind keeps_query)

lemma write_secure_spec:
  assumes "hex_ok cr" and "target_path p"
  shows "triple (\<lambda>w. untouched B p (nodes w)) (write_secure cr p data)
    (\<lambda>_ w. replaced B p data (nodes w))
    (\<lambda>_ w. untouched B p (nodes w))
    (\<lambda>w. frame B p (nodes w) \<and> map_of (nodes w) p \<in> {B p, Some (File 0x180 data)})"
    (is "triple ?U _ (\<lambda>_. ?N) _ ?C")
proof -
  have weaken: "triple A m R (\<lambda>_. ?U) ?U \<Longrightarrow> triple A m R (\<lambda>_. ?U) ?C" for A m R
    by (erule triple_conseq) (auto simp: untouched_def)
  have p: "p \<noteq> []" using assms(2) by (simp add: target_path_def)
  show ?thesis
    unfolding write_secure_def create_private_tmp_def
  proof (rule triple_bind [OF weaken [OF ensure_parent_untouched [OF p]]],
      rule triple_bind [OF weaken [OF tmp_attempts_holds [OF assms]]],
      rule triple_bind [OF weaken [OF fill_tmp_holds]])
    fix t u
    have "triple (\<lambda>w. tmp_holds B p t data (nodes w)) (mapM_err lithium_io (rename_file t p))
        (\<lambda>_. ?N) (\<lambda>_. ?U) ?C"
      by (rule triple_mapM_err, rule triple_conseq [OF rename_holds]) (auto simp: tmp_holds_def untouched_def)
    moreover have "triple ?N (sync_parent_best_effort p) (\<lambda>_. ?N) (\<lambda>_. ?U) ?C"
      by (rule triple_conseq [OF sync_parent_no_fail [where P = ?N]])
         (use p in \<open>auto simp: tick_free_def replaced_def lookup_node_iff\<close>)
    ultimately show "triple (\<lambda>w. tmp_holds B p t data (nodes w))
        (bindM (mapM_err lithium_io (rename_file t p)) (\<lambda>_. sync_parent_best_effort p)) (\<lambda>_. ?N) (\<lambda>_. ?U) ?C"
      by (rule triple_bind)
  qed
qed

text \<open>C2. Replacing a file is atomic under every pattern of system-call failures and at every point of
  process death: on success the target is the complete new content in a file of mode \<open>0o600\<close>; on
  an error the target is what it was; after a crash it is one or the other.  Nothing else that existed
  is touched, and all that can be left behind is private directories and private temporary files.\<close>

theorem write_secure_is_atomic:
  assumes "hex_ok cr" and "target_path p" and "B = map_of (nodes w)"
  shows "case write_secure cr p data w of
      (Done _, w') \<Rightarrow> frame B p (nodes w') \<and> map_of (nodes w') p = Some (File 0x180 data)
    | (Fail _, w') \<Rightarrow> frame B p (nodes w') \<and> map_of (nodes w') p = B p
    | (Crash, w') \<Rightarrow> frame B p (nodes w') \<and> map_of (nodes w') p \<in> {B p, Some (File 0x180 data)}"
proof -
  have p: "p \<noteq> []" using assms(2) by (simp add: target_path_def)
  have "untouched B p (nodes w)"
    using assms(3) by (auto simp: untouched_def frame_def allowed_def split: option.splits)
  then have "case write_secure cr p data w of
      (Done _, w') \<Rightarrow> replaced B p data (nodes w')
    | (Fail _, w') \<Rightarrow> untouched B p (nodes w')
    | (Crash, w') \<Rightarrow> frame B p (nodes w') \<and> map_of (nodes w') p \<in> {B p, Some (File 0x180 data)}"
    by (rule tripleD [OF write_secure_spec [OF assms(1,2)]])
  then show ?thesis
    using p by (auto simp: untouched_def replaced_def lookup_node_iff split: prod.splits outcome.splits)
qed

lemmas keyfile_io_defs = ensure_parent_def ensure_private_dir_def fetch_tmp_seq_def get_pid_def tmp_path_def
  with_extension_def fill_tmp_def sync_parent_best_effort_def

lemma target_path_example: "target_path [''ks'', ''a.keyf'']"
  by (simp add: target_path_def is_tmp_def extension_def split_ext_def Let_def)

theorem write_secure_is_atomic_witness:
  "\<exists>w' :: unit world. hex_ok sample_crates \<and> target_path [''ks'', ''a.keyf'']
    \<and> write_secure sample_crates [''ks'', ''a.keyf''] [7]
        ((clean_world [([''ks''], Dir 0x1c0)])\<lparr>faults := (\<lambda>op n. if op = OpRename then Some FCrash else None)\<rparr>)
        = (Crash, w')
    \<and> map_of (nodes w') [''ks'', ''a.keyf''] \<in> {None, Some (File 0x180 [7])}"
proof -
  let ?w = "(clean_world [([''ks''], Dir 0x1c0)])\<lparr>faults := (\<lambda>op n. if op = OpRename then Some FCrash else None)\<rparr>"
  have "tmp_attempts cr 8 p = tmp_attempts cr (Suc 7) p" for cr p by simp
  note unroll = this [unfolded tmp_attempts.simps]
  have crash: "fst (write_secure sample_crates [''ks'', ''a.keyf''] [7] ?w) = Crash"
    by (simp add: write_secure_def create_private_tmp_def unroll run_defs fs_defs keyfile_io_defs Let_def)
  then obtain w' where run: "write_secure sample_crates [''ks'', ''a.keyf''] [7] ?w = (Crash, w')"
    by (metis prod.collapse)
  show ?thesis
    using run sample_hex_ok target_path_example
      write_secure_is_atomic [OF sample_hex_ok target_path_example refl, where data = "[7]" and w = ?w]
    by auto
qed

section \<open>Creation without replacement\<close>

text \<open>The target has been linked; the temporary name is still there.\<close>

definition linked :: "(path \<rightharpoonup> node) \<Rightarrow> path \<Rightarrow> path \<Rightarrow> bytes \<Rightarrow> nodes \<Rightarrow> bool" where
  "linked B p t data ns \<longleftrightarrow> replaced B p data ns \<and> B p = None \<and> t \<noteq> p \<and> length t = length p \<and> butlast t = butlast p
     \<and> is_tmp t \<and> B t = None"

lemma hard_link_holds:
  "triple (\<lambda>w. tmp_holds B p t data (nodes w)) (hard_link t p)
    (\<lambda>_ w. linked B p t data (nodes w))
    (\<lambda>_ w. tmp_holds B p t data (nodes w)) (\<lambda>w. tmp_holds B p t data (nodes w))"
  unfolding hard_link_def
proof (rule triple_update_fs [OF tick_free_nodes])
  fix w ns
  assume h: "tmp_holds B p t data (nodes w)"
    and "(case lookup_node (nodes w) t of Inl k \<Rightarrow> Inl k | Inr n \<Rightarrow> (case parent_err (nodes w) p of
          Some k \<Rightarrow> Inl k | None \<Rightarrow> (case map_of (nodes w) p of Some _ \<Rightarrow> Inl AlreadyExists
        | None \<Rightarrow> Inr (AList.update p n (nodes w))))) = Inr ns"
  then obtain n where n: "lookup_node (nodes w) t = Inr n" and pe: "parent_err (nodes w) p = None"
      and no: "map_of (nodes w) p = None" and ns: "ns = AList.update p n (nodes w)"
    by (auto split: sum.splits option.splits)
  have "n = File 0x180 data" using h lookup_node_SomeD [OF n] by (simp add: tmp_holds_def)
  then show "linked B p t data (nodes (w\<lparr>nodes := ns\<rparr>))"
    using h pe no
    by (auto simp: ns frame_target tmp_holds_def untouched_def linked_def replaced_def lookup_node_iff
        parent_err_None_iff walk_err_same_level)
qed

lemma linked_remove:
  "triple (\<lambda>w. linked B p t data (nodes w)) (remove_file t)
    (\<lambda>_ w. linked B p t data (nodes w)) (\<lambda>_ w. linked B p t data (nodes w)) (\<lambda>w. linked B p t data (nodes w))"
  unfolding remove_file_def
proof (rule triple_update_fs [OF tick_free_nodes])
  fix w and ns
  assume h: "linked B p t data (nodes w)"
    and "(case lookup_node (nodes w) t of Inl k \<Rightarrow> Inl k | Inr (Dir m) \<Rightarrow> Inl IsADirectory
          | Inr n \<Rightarrow> Inr (AList.delete t (nodes w))) = Inr ns"
  then have ns: "ns = AList.delete t (nodes w)" by (auto split: sum.splits node.splits)
  have "lookup_node (AList.delete t (nodes w)) p = lookup_node (nodes w) p"
    using h by (auto simp: linked_def lookup_node_def walk_err_same_level split: option.splits)
  then show "linked B p t data (nodes (w\<lparr>nodes := ns\<rparr>))"
    using h by (simp add: ns linked_def replaced_def frame_tmp)
qed

lemma write_secure_new_spec:
  assumes "hex_ok cr" and "target_path p"
  shows "triple (\<lambda>w. untouched B p (nodes w)) (write_secure_new cr p data)
    (\<lambda>_ w. replaced B p data (nodes w) \<and> B p = None)
    (\<lambda>_ w. untouched B p (nodes w))
    (\<lambda>w. untouched B p (nodes w) \<or> replaced B p data (nodes w) \<and> B p = None)"
    (is "triple ?U _ (\<lambda>_. ?N) _ ?C")
proof -
  have weaken: "triple A m R (\<lambda>_. ?U) ?U \<Longrightarrow> triple A m R (\<lambda>_. ?U) ?C" for A m R
    by (erule triple_conseq) auto
  have p: "p \<noteq> []" using assms(2) by (simp add: target_path_def)
  let ?L = "\<lambda>t r w. case r of Inr u \<Rightarrow> linked B p t data (nodes w) | Inl (e :: io_err) \<Rightarrow> tmp_holds B p t data (nodes w)"
  let ?M = "\<lambda>r w. case r of Inr u \<Rightarrow> ?N w | Inl (e :: io_err) \<Rightarrow> ?U w"
  have link: "triple (\<lambda>w. tmp_holds B p t data (nodes w)) (tryM (hard_link t p)) (?L t) (\<lambda>_. ?U) ?C" for t
    by (rule triple_tryM, rule triple_conseq [OF hard_link_holds]) (auto simp: tmp_holds_def)
  have rm: "triple (?L t r) (ignoreM (remove_file t)) (\<lambda>_. ?M r) (\<lambda>_. ?U) ?C" for t r
  proof (cases r)
    case (Inl e)
    have "triple (\<lambda>w. tmp_holds B p t data (nodes w)) (remove_file t) (\<lambda>_. ?U) (\<lambda>_. ?U) ?C"
      by (rule triple_conseq [OF tmp_holds_remove]) auto
    then show ?thesis unfolding Inl sum.case by (rule triple_ignoreM)
  next
    case (Inr u)
    have "triple (\<lambda>w. linked B p t data (nodes w)) (remove_file t) (\<lambda>_. ?N) (\<lambda>_. ?N) ?C"
      by (rule triple_conseq [OF linked_remove]) (auto simp: linked_def)
    then show ?thesis unfolding Inr sum.case by (rule triple_ignoreM)
  qed
  have res: "triple (?M r) (liftR (map_err lithium_io r)) (\<lambda>_. ?N) (\<lambda>_. ?U) ?C" for r
    by (rule triple_liftR; cases r) auto
  have sync: "triple ?N (sync_parent_best_effort p) (\<lambda>_. ?N) (\<lambda>_. ?U) ?C"
    by (rule triple_conseq [OF sync_parent_no_fail [where P = ?N]]) (auto simp: tick_free_def)
  show ?thesis
    unfolding write_secure_new_def create_private_tmp_def
    by (rule triple_bind [OF weaken [OF ensure_parent_untouched [OF p]]],
        rule triple_bind [OF weaken [OF tmp_attempts_holds [OF assms]]],
        rule triple_bind [OF weaken [OF fill_tmp_holds]],
        rule triple_bind [OF link], rule triple_bind [OF rm], rule triple_bind [OF res sync])
qed

text \<open>C24. Creating a keyfile never replaces one: whatever fails and wherever the process dies, an
  existing target keeps its content; success means the target did not exist and now holds exactly
  the new content; on an error it still does not exist.\<close>

theorem write_secure_new_never_overwrites:
  assumes "hex_ok cr" and "target_path p" and "B = map_of (nodes w)"
  shows "case write_secure_new cr p data w of
      (Done _, w') \<Rightarrow> frame B p (nodes w') \<and> B p = None \<and> map_of (nodes w') p = Some (File 0x180 data)
    | (Fail _, w') \<Rightarrow> frame B p (nodes w') \<and> map_of (nodes w') p = B p
    | (Crash, w') \<Rightarrow> frame B p (nodes w')
        \<and> (map_of (nodes w') p = B p \<or> B p = None \<and> map_of (nodes w') p = Some (File 0x180 data))"
proof -
  have p: "p \<noteq> []" using assms(2) by (simp add: target_path_def)
  have "untouched B p (nodes w)"
    using assms(3) by (auto simp: untouched_def frame_def allowed_def split: option.splits)
  from tripleD [OF write_secure_new_spec [OF assms(1,2)] this, of data]
  show ?thesis
    using p by (auto simp: untouched_def replaced_def lookup_node_iff split: prod.splits outcome.splits)
qed

theorem write_secure_new_never_overwrites_witness:
  "hex_ok sample_crates \<and> target_path [''ks'', ''a.keyf'']
   \<and> map_of (nodes (snd (write_secure_new sample_crates [''ks'', ''a.keyf''] [7]
        (clean_world [([''ks''], Dir 0x1c0), ([''ks'', ''a.keyf''], File 0x180 [1])])))) [''ks'', ''a.keyf'']
      = Some (File 0x180 [1])"
  using sample_hex_ok target_path_example
    write_secure_new_never_overwrites [OF sample_hex_ok target_path_example refl, where data = "[7]"
      and w = "clean_world [([''ks''], Dir 0x1c0), ([''ks'', ''a.keyf''], File 0x180 [1])]"]
  by (auto split: prod.splits outcome.splits)

section \<open>Reading back\<close>

lemma read_keyfile_bytes_faultless:
  assumes "faultless w" and "lookup_node (nodes w) p = Inr (File m d)"
  shows "read_keyfile_bytes p w = (case check_keyfile_metadata (File m d) of
     Inl e \<Rightarrow> (Fail e, w\<lparr>ticks := ticks w + 2\<rparr>) | Inr _ \<Rightarrow> (Done d, w\<lparr>ticks := ticks w + 3\<rparr>))"
  using assms
  by (auto simp: read_keyfile_bytes_def open_nofollow_def fstat_def read_limited_def run_defs
      query_faultless check_keyfile_metadata_def eval_nat_numeral split: if_splits)

lemma keeps_read_keyfile_bytes: "tick_free P \<Longrightarrow> keeps P (read_keyfile_bytes p)"
  unfolding read_keyfile_bytes_def open_nofollow_def fstat_def read_limited_def
  by (intro keeps_bind keeps_mapM_err keeps_query keeps_leaf)

lemma read_keyfile_bytes_spec:
  assumes "tick_free P"
  shows "triple P (read_keyfile_bytes p)
    (\<lambda>d w. P w \<and> (\<exists>m. lookup_node (nodes w) p = Inr (File m d) \<and> m AND 0x3f = 0 \<and> length d \<le> MAX_KEYFILE_SIZE))
    (\<lambda>_. P) P"
proof -
  let ?A = "\<lambda>h w. P w \<and> lookup_node (nodes w) p = Inr h"
  have tf: "tick_free (?A h)" for h using assms by (auto simp: tick_free_def)
  have op: "triple P (mapM_err lithium_io (open_nofollow p)) ?A (\<lambda>_. P) P"
    unfolding open_nofollow_def
    by (rule triple_mapM_err, rule triple_conseq [OF triple_query [OF assms]])
       (auto split: sum.splits node.splits)
  have st: "triple (?A h) (mapM_err lithium_io (fstat h)) (\<lambda>h' w. ?A h w \<and> h' = h) (\<lambda>_. P) P" for h
    unfolding fstat_def by (rule triple_mapM_err, rule triple_conseq [OF triple_query [OF tf]]) auto
  have ck: "triple (\<lambda>w. ?A h w \<and> h' = h) (liftR (check_keyfile_metadata h'))
      (\<lambda>_ w. ?A h w \<and> check_keyfile_metadata h = Inr ()) (\<lambda>_. P) P" for h h'
    by (rule triple_liftR) auto
  have rd: "triple (\<lambda>w. ?A h w \<and> check_keyfile_metadata h = Inr ()) (mapM_err lithium_io (read_limited h MAX_KEYFILE_SIZE))
      (\<lambda>d w. P w \<and> (\<exists>m. lookup_node (nodes w) p = Inr (File m d) \<and> m AND 0x3f = 0 \<and> length d \<le> MAX_KEYFILE_SIZE))
      (\<lambda>_. P) P" for h
    unfolding read_limited_def
    by (rule triple_mapM_err,
        rule triple_conseq [OF triple_query [where P = "\<lambda>w. ?A h w \<and> check_keyfile_metadata h = Inr ()"]])
       (use tf [of h] in \<open>auto simp: check_keyfile_metadata_def tick_free_def split: node.splits if_splits\<close>)
  show ?thesis
    unfolding read_keyfile_bytes_def
    by (rule triple_bind [OF op], rule triple_bind [OF st], rule triple_bind [OF ck rd])
qed

text \<open>C33. Whatever is read as a keyfile came from a regular file at that very path, not through a
  symbolic link, with no permission for group or others and at most 64 KiB long, and is its whole
  content; reading changes nothing.\<close>

theorem read_keyfile_only_private_files:
  assumes "read_keyfile_bytes p w = (Done d, w')"
  shows "\<exists>m. lookup_node (nodes w) p = Inr (File m d) \<and> m AND 0x3f = 0 \<and> length d \<le> 65536
    \<and> nodes w' = nodes w"
proof -
  have "(nodes w' = nodes w) \<and> (\<exists>m. lookup_node (nodes w') p = Inr (File m d) \<and> m AND 0x3f = 0
      \<and> length d \<le> MAX_KEYFILE_SIZE)"
    by (rule triple_DoneD [OF read_keyfile_bytes_spec [where P = "\<lambda>v. nodes v = nodes w"] refl assms])
       (simp add: tick_free_def)
  then show ?thesis by (auto simp: MAX_KEYFILE_SIZE_def)
qed

theorem read_keyfile_only_private_files_witness:
  "\<exists>d w'. read_keyfile_bytes [''a.keyf''] (clean_world [([''a.keyf''], File 0x180 [1])]) = (Done d, w')
    \<and> (\<exists>m. lookup_node [([''a.keyf''], File 0x180 [1])] [''a.keyf''] = Inr (File m d) \<and> m AND 0x3f = 0)"
proof -
  have run: "read_keyfile_bytes [''a.keyf''] (clean_world [([''a.keyf''], File 0x180 [1])])
      = (Done [1], (clean_world [([''a.keyf''], File 0x180 [1])])\<lparr>ticks := 3\<rparr>)"
    by (subst read_keyfile_bytes_faultless [where m = "0x180" and d = "[1]"])
       (simp_all add: lookup_node_def walk_err_def check_keyfile_metadata_def MAX_KEYFILE_SIZE_def
        clean_world_def faultless_def)
  show ?thesis using run read_keyfile_only_private_files [OF run] by auto
qed

end
