(* ===== verification/KeyFileRuns.thy ===== *)
theory KeyFileRuns
  imports KeyFile
begin

text \<open>
  Runs of the keyfile operations in which no system call fails: reading, the private directory, the
  temporary file and the atomic writer succeed and have exactly their intended effect.  On top of
  these, saving followed by loading is the identity up to the size limit of the reader, and fails
  above it.
\<close>

section \<open>Successful runs\<close>

lemma walk_err_child:
  assumes "lookup_node ns d = Inr (Dir m)" and "d \<noteq> []"
  shows "walk_err ns (d @ [x]) = None"
proof -
  have *: "walk_err ns d = None" "map_of ns d = Some (Dir m)"
    using assms by (simp_all add: lookup_node_iff)
  have "is_dir_node (map_of ns (take i (d @ [x])))" if "i \<in> {1..<length (d @ [x])}" for i
    using * that by (cases "i = length d") (auto simp: walk_err_None_iff)
  then show ?thesis by (auto simp: walk_err_None_iff)
qed

lemma walk_err_update_level: "length t = length p \<Longrightarrow> walk_err (AList.update t n ns) p = walk_err ns p"
  by (rule walk_err_cong) auto

text \<open>The part of the environment that running code does not change.\<close>

definition same_env :: "'p world \<Rightarrow> 'p world \<Rightarrow> bool" where
  "same_env w w' \<longleftrightarrow> faults w' = faults w \<and> rng_fail w' = rng_fail w \<and> rank w' = rank w \<and> pid w' = pid w
     \<and> rng_tape w' = rng_tape w \<and> partial w' = partial w \<and> pstate w' = pstate w \<and> poisoned w' = poisoned w"

lemma same_env_refl [simp]: "same_env w w"
  by (simp add: same_env_def)

lemma same_env_trans: "same_env w w' \<Longrightarrow> same_env w' w'' \<Longrightarrow> same_env w w''"
  by (simp add: same_env_def)

lemma same_env_update [simp]:
  "same_env w (w'\<lparr>ticks := n\<rparr>) \<longleftrightarrow> same_env w w'"
  "same_env w (w'\<lparr>nodes := ns\<rparr>) \<longleftrightarrow> same_env w w'"
  "same_env w (w'\<lparr>rng_pos := i\<rparr>) \<longleftrightarrow> same_env w w'"
  "same_env w (w'\<lparr>tmp_seq := s\<rparr>) \<longleftrightarrow> same_env w w'"
  by (simp_all add: same_env_def)

lemma same_env_faultless: "same_env w w' \<Longrightarrow> faultless w \<Longrightarrow> faultless w'"
  and same_env_live: "same_env w w' \<Longrightarrow> rng_live w \<Longrightarrow> rng_live w'"
  by (simp_all add: same_env_def faultless_def rng_live_def)

lemma ensure_private_dir_ok:
  assumes "faultless w" and "lookup_node (nodes w) d = Inr (Dir m)" and "m AND 0x3f = 0"
  shows "ensure_private_dir d w = (Done (), w\<lparr>ticks := ticks w + 1\<rparr>)"
  using assms by (simp add: ensure_private_dir_def symlink_metadata_def run_defs query_faultless)

lemma tmp_attempts_ok:
  assumes "faultless w" and "rng_live w" and "t = tmp_path cr p (pid w) (tmp_seq w) (rng_draw w 8)"
    and "map_of (nodes w) t = None" and "parent_err (nodes w) t = None"
  shows "tmp_attempts cr (Suc n) p w = (Done t, w\<lparr>rng_pos := rng_pos w + 8, tmp_seq := tmp_seq w + 1,
    ticks := ticks w + 1, nodes := AList.update t (File 0x180 []) (nodes w)\<rparr>)"
  using assms
  by (simp add: run_defs random_fixed_live fetch_tmp_seq_def get_pid_def create_new_def update_fs_faultless Let_def)

lemma fill_tmp_ok:
  assumes "faultless w" and "map_of (nodes w) t = Some (File 0x180 [])"
  shows "fill_tmp t data w = (Done (), w\<lparr>ticks := ticks w + 2, nodes := AList.update t (File 0x180 data) (nodes w)\<rparr>)"
  using assms
  by (simp add: run_defs fill_tmp_def write_all_def sync_all_def query_faultless append_file_def
      faultless_def Let_def)

lemma sync_parent_ok:
  assumes "faultless w"
  shows "\<exists>n. sync_parent_best_effort p w = (Done (), w\<lparr>ticks := n\<rparr>)"
proof (cases "p = []")
  case True
  then show ?thesis
    by (simp add: sync_parent_best_effort_def parent_of_def ret_def) (metis world.surjective world.update_convs(2))
next
  case False
  then show ?thesis
    using assms
    by (cases "follow_links (nodes w) (butlast p)")
       (auto simp: sync_parent_best_effort_def parent_of_def run_defs open_dir_def sync_all_def query_faultless)
qed

lemma write_secure_ok:
  assumes "hex_ok cr" and "target_path p" and "faultless w" and "rng_live w"
    and "lookup_node (nodes w) (butlast p) = Inr (Dir m)" and "m AND 0x3f = 0" and "butlast p \<noteq> []"
    and "\<not> is_dir_node (map_of (nodes w) p)"
    and "map_of (nodes w) (tmp_path cr p (pid w) (tmp_seq w) (rng_draw w 8)) = None"
  obtains w' where "write_secure cr p data w = (Done (), w')" and "same_env w w'"
    and "map_of (nodes w') = (map_of (nodes w))(p \<mapsto> File 0x180 data)"
proof -
  let ?w1 = "w\<lparr>ticks := ticks w + 1\<rparr>"
  define t where "t = tmp_path cr p (pid w) (tmp_seq w) (rng_draw w 8)"
  have p: "p \<noteq> []" "last p \<noteq> []" using assms(2) by (simp_all add: target_path_def)
  have lt: "length t = length p" "t \<noteq> []" "t \<noteq> p" and bt: "butlast t = butlast p"
    using tmp_path_is_tmp [OF assms(1) p] tmp_path_not_target [OF assms(1,2)] p
    by (simp_all add: t_def tmp_path_def with_extension_def)
  have we: "walk_err (nodes w) (butlast p @ [x]) = None" for x
    by (rule walk_err_child [OF assms(5,7)])
  have wp: "walk_err (nodes w) p = None" and wt: "walk_err (nodes w) t = None"
    using we [of "last p"] we [of "last t"] p lt(2) bt by (metis append_butlast_last_id)+
  define w2 where "w2 = ?w1\<lparr>rng_pos := rng_pos ?w1 + 8, tmp_seq := tmp_seq ?w1 + 1,
    ticks := ticks ?w1 + 1, nodes := AList.update t (File 0x180 []) (nodes ?w1)\<rparr>"
  define w3 where "w3 = w2\<lparr>ticks := ticks w2 + 2, nodes := AList.update t (File 0x180 data) (nodes w2)\<rparr>"
  define w4 where "w4 = w3\<lparr>ticks := ticks w3 + 1, nodes := AList.update p (File 0x180 data) (AList.delete t (nodes w3))\<rparr>"
  have fl: "faultless ?w1" "faultless w2" "faultless w3" "faultless w4"
    using assms(3) by (simp_all add: w2_def w3_def w4_def)
  have a: "ensure_parent p w = (Done (), ?w1)"
    using p ensure_private_dir_ok [OF assms(3,5,6)] by (simp add: ensure_parent_def parent_of_def)
  have b: "tmp_attempts cr 8 p ?w1 = (Done t, w2)"
    using tmp_attempts_ok [OF fl(1), of t cr p 7] assms(4,9) wt lt(2)
    by (simp add: w2_def t_def [symmetric] parent_err_None_iff rng_live_def rng_draw_def t_def)
  have c: "fill_tmp t data w2 = (Done (), w3)"
    unfolding w3_def by (rule fill_tmp_ok [OF fl(2)]) (simp add: w2_def)
  have nt: "walk_err (nodes w3) t = None" "walk_err (nodes w3) p = None"
    using wt wp lt(1) by (simp_all add: w3_def w2_def walk_err_update_level)
  have d: "mapM_err lithium_io (rename_file t p) w3 = (Done (), w4)"
    using nt fl(3) assms(8) lt p
    by (auto simp: rename_file_def mapM_err_def update_fs_faultless lookup_node_def parent_err_def w4_def
        w3_def w2_def split: option.splits node.splits)
  obtain n where e: "sync_parent_best_effort p w4 = (Done (), w4\<lparr>ticks := n\<rparr>)"
    using sync_parent_ok [OF fl(4)] by blast
  show thesis
  proof (rule that)
    show "write_secure cr p data w = (Done (), w4\<lparr>ticks := n\<rparr>)"
      using a b c d e by (simp add: write_secure_def create_private_tmp_def bindM_def)
    show "same_env w (w4\<lparr>ticks := n\<rparr>)" by (simp add: w4_def w3_def w2_def)
    show "map_of (nodes (w4\<lparr>ticks := n\<rparr>)) = (map_of (nodes w))(p \<mapsto> File 0x180 data)"
      using assms(9) lt by (auto simp: w4_def w3_def w2_def t_def [symmetric])
  qed
qed

section \<open>Saving and loading\<close>

lemma save_bytes_replaced:
  assumes "hex_ok cr" and "target_path p" and "save_bytes_encrypted cr p mk payload kt w = (Done (), w')"
  obtains data w1 where "encode_encrypted cr mk payload kt w = (Done data, w1)"
    and "lookup_node (nodes w') p = Inr (File 0x180 data)"
proof -
  obtain data w1 where enc: "encode_encrypted cr mk payload kt w = (Done data, w1)"
      and wr: "write_secure cr p data w1 = (Done (), w')"
    using assms(3) by (auto simp: save_bytes_encrypted_def done_iffs)
  have "untouched (map_of (nodes w1)) p (nodes w1)"
    by (auto simp: untouched_def frame_def allowed_def split: option.splits)
  from triple_DoneD [OF write_secure_spec [OF assms(1,2)] this wr] enc
  show thesis by (intro that) (auto simp: replaced_def)
qed

text \<open>C15. A payload of up to 65396 bytes that was saved under a master key and a key type is read back
  under them, whatever faults the save survived.\<close>

theorem saved_payload_loads:
  assumes "hex_ok cr" and "aead_ok cr" and "hkdf_ok cr" and "target_path p" and "length payload \<le> 65396"
    and "save_bytes_encrypted cr p mk payload kt w = (Done (), w')" and "faultless w'"
  shows "\<exists>w''. load_bytes_decrypted cr p mk kt w' = (Done payload, w'') \<and> nodes w'' = nodes w'"
proof -
  obtain data w1 where enc: "encode_encrypted cr mk payload kt w = (Done data, w1)"
      and at: "lookup_node (nodes w') p = Inr (File 0x180 data)"
    by (rule save_bytes_replaced [OF assms(1,4,6)])
  have small: "length payload + 16 < 2 ^ 32" using assms(5) by simp
  note E = encode_encrypted_opens [OF assms(2,3) small enc]
  have "check_keyfile_metadata (File 0x180 data) = Inr ()"
    using E(2) assms(5) by (simp add: check_keyfile_metadata_def MAX_KEYFILE_SIZE_def)
  then show ?thesis
    using read_keyfile_bytes_faultless [OF assms(7) at] E(1)
    by (simp add: load_bytes_decrypted_def bindM_def ret_def)
qed

lemma saves_in_clean_world:
  assumes "length payload < 2 ^ 36"
  obtains w' where "save_bytes_encrypted sample_crates [''ks'', ''a.keyf''] [9] payload ''demo''
      (clean_world [([''ks''], Dir 0x1c0)]) = (Done (), w')" and "faultless w'"
proof -
  let ?w = "clean_world [([''ks''], Dir 0x1c0)]"
  have l: "length ''demo'' < 2 ^ 35" by simp
  obtain buf where enc: "encode_encrypted sample_crates [9] payload ''demo'' ?w
      = (Done buf, ?w\<lparr>rng_pos := 88 + rng_pos ?w\<rparr>)" (is "_ = (_, ?w1)")
    by (rule encode_encrypted_total [OF sample_hkdf_ok sample_aead_total clean_world_live assms l])
  have "lookup_node (nodes ?w1) (butlast [''ks'', ''a.keyf'']) = Inr (Dir 0x1c0)"
    by (simp add: lookup_node_def walk_err_def)
  moreover have "map_of (nodes ?w1) (tmp_path sample_crates [''ks'', ''a.keyf''] (pid ?w1) (tmp_seq ?w1) (rng_draw ?w1 8)) = None"
    by (simp add: tmp_path_def with_extension_def)
  ultimately obtain w' where wr: "write_secure sample_crates [''ks'', ''a.keyf''] buf ?w1 = (Done (), w')"
      and env: "same_env ?w1 w'"
    using write_secure_ok [OF sample_hex_ok target_path_example, of ?w1 "0x1c0" buf] by auto
  show thesis
  proof (rule that)
    show "save_bytes_encrypted sample_crates [''ks'', ''a.keyf''] [9] payload ''demo'' ?w = (Done (), w')"
      using enc wr by (simp add: save_bytes_encrypted_def bindM_def)
    show "faultless w'" by (rule same_env_faultless [OF env]) simp
  qed
qed

theorem saved_payload_loads_witness:
  "\<exists>w' w''. save_bytes_encrypted sample_crates [''ks'', ''a.keyf''] [9] [1, 2, 3] ''demo''
      (clean_world [([''ks''], Dir 0x1c0)]) = (Done (), w')
    \<and> load_bytes_decrypted sample_crates [''ks'', ''a.keyf''] [9] ''demo'' w' = (Done [1, 2, 3], w'')"
proof -
  have l: "length [1, 2, 3 :: u8] < 2 ^ 36" "length [1, 2, 3 :: u8] \<le> 65396" by simp_all
  obtain w' where run: "save_bytes_encrypted sample_crates [''ks'', ''a.keyf''] [9] [1, 2, 3] ''demo''
      (clean_world [([''ks''], Dir 0x1c0)]) = (Done (), w')" "faultless w'"
    by (rule saves_in_clean_world [OF l(1)])
  show ?thesis
    using run saved_payload_loads [OF sample_hex_ok sample_aead_ok sample_hkdf_ok target_path_example l(2) run]
    by blast
qed

text \<open>C38. A larger payload is saved without an error, but the file it leaves can never be read: every
  later load, and with it every rotation over that file, fails with \<open>InvalidLength\<close>.\<close>

theorem oversized_payload_is_unreadable:
  assumes "hex_ok cr" and "aead_ok cr" and "hkdf_ok cr" and "target_path p"
    and "65396 < length payload" and "length payload + 16 < 2 ^ 32"
    and "save_bytes_encrypted cr p mk payload kt w = (Done (), w')" and "faultless w'"
  shows "(\<exists>w''. load_bytes_decrypted cr p mk kt w' = (Fail (invalid_len 65536 (length payload + 140)), w''))
    \<and> (\<exists>w''. rewrap_keyfile_dek_to_bytes cr p mk new_mk kt w' = (Fail (invalid_len 65536 (length payload + 140)), w''))"
proof -
  obtain data w1 where enc: "encode_encrypted cr mk payload kt w = (Done data, w1)"
      and at: "lookup_node (nodes w') p = Inr (File 0x180 data)"
    by (rule save_bytes_replaced [OF assms(1,4,7)])
  note E = encode_encrypted_opens [OF assms(2,3,6) enc]
  have "check_keyfile_metadata (File 0x180 data) = Inl (invalid_len 65536 (length payload + 140))"
    using E(2) assms(5) by (simp add: check_keyfile_metadata_def MAX_KEYFILE_SIZE_def)
  then show ?thesis
    using read_keyfile_bytes_faultless [OF assms(8) at]
    by (simp add: load_bytes_decrypted_def rewrap_keyfile_dek_to_bytes_def bindM_def)
qed

theorem oversized_payload_is_unreadable_witness:
  "\<exists>w' w''. save_bytes_encrypted sample_crates [''ks'', ''a.keyf''] [9] (replicate 65397 0) ''demo''
      (clean_world [([''ks''], Dir 0x1c0)]) = (Done (), w')
    \<and> load_bytes_decrypted sample_crates [''ks'', ''a.keyf''] [9] ''demo'' w' = (Fail (invalid_len 65536 65537), w'')"
proof -
  let ?pl = "replicate 65397 0 :: bytes"
  have l: "length ?pl < 2 ^ 36" "65396 < length ?pl" "length ?pl + 16 < 2 ^ 32" by simp_all
  obtain w' where run: "save_bytes_encrypted sample_crates [''ks'', ''a.keyf''] [9] ?pl ''demo''
      (clean_world [([''ks''], Dir 0x1c0)]) = (Done (), w')" "faultless w'"
    by (rule saves_in_clean_world [OF l(1)])
  show ?thesis
    using run oversized_payload_is_unreadable [OF sample_hex_ok sample_aead_ok sample_hkdf_ok
        target_path_example l(2,3) run] by auto
qed

end
