(* ===== verification/Sign.thy ===== *)
theory Sign
  imports Primitives
begin

text \<open>
  Dual signatures, \<^verbatim>\<open>src/src/crypto/sign.rs\<close>: every message is signed with Ed25519 and ML-DSA-87 over the
  bytes that bind it to a context, and is accepted only when both signatures verify.  The theory
  interprets the codec contract on the two wire types, and shows that what is signed verifies and
  that acceptance needs both schemes to accept the very bytes that bind message and context.
\<close>

section \<open>The two schemes\<close>

definition ED25519_SIG_LEN :: nat where
  "ED25519_SIG_LEN = 64"

definition MLDSA87_SIG_LEN :: nat where
  "MLDSA87_SIG_LEN = 4627"

definition ED25519_PUB_LEN :: nat where
  "ED25519_PUB_LEN = 32"

definition MLDSA87_PUB_LEN :: nat where
  "MLDSA87_PUB_LEN = 2592"

definition sign_message :: "crates \<Rightarrow> bytes \<Rightarrow> bytes \<Rightarrow> string \<Rightarrow> bytes result" where
  "sign_message cr message priv_ed_seed c =
     rbind (sec_fixed_from_slice 32 priv_ed_seed) (\<lambda>seed.
     Inr (ed25519_sign cr seed (bind_aad c message)))"

text \<open>\<open>Signature::from_slice\<close> rejects only a wrong length.\<close>

definition verify_signature :: "crates \<Rightarrow> bytes \<Rightarrow> bytes \<Rightarrow> bytes \<Rightarrow> string \<Rightarrow> bool" where
  "verify_signature cr message signature pub_key c =
     (if length signature \<noteq> 64 then False
      else case ed25519_pk_import cr pub_key of
        None \<Rightarrow> False
      | Some pk \<Rightarrow> ed25519_verify_strict cr pk (bind_aad c message) signature)"

definition sign_message_dili :: "crates \<Rightarrow> bytes \<Rightarrow> bytes \<Rightarrow> string \<Rightarrow> bytes result" where
  "sign_message_dili cr message dili_sk_bytes c =
     rbind (ok_or (key_import_failed ''mldsa_signing_key'') (mldsa_sk_import cr dili_sk_bytes)) (\<lambda>sk.
     Inr (mldsa_sign cr sk (bind_aad c message)))"

definition verify_signature_dili :: "crates \<Rightarrow> bytes \<Rightarrow> bytes \<Rightarrow> bytes \<Rightarrow> string \<Rightarrow> bool" where
  "verify_signature_dili cr message signature dili_pk_bytes c =
     (case mldsa_pk_import cr dili_pk_bytes of
        None \<Rightarrow> False
      | Some pk \<Rightarrow> (case mldsa_sig_import cr signature of
          None \<Rightarrow> False
        | Some sig \<Rightarrow> mldsa_verify cr pk (bind_aad c message) sig))"

section \<open>Wire types\<close>

record double_sig =
  sig_ed :: bytes
  sig_dili :: bytes

definition double_sig_to_bytes :: "double_sig \<Rightarrow> bytes" where
  "double_sig_to_bytes s = sig_ed s @ sig_dili s"

definition double_sig_from_bytes :: "bytes \<Rightarrow> double_sig result" where
  "double_sig_from_bytes bs =
     (let expected = ED25519_SIG_LEN + MLDSA87_SIG_LEN in
      if length bs \<noteq> expected then Inl (invalid_len expected (length bs))
      else Inr \<lparr>sig_ed = take ED25519_SIG_LEN bs, sig_dili = drop ED25519_SIG_LEN bs\<rparr>)"

definition double_sig_to_hex :: "crates \<Rightarrow> double_sig \<Rightarrow> string" where
  "double_sig_to_hex cr s = hex_encode cr (double_sig_to_bytes s)"

definition double_sig_from_hex :: "crates \<Rightarrow> string \<Rightarrow> double_sig result" where
  "double_sig_from_hex cr s = rbind (decode_vec cr s) double_sig_from_bytes"

record dual_verifying_key =
  vk_ed25519 :: bytes
  vk_mldsa87 :: bytes

definition dual_verifying_key_new :: "bytes \<Rightarrow> bytes \<Rightarrow> dual_verifying_key" where
  "dual_verifying_key_new ed dili = \<lparr>vk_ed25519 = ed, vk_mldsa87 = dili\<rparr>"

definition vk_to_wire :: "dual_verifying_key \<Rightarrow> bytes" where
  "vk_to_wire k = vk_ed25519 k @ vk_mldsa87 k"

definition vk_from_wire :: "bytes \<Rightarrow> dual_verifying_key result" where
  "vk_from_wire bs =
     (let expected = ED25519_PUB_LEN + MLDSA87_PUB_LEN in
      if length bs \<noteq> expected then Inl (invalid_len expected (length bs))
      else rbind (pub_fixed_from_slice 32 (take ED25519_PUB_LEN bs)) (\<lambda>ed.
        Inr \<lparr>vk_ed25519 = ed, vk_mldsa87 = drop ED25519_PUB_LEN bs\<rparr>))"

section \<open>Dual signing\<close>

definition sign_double :: "crates \<Rightarrow> bytes \<Rightarrow> bytes \<Rightarrow> bytes \<Rightarrow> string \<Rightarrow> double_sig result" where
  "sign_double cr message ed_seed dili_sk c =
     rbind (sign_message cr message ed_seed c) (\<lambda>ed.
     rbind (if length ed = ED25519_SIG_LEN then Inr ed else Inl (internal_error ''ed25519_sig_len'')) (\<lambda>ed.
     rbind (sign_message_dili cr message dili_sk c) (\<lambda>dili.
     Inr \<lparr>sig_ed = ed, sig_dili = dili\<rparr>)))"

definition verify_double :: "crates \<Rightarrow> bytes \<Rightarrow> double_sig \<Rightarrow> bytes \<Rightarrow> bytes \<Rightarrow> string \<Rightarrow> bool" where
  "verify_double cr message sig ed_pub dili_pub c =
     (let ed = verify_signature cr message (sig_ed sig) ed_pub c;
          dili = verify_signature_dili cr message (sig_dili sig) dili_pub c in
      ed \<and> dili)"

definition vk_verify :: "crates \<Rightarrow> dual_verifying_key \<Rightarrow> bytes \<Rightarrow> double_sig \<Rightarrow> string \<Rightarrow> bool" where
  "vk_verify cr k message sig c = verify_double cr message sig (vk_ed25519 k) (vk_mldsa87 k) c"

lemmas sign_lens = ED25519_SIG_LEN_def MLDSA87_SIG_LEN_def ED25519_PUB_LEN_def MLDSA87_PUB_LEN_def

section \<open>The codec contract\<close>

definition double_sig_wf :: "double_sig \<Rightarrow> bool" where
  "double_sig_wf s \<longleftrightarrow> length (sig_ed s) = 64 \<and> length (sig_dili s) = 4627"

definition vk_wf :: "dual_verifying_key \<Rightarrow> bool" where
  "vk_wf k \<longleftrightarrow> length (vk_ed25519 k) = 32 \<and> length (vk_mldsa87 k) = 2592"

interpretation ds: fixed_codec double_sig_to_bytes double_sig_from_bytes double_sig_wf 4691
  by unfold_locales
     (auto simp: double_sig_to_bytes_def double_sig_from_bytes_def double_sig_wf_def sign_lens Let_def
        is_ok_iff split: if_splits)

interpretation vk: fixed_codec vk_to_wire vk_from_wire vk_wf 2624
  by unfold_locales
     (auto simp: vk_to_wire_def vk_from_wire_def vk_wf_def sign_lens Let_def rbind_Inr_iff is_ok_iff
        pub_fixed_from_slice_def split: if_splits)


lemma double_sig_hex_roundtrip:
  assumes "hex_ok cr" and "double_sig_wf s"
  shows "double_sig_from_hex cr (double_sig_to_hex cr s) = Inr s"
  using decode_vec_encode [OF assms(1)] ds.from_to [OF assms(2)]
  by (simp add: double_sig_from_hex_def double_sig_to_hex_def)

section \<open>Correctness\<close>

text \<open>C28. A message signed with two 32-byte seeds in any context verifies under the public keys of the
  seeds, directly and through the verifying key; the signature survives its byte and hexadecimal
  forms and the verifying key its wire form, whose sizes are fixed.\<close>

theorem dual_signature_verifies:
  assumes "hex_ok cr" and "ed25519_ok cr" and "mldsa_ok cr" and "length ed_seed = 32" and "length dili_sk = 32"
    and "vk = dual_verifying_key_new (ed25519_pub_from_seed cr ed_seed) (mldsa87_pub_from_seed cr dili_sk)"
  shows "\<exists>sig. sign_double cr m ed_seed dili_sk c = Inr sig \<and> vk_verify cr vk m sig c
    \<and> double_sig_from_bytes (double_sig_to_bytes sig) = Inr sig \<and> length (double_sig_to_bytes sig) = 4691
    \<and> double_sig_from_hex cr (double_sig_to_hex cr sig) = Inr sig
    \<and> vk_from_wire (vk_to_wire vk) = Inr vk \<and> length (vk_to_wire vk) = 2624"
proof -
  let ?sig = "\<lparr>sig_ed = ed25519_sign cr ed_seed (bind_aad c m), sig_dili = mldsa_sign cr dili_sk (bind_aad c m)\<rparr>"
  have ed: "length (ed25519_public cr ed_seed) = 32"
      "ed25519_pk_import cr (ed25519_public cr ed_seed) = Some (ed25519_public cr ed_seed)"
      "length (ed25519_sign cr ed_seed (bind_aad c m)) = 64"
      "ed25519_verify_strict cr (ed25519_public cr ed_seed) (bind_aad c m) (ed25519_sign cr ed_seed (bind_aad c m))"
    using assms(2,4) unfolding ed25519_ok_def by simp_all
  have dili: "length (mldsa_public cr dili_sk) = 2592" "mldsa_sk_import cr dili_sk = Some dili_sk"
      "mldsa_pk_import cr (mldsa_public cr dili_sk) = Some (mldsa_public cr dili_sk)"
      "length (mldsa_sign cr dili_sk (bind_aad c m)) = 4627"
      "mldsa_sig_import cr (mldsa_sign cr dili_sk (bind_aad c m)) = Some (mldsa_sign cr dili_sk (bind_aad c m))"
      "mldsa_verify cr (mldsa_public cr dili_sk) (bind_aad c m) (mldsa_sign cr dili_sk (bind_aad c m))"
    using assms(3,5) unfolding mldsa_ok_def by simp_all
  have wf: "double_sig_wf ?sig" "vk_wf vk"
    using ed dili by (simp_all add: double_sig_wf_def vk_wf_def assms(6) dual_verifying_key_new_def
        ed25519_pub_from_seed_def mldsa87_pub_from_seed_def)
  have "sign_double cr m ed_seed dili_sk c = Inr ?sig"
    using ed dili assms(4) by (simp add: sign_double_def sign_message_def sign_message_dili_def
        sec_fixed_from_slice_def sign_lens)
  moreover have "vk_verify cr vk m ?sig c"
    using ed dili by (simp add: vk_verify_def verify_double_def verify_signature_def verify_signature_dili_def
        assms(6) dual_verifying_key_new_def ed25519_pub_from_seed_def mldsa87_pub_from_seed_def)
  ultimately show ?thesis
    using ds.from_to [OF wf(1)] ds.wf_size [OF wf(1)] vk.from_to [OF wf(2)] vk.wf_size [OF wf(2)]
      double_sig_hex_roundtrip [OF assms(1) wf(1)] by blast
qed

theorem dual_signature_verifies_witness:
  "\<exists>sig. sign_double sample_crates [1, 2] (replicate 32 3) (replicate 32 4) ''app'' = Inr sig
    \<and> vk_verify sample_crates (dual_verifying_key_new (ed25519_pub_from_seed sample_crates (replicate 32 3))
        (mldsa87_pub_from_seed sample_crates (replicate 32 4))) [1, 2] sig ''app''
    \<and> length (double_sig_to_bytes sig) = 4691"
  using dual_signature_verifies [OF sample_hex_ok sample_ed25519_ok sample_mldsa_ok _ _ refl,
      of "replicate 32 3" "replicate 32 4"]
  by auto

text \<open>C5. The combination is as strong as the stronger scheme: if either scheme's key accepts nothing
  but bytes that were signed under it, every one in a properly built context, then a dual signature is
  accepted only for a context and a message that were signed together, even when the other scheme
  accepts anything.\<close>

theorem dual_signature_needs_both:
  assumes "\<forall>(c, m)\<in>signed_set. built_ctx c" and "built_ctx c"
    and "(\<forall>pk msg s. ed25519_pk_import cr ed_pub = Some pk \<and> ed25519_verify_strict cr pk msg s
            \<longrightarrow> msg \<in> (\<lambda>(c, m). bind_aad c m) ` signed_set)
       \<or> (\<forall>pk msg s. mldsa_pk_import cr dili_pub = Some pk \<and> mldsa_verify cr pk msg s
            \<longrightarrow> msg \<in> (\<lambda>(c, m). bind_aad c m) ` signed_set)"
    and "verify_double cr m sig ed_pub dili_pub c"
  shows "(c, m) \<in> signed_set"
proof -
  obtain ed_pk dili_pk s where acc: "ed25519_pk_import cr ed_pub = Some ed_pk"
      "ed25519_verify_strict cr ed_pk (bind_aad c m) (sig_ed sig)"
      "mldsa_pk_import cr dili_pub = Some dili_pk" "mldsa_verify cr dili_pk (bind_aad c m) s"
    using assms(4)
    by (auto simp: verify_double_def verify_signature_def verify_signature_dili_def split: option.splits if_splits)
  have "bind_aad c m \<in> (\<lambda>(c, m). bind_aad c m) ` signed_set"
    using assms(3)
  proof
    assume "\<forall>pk msg s. ed25519_pk_import cr ed_pub = Some pk \<and> ed25519_verify_strict cr pk msg s
            \<longrightarrow> msg \<in> (\<lambda>(c, m). bind_aad c m) ` signed_set"
    then show ?thesis using acc(1,2) by metis
  next
    assume "\<forall>pk msg s. mldsa_pk_import cr dili_pub = Some pk \<and> mldsa_verify cr pk msg s
            \<longrightarrow> msg \<in> (\<lambda>(c, m). bind_aad c m) ` signed_set"
    then show ?thesis using acc(3,4) by metis
  qed
  then obtain c' m' where s: "(c', m') \<in> signed_set" "bind_aad c m = bind_aad c' m'" by auto
  moreover have "built_ctx c'" using assms(1) s(1) by auto
  ultimately show ?thesis using ctx.bind_inject [OF assms(2), of c' m m'] by simp
qed

text \<open>An instance in which Ed25519 verification holds of one signed message only and ML-DSA
  verification of everything.\<close>

definition one_message_crates :: crates where
  "one_message_crates = sample_crates\<lparr>ed25519_verify_strict := (\<lambda>p m s. m = bind_aad ''app'' [1]),
     mldsa_verify := (\<lambda>p m s. True)\<rparr>"

lemma one_message_accepts:
  assumes "length a = 64" and "length b = 4627" and "length p = 32" and "length q = 2592"
  shows "verify_double one_message_crates [1] \<lparr>sig_ed = a, sig_dili = b\<rparr> p q ''app''"
  using assms by (simp add: verify_double_def verify_signature_def verify_signature_dili_def
      one_message_crates_def sample_crates_def)

theorem dual_signature_needs_both_witness:
  "verify_double one_message_crates [1] \<lparr>sig_ed = replicate 64 0, sig_dili = replicate 4627 0\<rparr>
     (replicate 32 0) (replicate 2592 0) ''app''
   \<and> (''app'', [1 :: u8]) \<in> {(''app'', [1])}"
proof -
  let ?sig = "\<lparr>sig_ed = replicate 64 0, sig_dili = replicate 4627 0\<rparr>"
  have v: "verify_double one_message_crates [1] ?sig (replicate 32 0) (replicate 2592 0) ''app''"
    by (rule one_message_accepts) simp_all
  moreover have "(''app'', [1 :: u8]) \<in> {(''app'', [1])}"
    by (rule dual_signature_needs_both [OF _ app_built _ v])
       (simp_all add: app_built one_message_crates_def)
  ultimately show ?thesis by blast
qed

end
