(* ===== verification/Manager.thy ===== *)
theory Manager
  imports KeyFileRuns Sign "HOL-Library.List_Lexorder"
begin

text \<open>
  The key manager, \<^verbatim>\<open>src/src/keys/manager.rs\<close>, with default features: key material on disk, label
  secrets, master-key rotation with its staging area, ready marker and recovery, the poison flag, and
  the public operations.  The master-key provider is the caller's code and a parameter; the plaintext
  provider of the crate is one instance.  Locks are taken by one operation at a time, so an
  operation runs on the state alone; a lock poisoned by a panicking thread is not modelled.
\<close>

section \<open>Names\<close>

definition LOCK_FILE :: string where "LOCK_FILE = ''.lock''"
definition PUB_DIR :: string where "PUB_DIR = ''pub''"
definition PRIV_DIR :: string where "PRIV_DIR = ''priv''"
definition SECRETS_DIR :: string where "SECRETS_DIR = ''secrets''"
definition ROTATE_DIR :: string where "ROTATE_DIR = ''.rotate''"
definition ROTATE_STAGE_DIR :: string where "ROTATE_STAGE_DIR = ''staged''"
definition ROTATE_READY_FILE :: string where "ROTATE_READY_FILE = ''ready''"
definition ROTATE_NEXT_OLD_FILE :: string where "ROTATE_NEXT_OLD_FILE = ''next-mk-old.keyf''"
definition ROTATE_NEXT_NEW_FILE :: string where "ROTATE_NEXT_NEW_FILE = ''next-mk-new.keyf''"
definition ED_PUB :: string where "ED_PUB = ''ed25519.pub''"
definition DILI_PUB :: string where "DILI_PUB = ''dilithium-mldsa87.pub''"
definition ED_PRIV :: string where "ED_PRIV = ''ed25519.keyf''"
definition DILI_PRIV :: string where "DILI_PRIV = ''dilithium-mldsa87.keyf''"
definition KT_ED_SEED :: string where "KT_ED_SEED = ''ed25519-seed-v1''"
definition KT_DILI_SEED :: string where "KT_DILI_SEED = ''dilithium-mldsa87-seed-v1''"
definition KT_ROTATE_NEXT_OLD :: string where "KT_ROTATE_NEXT_OLD = ''rotate-next-mk-old-v1''"
definition KT_ROTATE_NEXT_NEW :: string where "KT_ROTATE_NEXT_NEW = ''rotate-next-mk-new-v1''"

section \<open>State\<close>

datatype public_cache_policy = CacheStrict | RepairMissingOnly

datatype create_new_mode = LinkNoReplace | RenameBestEffort

datatype memory_locking = LockingRequire | LockingBestEffort

datatype 'p file_lock_policy = FileLockRequire | FileLockBestEffort "lithium_error \<Rightarrow> 'p world \<Rightarrow> 'p world"

datatype 'p rotation_error_policy =
    PolicyStrict "lithium_error \<Rightarrow> 'p world \<Rightarrow> 'p world"
  | PolicyCallback "lithium_error \<Rightarrow> 'p world \<Rightarrow> 'p world"

record 'p mk_provider =
  load_mk :: "('p world, bytes) leff"
  store_mk :: "bytes \<Rightarrow> ('p world, unit) leff"
  get_or_create_label :: "bytes \<Rightarrow> bytes \<Rightarrow> path \<Rightarrow> ('p world, bytes) leff"

record public_keys =
  pk_ed25519 :: bytes
  pk_dilithium :: bytes

record rewrap_target =
  live_path :: path
  relative_path :: path
  key_type :: string

section \<open>Directories and markers\<close>

definition sync_dir :: "path \<Rightarrow> ('p world, unit) leff" where
  "sync_dir p =
     bindM (path_exists p) (\<lambda>ex.
     if \<not> ex then ret ()
     else bindM (mapM_err lithium_io (open_dir p)) (\<lambda>_. mapM_err lithium_io sync_all))"

definition sync_parent :: "path \<Rightarrow> ('p world, unit) leff" where
  "sync_parent p = (case parent_of p of None \<Rightarrow> ret () | Some d \<Rightarrow> sync_dir d)"

definition write_marker :: "crates \<Rightarrow> path \<Rightarrow> bytes \<Rightarrow> ('p world, unit) leff" where
  "write_marker cr p data = bindM (write_secure cr p data) (\<lambda>_. sync_parent p)"

text \<open>Opening with \<open>create\<close>, \<open>write\<close> and no truncation; the file is made with the default mode.\<close>

definition open_or_create :: "path \<Rightarrow> ('p world, io_err, unit) eff" where
  "open_or_create p = update_fs OpCreate (\<lambda>ns. case lookup_node ns p of
     Inr (Dir m) \<Rightarrow> Inl IsADirectory
   | Inr n \<Rightarrow> Inr ns
   | Inl k \<Rightarrow> if k = NotFound \<and> parent_err ns p = None then Inr (AList.update p (File 0x1a4 []) ns) else Inl k)"

definition try_lock :: "('p world, io_err, unit) eff" where
  "try_lock = query OpLock (\<lambda>_. Inr ())"

text \<open>Whether the lock is held is all that is kept of the locked file.\<close>

definition acquire_exclusive_lock :: "path \<Rightarrow> 'p file_lock_policy \<Rightarrow> ('p world, bool) leff" where
  "acquire_exclusive_lock root policy =
     bindM (mapM_err lithium_io (open_or_create (join root LOCK_FILE))) (\<lambda>_.
     bindM (tryM try_lock) (\<lambda>r. case r of
       Inr u \<Rightarrow> ret True
     | Inl e \<Rightarrow>
         if fst e = WouldBlock then fail keystore_locked
         else case policy of
           FileLockRequire \<Rightarrow> fail (lithium_io e)
         | FileLockBestEffort cb \<Rightarrow> (\<lambda>w. (Done False, cb (lithium_io e) w))))"

section \<open>Arena access\<close>

definition os_map :: "bool \<Rightarrow> ('p world, bool) leff" where
  "os_map require_lock =
     bindM (mapM_err lithium_io (query OpMmap (\<lambda>_. Inr ()))) (\<lambda>_.
     bindM (tryM (query OpMlock (\<lambda>_. Inr ()))) (\<lambda>r. case r of
       Inr u \<Rightarrow> ret True
     | Inl e \<Rightarrow> if require_lock then fail (lithium_io e) else ret False))"

text \<open>\<open>harden_process\<close>: no core dumps, by \<open>prctl\<close> and by the resource limit.\<close>

definition harden_process :: "('p world, unit) leff" where
  "harden_process =
     bindM (mapM_err lithium_io (query OpPrctl (\<lambda>_. Inr ()))) (\<lambda>_.
     mapM_err lithium_io (query OpRlimit (\<lambda>_. Inr ())))"

definition arena_with_capacity :: "memory_locking \<Rightarrow> nat \<Rightarrow> ('p world, arena \<times> bool) leff" where
  "arena_with_capacity locking n w =
     (bindM (liftR (ok_or (internal_error ''arena_size_overflow'') (round_up (max n 1) (page_size w)))) (\<lambda>sz.
      bindM (os_map (locking = LockingRequire)) (\<lambda>locked.
      ret (\<lparr>mem = replicate sz 0, offset = 0, free_slots = (\<lambda>_. [])\<rparr>, locked)))) w"

definition spawn_thread :: "('p world, io_err, unit) eff" where
  "spawn_thread = query OpSpawn (\<lambda>_. Inr ())"

definition arenaM :: "(arena \<Rightarrow> 'a result \<times> arena) \<Rightarrow> ('p world, 'a) leff" where
  "arenaM f w = (case f (arena_st w) of
     (Inl e, a) \<Rightarrow> (Fail e, w\<lparr>arena_st := a\<rparr>)
   | (Inr x, a) \<Rightarrow> (Done x, w\<lparr>arena_st := a\<rparr>))"

text \<open>The scope of a region: it is dropped when the scope is left, by a value or by an error.\<close>

definition with_region :: "region \<Rightarrow> ('p world, 'a) leff \<Rightarrow> ('p world, 'a) leff" where
  "with_region r m w = (case m w of
     (Crash, w') \<Rightarrow> (Crash, w')
   | (out, w') \<Rightarrow> (out, w'\<lparr>arena_st := region_drop r (arena_st w')\<rparr>))"

definition region_bytes :: "region \<Rightarrow> ('p world, bytes) leff" where
  "region_bytes r w = (Done (region_slice r (arena_st w)), w)"

definition fill_region :: "region \<Rightarrow> bytes \<Rightarrow> ('p world, unit) leff" where
  "fill_region r bs w = (Done (), w\<lparr>arena_st := region_write r bs (arena_st w)\<rparr>)"

text \<open>\<open>SecretArena::random_fixed\<close>: a region whose filling fails is dropped.\<close>

definition arena_random_fixed :: "nat \<Rightarrow> ('p world, region) leff" where
  "arena_random_fixed n =
     bindM (arenaM (claim n)) (\<lambda>r.
     bindM (tryM (random_fixed n)) (\<lambda>x. case x of
       Inl e \<Rightarrow> with_region r (fail e)
     | Inr bs \<Rightarrow> bindM (fill_region r bs) (\<lambda>_. ret r)))"

definition arena_store_fixed_wiped :: "nat \<Rightarrow> bytes \<Rightarrow> ('p world, region) leff" where
  "arena_store_fixed_wiped n src =
     arenaM (\<lambda>a. case store_fixed_wiped n src a of ((r, left), a') \<Rightarrow> (r, a'))"

section \<open>Key material\<close>

definition reconcile_public_cache ::
    "crates \<Rightarrow> path \<Rightarrow> bytes \<Rightarrow> public_cache_policy \<Rightarrow> string \<Rightarrow> ('p world, unit) leff" where
  "reconcile_public_cache cr pub_path authoritative policy kt =
     bindM (tryM (read_keyfile_bytes pub_path)) (\<lambda>r. case r of
       Inr on_disk \<Rightarrow>
         if on_disk \<noteq> authoritative then fail (invalid_public_key kt ''public_key_mismatch'') else ret ()
     | Inl e \<Rightarrow>
         if is_not_found e
         then (case policy of
             CacheStrict \<Rightarrow> fail (invalid_public_key kt ''public_key_missing'')
           | RepairMissingOnly \<Rightarrow>
               bindM (write_secure cr pub_path authoritative) (\<lambda>_. sync_parent pub_path))
         else fail e)"

definition ensure_seed_keypair ::
    "crates \<Rightarrow> nat \<Rightarrow> path \<Rightarrow> path \<Rightarrow> bytes \<Rightarrow> string \<Rightarrow> public_cache_policy \<Rightarrow> (bytes \<Rightarrow> bytes)
     \<Rightarrow> ('p world, bytes) leff" where
  "ensure_seed_keypair cr n priv_path pub_path mk kt policy pub_from_seed =
     bindM (path_exists priv_path) (\<lambda>ex.
     if ex then
       bindM (load_bytes_decrypted cr priv_path mk kt) (\<lambda>loaded.
       bindM (liftR (sec_bytes_expose_into_array n loaded)) (\<lambda>arr.
       bindM (arena_store_fixed_wiped n arr) (\<lambda>seed.
       with_region seed (
         if r_len seed \<noteq> n then fail malformed_keyfile else
         bindM (region_bytes seed) (\<lambda>sd.
         let pk = pub_from_seed sd in
         bindM (reconcile_public_cache cr pub_path pk policy kt) (\<lambda>_. ret pk))))))
     else
       bindM (tryM (read_keyfile_bytes pub_path)) (\<lambda>r. case r of
         Inr d \<Rightarrow> fail (invalid_public_key kt ''public_key_without_secret'')
       | Inl e \<Rightarrow>
           if \<not> is_not_found e then fail e
           else
             bindM (arena_random_fixed n) (\<lambda>seed.
             with_region seed (
               bindM (region_bytes seed) (\<lambda>sd.
               let pk = pub_from_seed sd in
               bindM (save_bytes_encrypted cr priv_path mk sd kt) (\<lambda>_.
               bindM (write_secure cr pub_path pk) (\<lambda>_.
               bindM (sync_parent pub_path) (\<lambda>_. ret pk))))))))"

definition ensure_asymmetric_material ::
    "crates \<Rightarrow> path \<Rightarrow> path \<Rightarrow> bytes \<Rightarrow> public_cache_policy \<Rightarrow> ('p world, public_keys) leff" where
  "ensure_asymmetric_material cr pub_dir priv_dir mk policy =
     bindM (ensure_private_dir pub_dir) (\<lambda>_.
     bindM (ensure_private_dir priv_dir) (\<lambda>_.
     bindM (ensure_seed_keypair cr 32 (join priv_dir ED_PRIV) (join pub_dir ED_PUB) mk KT_ED_SEED policy
       (ed25519_pub_from_seed cr)) (\<lambda>ed.
     bindM (ensure_seed_keypair cr 32 (join priv_dir DILI_PRIV) (join pub_dir DILI_PUB) mk KT_DILI_SEED policy
       (mldsa87_pub_from_seed cr)) (\<lambda>dili.
     ret \<lparr>pk_ed25519 = ed, pk_dilithium = dili\<rparr>))))"

section \<open>Label secrets\<close>

definition MAX_SECRET_LABEL_LEN :: nat where
  "MAX_SECRET_LABEL_LEN = 64"

definition validate_secret_label :: "bytes \<Rightarrow> unit result" where
  "validate_secret_label label =
     (if label = [] \<or> length label > MAX_SECRET_LABEL_LEN then Inl (malformed_input ''secret_label_len'')
      else Inr ())"

definition label_hex :: "crates \<Rightarrow> bytes \<Rightarrow> string" where
  "label_hex cr label = hex_encode cr label"

definition label_key_type_from_hex :: "string \<Rightarrow> string" where
  "label_key_type_from_hex hex_label = ''secret32:'' @ hex_label"

definition label_key_type :: "crates \<Rightarrow> bytes \<Rightarrow> string" where
  "label_key_type cr label = ''secret32:'' @ label_hex cr label"

definition label_secret_path :: "crates \<Rightarrow> path \<Rightarrow> bytes \<Rightarrow> path" where
  "label_secret_path cr secrets_dir label = join secrets_dir (label_hex cr label @ ''.keyf'')"

definition load_or_create_label_secret32 ::
    "crates \<Rightarrow> path \<Rightarrow> bytes \<Rightarrow> bytes \<Rightarrow> create_new_mode \<Rightarrow> ('p world, bytes) leff" where
  "load_or_create_label_secret32 cr secrets_dir mk label mode =
     bindM (liftR (validate_secret_label label)) (\<lambda>_.
     let path = label_secret_path cr secrets_dir label; kt = label_key_type cr label in
     bindM (path_exists path) (\<lambda>ex.
     if ex then load_secret32_decrypted cr path mk kt
     else
       bindM (random_fixed 32) (\<lambda>v.
       bindM (tryM (case mode of
           LinkNoReplace \<Rightarrow> save_secret32_encrypted_new cr path mk v kt
         | RenameBestEffort \<Rightarrow> save_secret32_encrypted_new_best_effort cr path mk v kt)) (\<lambda>r. case r of
         Inr u \<Rightarrow> ret v
       | Inl e \<Rightarrow> if is_already_exists e then load_secret32_decrypted cr path mk kt else fail e))))"

text \<open>\<open>generate\<close> is the caller's closure.\<close>

definition load_or_create_label_bytes ::
    "crates \<Rightarrow> path \<Rightarrow> bytes \<Rightarrow> bytes \<Rightarrow> ('p world, bytes) leff \<Rightarrow> create_new_mode \<Rightarrow> ('p world, bytes) leff" where
  "load_or_create_label_bytes cr secrets_dir mk label generate mode =
     bindM (liftR (validate_secret_label label)) (\<lambda>_.
     let path = label_secret_path cr secrets_dir label; kt = label_key_type cr label in
     bindM (path_exists path) (\<lambda>ex.
     if ex then load_bytes_decrypted cr path mk kt
     else
       bindM generate (\<lambda>v.
       bindM (tryM (case mode of
           LinkNoReplace \<Rightarrow> save_bytes_encrypted_new cr path mk v kt
         | RenameBestEffort \<Rightarrow> save_bytes_encrypted_new_best_effort cr path mk v kt)) (\<lambda>r. case r of
         Inr u \<Rightarrow> ret v
       | Inl e \<Rightarrow> if is_already_exists e then load_bytes_decrypted cr path mk kt else fail e))))"

text \<open>The plaintext provider, and the default of the provider trait for label secrets.\<close>

definition plaintext_load_mk :: "path \<Rightarrow> ('p world, bytes) leff" where
  "plaintext_load_mk p = bindM (read_keyfile_bytes p) (\<lambda>bs. liftR (sec_fixed_from_slice 32 bs))"

definition plaintext_store_mk :: "crates \<Rightarrow> path \<Rightarrow> bytes \<Rightarrow> ('p world, unit) leff" where
  "plaintext_store_mk cr p mk = write_secure cr p mk"

definition default_get_or_create_secret32 :: "crates \<Rightarrow> bytes \<Rightarrow> bytes \<Rightarrow> path \<Rightarrow> ('p world, bytes) leff" where
  "default_get_or_create_secret32 cr mk label secrets_dir =
     load_or_create_label_secret32 cr secrets_dir mk label LinkNoReplace"

definition plaintext_provider :: "crates \<Rightarrow> path \<Rightarrow> 'p mk_provider" where
  "plaintext_provider cr p = \<lparr>load_mk = plaintext_load_mk p, store_mk = plaintext_store_mk cr p,
     get_or_create_label = default_get_or_create_secret32 cr\<rparr>"

section \<open>Rotation\<close>

primrec scan_entries :: "path list \<Rightarrow> path list \<Rightarrow> ('p world, path list) leff" where
  "scan_entries [] out = ret out"
| "scan_entries (q # qs) out =
     bindM (mapM_err lithium_io (next_entry q)) (\<lambda>path.
     bindM (path_is_file path) (\<lambda>f.
     if f \<and> extension path = Some ''keyf'' then scan_entries qs (out @ [path]) else scan_entries qs out))"

definition list_dir_keyfiles :: "path \<Rightarrow> ('p world, path list) leff" where
  "list_dir_keyfiles dir =
     bindM (path_exists dir) (\<lambda>ex.
     if \<not> ex then ret []
     else
       bindM (mapM_err lithium_io (read_dir dir)) (\<lambda>ents.
       bindM (scan_entries ents []) (\<lambda>out. ret (sort out))))"

definition make_target :: "path \<Rightarrow> path \<Rightarrow> string \<Rightarrow> rewrap_target result" where
  "make_target root path kt =
     rbind (ok_or (internal_error ''path_not_under_root'') (strip_prefix root path)) (\<lambda>rel.
     Inr \<lparr>live_path = path, relative_path = rel, key_type = kt\<rparr>)"

primrec fixed_targets :: "path \<Rightarrow> (path \<times> string) list \<Rightarrow> rewrap_target list \<Rightarrow> ('p world, rewrap_target list) leff" where
  "fixed_targets root [] out = ret out"
| "fixed_targets root (c # rest) out =
     (case c of (path, kt) \<Rightarrow>
      bindM (path_exists path) (\<lambda>ex.
      if ex then bindM (liftR (make_target root path kt)) (\<lambda>t. fixed_targets root rest (out @ [t]))
      else fixed_targets root rest out))"

primrec secret_targets :: "path \<Rightarrow> path list \<Rightarrow> rewrap_target list result" where
  "secret_targets root [] = Inr []"
| "secret_targets root (path # paths) =
     rbind (ok_or (internal_error ''keyfile_stem_utf8'') (file_stem path)) (\<lambda>stem.
     rbind (make_target root path (label_key_type_from_hex stem)) (\<lambda>t.
     rbind (secret_targets root paths) (\<lambda>ts. Inr (t # ts))))"

definition collect_rewrap_targets :: "path \<Rightarrow> path \<Rightarrow> path \<Rightarrow> ('p world, rewrap_target list) leff" where
  "collect_rewrap_targets root priv_dir secrets_dir =
     bindM (fixed_targets root [(join priv_dir ED_PRIV, KT_ED_SEED), (join priv_dir DILI_PRIV, KT_DILI_SEED)] []) (\<lambda>fixed.
     bindM (list_dir_keyfiles secrets_dir) (\<lambda>paths.
     bindM (liftR (secret_targets root paths)) (\<lambda>secs.
     ret (sort_key relative_path (fixed @ secs)))))"

definition stage_target_path :: "path \<Rightarrow> path \<Rightarrow> path" where
  "stage_target_path rotate_dir rel = join rotate_dir ROTATE_STAGE_DIR @ rel"

definition cleanup_rotation_dir :: "path \<Rightarrow> ('p world, unit) leff" where
  "cleanup_rotation_dir rotate_dir =
     bindM (path_exists rotate_dir) (\<lambda>ex.
     if ex then bindM (mapM_err lithium_io (remove_dir_all rotate_dir)) (\<lambda>_. sync_parent rotate_dir)
     else ret ())"

definition apply_staged_file :: "crates \<Rightarrow> path \<Rightarrow> rewrap_target \<Rightarrow> ('p world, unit) leff" where
  "apply_staged_file cr rotate_dir t =
     bindM (read_keyfile_bytes (stage_target_path rotate_dir (relative_path t))) (\<lambda>staged.
     bindM (write_secure cr (live_path t) staged) (\<lambda>_.
     sync_parent (live_path t)))"

definition apply_staged_files :: "crates \<Rightarrow> path \<Rightarrow> rewrap_target list \<Rightarrow> ('p world, unit) leff" where
  "apply_staged_files cr rotate_dir targets = forM targets (apply_staged_file cr rotate_dir)"

definition stage_file :: "crates \<Rightarrow> path \<Rightarrow> bytes \<Rightarrow> bytes \<Rightarrow> rewrap_target \<Rightarrow> ('p world, unit) leff" where
  "stage_file cr rotate_dir old_mk new_mk t =
     bindM (rewrap_keyfile_dek_to_bytes cr (live_path t) old_mk new_mk (key_type t)) (\<lambda>out.
     let staged_path = stage_target_path rotate_dir (relative_path t) in
     bindM (ensure_parent staged_path) (\<lambda>_.
     bindM (write_secure cr staged_path out) (\<lambda>_.
     sync_parent staged_path)))"

definition prepare_staged_files :: "crates \<Rightarrow> path \<Rightarrow> bytes \<Rightarrow> bytes \<Rightarrow> rewrap_target list \<Rightarrow> ('p world, unit) leff" where
  "prepare_staged_files cr rotate_dir old_mk new_mk targets =
     bindM (ensure_private_dir (join rotate_dir ROTATE_STAGE_DIR)) (\<lambda>_.
     bindM (forM targets (stage_file cr rotate_dir old_mk new_mk)) (\<lambda>_.
     sync_dir (join rotate_dir ROTATE_STAGE_DIR)))"

text \<open>The master key that recovery finishes with, and whether the provider already has it.\<close>

definition recover_new_mk :: "crates \<Rightarrow> path \<Rightarrow> bytes \<Rightarrow> ('p world, bytes \<times> bool) leff" where
  "recover_new_mk cr rotate_dir current_mk =
     (let next_old = join rotate_dir ROTATE_NEXT_OLD_FILE; next_new = join rotate_dir ROTATE_NEXT_NEW_FILE;
          from_old = bindM (load_secret32_decrypted cr next_old current_mk KT_ROTATE_NEXT_OLD) (\<lambda>c. ret (c, False)) in
      bindM (path_exists next_new) (\<lambda>ex.
      if ex then
        bindM (tryM (load_secret32_decrypted cr next_new current_mk KT_ROTATE_NEXT_NEW)) (\<lambda>r. case r of
          Inr candidate \<Rightarrow> ret (candidate, True)
        | Inl e \<Rightarrow> from_old)
      else from_old))"

definition recover_pending_rotation_if_any ::
    "crates \<Rightarrow> path \<Rightarrow> path \<Rightarrow> path \<Rightarrow> path \<Rightarrow> 'p mk_provider \<Rightarrow> ('p world, unit) leff" where
  "recover_pending_rotation_if_any cr root priv_dir secrets_dir rotate_dir prov =
     bindM (path_exists rotate_dir) (\<lambda>ex.
     if \<not> ex then ret ()
     else bindM (path_exists (join rotate_dir ROTATE_READY_FILE)) (\<lambda>ready.
     if \<not> ready then cleanup_rotation_dir rotate_dir
     else
       bindM (collect_rewrap_targets root priv_dir secrets_dir) (\<lambda>targets.
       bindM (load_mk prov) (\<lambda>current_mk.
       bindM (recover_new_mk cr rotate_dir current_mk) (\<lambda>(new_mk, switched).
       bindM (apply_staged_files cr rotate_dir targets) (\<lambda>_.
       bindM (if \<not> switched then store_mk prov new_mk else ret ()) (\<lambda>_.
       cleanup_rotation_dir rotate_dir)))))))"


section \<open>Configuration and shared state\<close>

definition DEFAULT_ROTATE_EVERY :: duration where
  "DEFAULT_ROTATE_EVERY = 3600 * 10 ^ 9"

definition MIN_ROTATE_EVERY :: duration where
  "MIN_ROTATE_EVERY = 10 ^ 6"

definition DEFAULT_ARENA_CAPACITY :: nat where
  "DEFAULT_ARENA_CAPACITY = 8 * 1024"

record 'p km_config =
  cf_locking :: memory_locking
  cf_file_lock :: "'p file_lock_policy"
  cf_public_cache_policy :: public_cache_policy
  cf_rotate_every :: duration
  cf_rotation_enabled :: bool
  cf_arena_capacity :: nat
  cf_create_new_mode :: create_new_mode

definition km_config_new :: "memory_locking \<Rightarrow> public_cache_policy \<Rightarrow> 'p km_config" where
  "km_config_new locking policy = \<lparr>cf_locking = locking, cf_file_lock = FileLockRequire,
     cf_public_cache_policy = policy, cf_rotate_every = DEFAULT_ROTATE_EVERY, cf_rotation_enabled = True,
     cf_arena_capacity = DEFAULT_ARENA_CAPACITY, cf_create_new_mode = LinkNoReplace\<rparr>"

definition config_create_new_rename_best_effort :: "'p km_config \<Rightarrow> 'p km_config" where
  "config_create_new_rename_best_effort c = c\<lparr>cf_create_new_mode := RenameBestEffort\<rparr>"

definition config_file_lock_best_effort :: "(lithium_error \<Rightarrow> 'p world \<Rightarrow> 'p world) \<Rightarrow> 'p km_config \<Rightarrow> 'p km_config" where
  "config_file_lock_best_effort on_unlocked c = c\<lparr>cf_file_lock := FileLockBestEffort on_unlocked\<rparr>"

definition config_rotate_every :: "duration \<Rightarrow> 'p km_config \<Rightarrow> 'p km_config" where
  "config_rotate_every interval c = c\<lparr>cf_rotate_every := interval\<rparr>"

definition config_never_rotate :: "'p km_config \<Rightarrow> 'p km_config" where
  "config_never_rotate c = c\<lparr>cf_rotation_enabled := False\<rparr>"

definition config_arena_capacity :: "nat \<Rightarrow> 'p km_config \<Rightarrow> 'p km_config" where
  "config_arena_capacity n c = c\<lparr>cf_arena_capacity := n\<rparr>"

record worker_ctl =
  wc_stop :: bool
  wc_rotate_every :: duration
  wc_next_rotation_at :: instant

text \<open>The arena and the poison flag of \<open>Shared\<close> are part of the world.\<close>

record 'p shared =
  sh_root_dir :: path
  sh_pub_dir :: path
  sh_priv_dir :: path
  sh_secrets_dir :: path
  sh_rotate_dir :: path
  sh_mk_provider :: "'p mk_provider"
  sh_memory_locked :: bool
  sh_public_cache_policy :: public_cache_policy
  sh_create_new_mode :: create_new_mode
  sh_keys :: public_keys
  sh_error_policy :: "'p rotation_error_policy"
  sh_ctl :: worker_ctl
  sh_lock_held :: bool

definition check_live :: "('p world, unit) leff" where
  "check_live w = (if poisoned w then (Fail (internal_error ''keymanager_rotation_disabled''), w) else (Done (), w))"

definition read_gate :: "'p shared \<Rightarrow> ('p world, public_keys) leff" where
  "read_gate sh = bindM check_live (\<lambda>_. ret (sh_keys sh))"

definition with_current_mk :: "'p shared \<Rightarrow> (bytes \<Rightarrow> ('p world, 'a) leff) \<Rightarrow> ('p world, 'a) leff" where
  "with_current_mk sh f = bindM (load_mk (sh_mk_provider sh)) f"

definition set_poisoned :: "('p world, unit) leff" where
  "set_poisoned w = (Done (), w\<lparr>poisoned := True\<rparr>)"

section \<open>Rotating now\<close>

definition recover_shared :: "crates \<Rightarrow> 'p shared \<Rightarrow> ('p world, unit) leff" where
  "recover_shared cr sh =
     recover_pending_rotation_if_any cr (sh_root_dir sh) (sh_priv_dir sh) (sh_secrets_dir sh) (sh_rotate_dir sh)
       (sh_mk_provider sh)"

definition commit_rotation :: "crates \<Rightarrow> 'p shared \<Rightarrow> rewrap_target list \<Rightarrow> bytes \<Rightarrow> ('p world, unit) leff" where
  "commit_rotation cr sh targets new_mk =
     bindM (tryM (
       bindM (apply_staged_files cr (sh_rotate_dir sh) targets) (\<lambda>_.
       bindM (store_mk (sh_mk_provider sh) new_mk) (\<lambda>_.
       cleanup_rotation_dir (sh_rotate_dir sh))))) (\<lambda>attempt. case attempt of
       Inr u \<Rightarrow> ret ()
     | Inl e \<Rightarrow>
         bindM (tryM (recover_shared cr sh)) (\<lambda>r. case r of
           Inr u \<Rightarrow> ret ()
         | Inl e' \<Rightarrow> bindM set_poisoned (\<lambda>_. fail e)))"

definition rotate_now :: "crates \<Rightarrow> 'p shared \<Rightarrow> ('p world, unit) leff" where
  "rotate_now cr sh =
     (let rot = sh_rotate_dir sh in
      bindM (recover_shared cr sh) (\<lambda>_.
      bindM (cleanup_rotation_dir rot) (\<lambda>_.
      bindM (ensure_private_dir rot) (\<lambda>_.
      bindM (sync_dir rot) (\<lambda>_.
      bindM (load_mk (sh_mk_provider sh)) (\<lambda>old_mk.
      bindM (random_fixed 32) (\<lambda>new_mk.
      bindM (collect_rewrap_targets (sh_root_dir sh) (sh_priv_dir sh) (sh_secrets_dir sh)) (\<lambda>targets.
      bindM (save_secret32_encrypted cr (join rot ROTATE_NEXT_OLD_FILE) old_mk new_mk KT_ROTATE_NEXT_OLD) (\<lambda>_.
      bindM (save_secret32_encrypted cr (join rot ROTATE_NEXT_NEW_FILE) new_mk new_mk KT_ROTATE_NEXT_NEW) (\<lambda>_.
      bindM (sync_dir rot) (\<lambda>_.
      bindM (prepare_staged_files cr rot old_mk new_mk targets) (\<lambda>_.
      bindM (write_marker cr (join rot ROTATE_READY_FILE) (as_bytes ''ready'')) (\<lambda>_.
      commit_rotation cr sh targets new_mk)))))))))))))"

definition handle_rotation_error :: "'p shared \<Rightarrow> lithium_error \<Rightarrow> ('p world, bool) leff" where
  "handle_rotation_error sh e = (case sh_error_policy sh of
     PolicyStrict cb \<Rightarrow> bindM set_poisoned (\<lambda>_ w. (Done True, cb e w))
   | PolicyCallback cb \<Rightarrow> (\<lambda>w. (Done False, cb e w)))"


section \<open>The rotation thread\<close>

text \<open>
  The loop of \<open>rotate_loop\<close>, cut where the control mutex is free: looking at the control block, waiting on
  the condition variable, and a rotation with the second look after it.  \<open>now\<close> is the instant read in
  each part.
\<close>

datatype worker_pc = AtLoop | Waiting duration | Rotating duration | Exited

definition worker_look :: "instant \<Rightarrow> worker_ctl \<Rightarrow> worker_pc" where
  "worker_look now ctl =
     (if wc_stop ctl then Exited
      else if now \<ge> wc_next_rotation_at ctl then Rotating (wc_rotate_every ctl)
      else Waiting (wc_next_rotation_at ctl - now))"

definition worker_rotate :: "crates \<Rightarrow> 'p shared \<Rightarrow> ('p world, bool) leff" where
  "worker_rotate cr sh =
     bindM (tryM (rotate_now cr sh)) (\<lambda>r. case r of
       Inr u \<Rightarrow> ret False
     | Inl e \<Rightarrow> handle_rotation_error sh e)"

definition worker_reschedule :: "instant \<Rightarrow> duration \<Rightarrow> worker_ctl \<Rightarrow> worker_pc \<times> worker_ctl" where
  "worker_reschedule now every ctl =
     (if wc_stop ctl then (Exited, ctl)
      else case instant_checked_add now every of
        Some next \<Rightarrow> (AtLoop, ctl\<lparr>wc_next_rotation_at := next\<rparr>)
      | None \<Rightarrow> (Exited, ctl))"

definition rotation_guard_drop :: "worker_ctl \<Rightarrow> worker_ctl" where
  "rotation_guard_drop ctl = ctl\<lparr>wc_stop := True\<rparr>"

section \<open>The manager\<close>

definition start_with_config ::
    "crates \<Rightarrow> path \<Rightarrow> 'p mk_provider \<Rightarrow> 'p km_config \<Rightarrow> 'p rotation_error_policy \<Rightarrow> instant
     \<Rightarrow> ('p world, 'p shared \<times> bool) leff" where
  "start_with_config cr base_dir prov config err_policy now =
     (if cf_rotation_enabled config \<and> cf_rotate_every config < MIN_ROTATE_EVERY
      then fail (malformed_input ''rotate_every_too_small'')
      else
        let root = join base_dir ''KeyManager''; pub = join root PUB_DIR; priv = join root PRIV_DIR;
            secrets = join root SECRETS_DIR; rotate = join root ROTATE_DIR in
        bindM (ensure_private_dir root) (\<lambda>_.
        bindM (ensure_private_dir pub) (\<lambda>_.
        bindM (ensure_private_dir priv) (\<lambda>_.
        bindM (ensure_private_dir secrets) (\<lambda>_.
        bindM (acquire_exclusive_lock root (cf_file_lock config)) (\<lambda>lock_held.
        bindM (tryM (load_mk prov)) (\<lambda>r.
        bindM (case r of
            Inr mk \<Rightarrow> ret ()
          | Inl e \<Rightarrow> if is_not_found e then bindM (random_fixed 32) (\<lambda>new_mk. store_mk prov new_mk) else fail e) (\<lambda>_.
        bindM (recover_pending_rotation_if_any cr root priv secrets rotate prov) (\<lambda>_.
        bindM (load_mk prov) (\<lambda>root_mk.
        bindM (arena_with_capacity (cf_locking config) (cf_arena_capacity config)) (\<lambda>(arena, locked).
        bindM (\<lambda>w. (Done (), w\<lparr>arena_st := arena\<rparr>)) (\<lambda>_.
        bindM (ensure_asymmetric_material cr pub priv root_mk (cf_public_cache_policy config)) (\<lambda>public_keys.
        bindM (liftR (ok_or ttl_too_large (instant_checked_add now (cf_rotate_every config)))) (\<lambda>next_rotation_at.
        bindM (\<lambda>w. (Done (), w\<lparr>poisoned := False\<rparr>)) (\<lambda>_.
        bindM (if cf_rotation_enabled config then mapM_err lithium_io spawn_thread else ret ()) (\<lambda>_.
        ret (\<lparr>sh_root_dir = root, sh_pub_dir = pub, sh_priv_dir = priv, sh_secrets_dir = secrets,
          sh_rotate_dir = rotate, sh_mk_provider = prov, sh_memory_locked = locked,
          sh_public_cache_policy = cf_public_cache_policy config, sh_create_new_mode = cf_create_new_mode config,
          sh_keys = public_keys, sh_error_policy = err_policy,
          sh_ctl = \<lparr>wc_stop = False, wc_rotate_every = cf_rotate_every config, wc_next_rotation_at = next_rotation_at\<rparr>,
          sh_lock_held = lock_held\<rparr>, cf_rotation_enabled config)))))))))))))))))"

definition km_start ::
    "crates \<Rightarrow> path \<Rightarrow> 'p mk_provider \<Rightarrow> public_cache_policy \<Rightarrow> 'p rotation_error_policy \<Rightarrow> instant
     \<Rightarrow> ('p world, 'p shared \<times> bool) leff" where
  "km_start cr base_dir prov policy err_policy now =
     start_with_config cr base_dir prov (km_config_new LockingRequire policy) err_policy now"

definition km_start_best_effort ::
    "crates \<Rightarrow> path \<Rightarrow> 'p mk_provider \<Rightarrow> public_cache_policy \<Rightarrow> 'p rotation_error_policy \<Rightarrow> instant
     \<Rightarrow> ('p world, 'p shared \<times> bool) leff" where
  "km_start_best_effort cr base_dir prov policy err_policy now =
     start_with_config cr base_dir prov (km_config_new LockingBestEffort policy) err_policy now"

definition km_start_plain ::
    "crates \<Rightarrow> path \<Rightarrow> public_cache_policy \<Rightarrow> 'p rotation_error_policy \<Rightarrow> instant
     \<Rightarrow> ('p world, 'p shared \<times> bool) leff" where
  "km_start_plain cr base_dir policy err_policy now =
     km_start cr base_dir (plaintext_provider cr (join base_dir ''mk'')) policy err_policy now"

definition km_public_keys :: "'p shared \<Rightarrow> public_keys" where
  "km_public_keys sh = sh_keys sh"

definition km_dual_verifying_key :: "'p shared \<Rightarrow> dual_verifying_key" where
  "km_dual_verifying_key sh =
     (let pk = km_public_keys sh in dual_verifying_key_new (pk_ed25519 pk) (pk_dilithium pk))"

definition km_memory_locked :: "'p shared \<Rightarrow> bool" where
  "km_memory_locked sh = sh_memory_locked sh"

definition set_rotate_interval :: "instant \<Rightarrow> duration \<Rightarrow> worker_ctl \<Rightarrow> unit result \<times> worker_ctl" where
  "set_rotate_interval now interval ctl =
     (if interval < MIN_ROTATE_EVERY then (Inl (malformed_input ''rotate_every_too_small''), ctl)
      else case instant_checked_add now interval of
        None \<Rightarrow> (Inl ttl_too_large, ctl)
      | Some next \<Rightarrow> (Inr (), ctl\<lparr>wc_rotate_every := interval, wc_next_rotation_at := next\<rparr>))"

definition reload_public_keys :: "crates \<Rightarrow> 'p shared \<Rightarrow> ('p world, 'p shared) leff" where
  "reload_public_keys cr sh =
     bindM check_live (\<lambda>_.
     bindM (load_mk (sh_mk_provider sh)) (\<lambda>mk.
     bindM (ensure_asymmetric_material cr (sh_pub_dir sh) (sh_priv_dir sh) mk (sh_public_cache_policy sh)) (\<lambda>ks.
     ret (sh\<lparr>sh_keys := ks\<rparr>))))"

definition get_or_create_secret32 :: "crates \<Rightarrow> 'p shared \<Rightarrow> bytes \<Rightarrow> ('p world, bytes) leff" where
  "get_or_create_secret32 cr sh label =
     bindM (read_gate sh) (\<lambda>_.
     with_current_mk sh (\<lambda>mk. case sh_create_new_mode sh of
       LinkNoReplace \<Rightarrow> get_or_create_label (sh_mk_provider sh) mk label (sh_secrets_dir sh)
     | RenameBestEffort \<Rightarrow> load_or_create_label_secret32 cr (sh_secrets_dir sh) mk label RenameBestEffort))"

definition label_aead_ctx :: "string result" where
  "label_aead_ctx =
     rbind (ctx_base ''lithium'') (\<lambda>c. rbind (ctx_add c ''keymanager'') (\<lambda>c. ctx_add c ''label-aead''))"

definition encrypt_with_label :: "crates \<Rightarrow> 'p shared \<Rightarrow> bytes \<Rightarrow> bytes \<Rightarrow> bytes \<Rightarrow> ('p world, bytes) leff" where
  "encrypt_with_label cr sh label plaintext aad =
     bindM (get_or_create_secret32 cr sh label) (\<lambda>dek.
     bindM (liftR label_aead_ctx) (\<lambda>c.
     aead_encrypt cr plaintext dek c aad))"

definition decrypt_with_label :: "crates \<Rightarrow> 'p shared \<Rightarrow> bytes \<Rightarrow> bytes \<Rightarrow> bytes \<Rightarrow> ('p world, bytes) leff" where
  "decrypt_with_label cr sh label blob aad =
     bindM (get_or_create_secret32 cr sh label) (\<lambda>dek.
     bindM (liftR label_aead_ctx) (\<lambda>c.
     liftR (aead_decrypt cr blob dek c aad)))"

definition load_or_create_sealed_blob :: "crates \<Rightarrow> 'p shared \<Rightarrow> bytes \<Rightarrow> ('p world, bytes) leff \<Rightarrow> ('p world, bytes) leff" where
  "load_or_create_sealed_blob cr sh label generate =
     bindM (read_gate sh) (\<lambda>_.
     with_current_mk sh (\<lambda>mk.
     load_or_create_label_bytes cr (sh_secrets_dir sh) mk label generate (sh_create_new_mode sh)))"

definition signing_seeds :: "crates \<Rightarrow> 'p shared \<Rightarrow> (region \<Rightarrow> region \<Rightarrow> ('p world, 'a) leff) \<Rightarrow> ('p world, 'a) leff" where
  "signing_seeds cr sh f =
     bindM (bindM (read_gate sh) (\<lambda>_.
       with_current_mk sh (\<lambda>mk.
       bindM (load_secret32_decrypted cr (join (sh_priv_dir sh) ED_PRIV) mk KT_ED_SEED) (\<lambda>ed_seed.
       bindM (load_bytes_decrypted cr (join (sh_priv_dir sh) DILI_PRIV) mk KT_DILI_SEED) (\<lambda>dili_seed.
       bindM (arenaM (store_fixed 32 ed_seed)) (\<lambda>ed_locked.
       bindM (tryM (arenaM (store_slice_fixed 32 dili_seed))) (\<lambda>r. case r of
         Inl e \<Rightarrow> with_region ed_locked (fail e)
       | Inr dili_locked \<Rightarrow> ret (ed_locked, dili_locked)))))))) (\<lambda>(ed_locked, dili_locked).
     with_region ed_locked (with_region dili_locked (f ed_locked dili_locked)))"

definition km_sign_double :: "crates \<Rightarrow> 'p shared \<Rightarrow> bytes \<Rightarrow> string \<Rightarrow> ('p world, double_sig) leff" where
  "km_sign_double cr sh message c =
     signing_seeds cr sh (\<lambda>ed_seed dili_seed.
       bindM (region_bytes ed_seed) (\<lambda>ed.
       bindM (region_bytes dili_seed) (\<lambda>dili.
       liftR (sign_double cr message ed dili c))))"

end
