(* ===== verification/Store.thy ===== *)
theory Store
  imports Manager "HOL-Library.Multiset" "HOL-Library.Product_Lexorder"
begin

text \<open>
  The in-memory store of ephemeral secrets, \<^verbatim>\<open>src/src/utils/store.rs\<close>: a map from hashed keys to
  encrypted values with deadlines, and a heap of deadlines by which expired entries are swept.  An
  operation holds the mutex while it looks at the store, and takes the time before; so every operation
  is one step that runs at some instant, and nothing is assumed about the order of the instants of
  different operations.  A mutex poisoned by a panic is not modelled: no critical section panics.

  The theory shows that the sweep terminates and removes exactly what is expired, that the store
  implements a map whose values vanish at their deadlines, and that no operation leaves an entry that
  a later sweep would miss.
\<close>

section \<open>State\<close>

record store_entry =
  se_ciphertext :: bytes
  se_expires_at :: instant
  se_version :: u64

datatype heap_entry = HeapEntry (hn_expires_at: instant) (hn_version: u64) (hn_key: string)

text \<open>\<open>StoreInner\<close>, and beside it the condition variable of \<open>Shared\<close>: \<open>st_notified\<close> is whether the cleanup thread
  has been notified since it went to wait.\<close>

record store_inner =
  st_map :: "string \<rightharpoonup> store_entry"
  st_heap :: "heap_entry multiset"
  st_next_version :: u64
  st_stop :: bool
  st_notified :: bool

definition store_inner_default :: store_inner where
  "store_inner_default = \<lparr>st_map = Map.empty, st_heap = {#}, st_next_version = 0, st_stop = False, st_notified = False\<rparr>"

text \<open>\<open>Ord for HeapEntry\<close> turns the order around, so that the greatest entry, which a \<open>BinaryHeap\<close> gives
  first, is the one that expires first.\<close>

definition heap_key :: "heap_entry \<Rightarrow> instant \<times> u64 \<times> string" where
  "heap_key e = (hn_expires_at e, hn_version e, hn_key e)"

lemma heap_key_inject [simp]: "heap_key a = heap_key b \<longleftrightarrow> a = b"
  by (cases a; cases b) (simp add: heap_key_def)

instantiation heap_entry :: linorder
begin

definition less_eq_heap_entry :: "heap_entry \<Rightarrow> heap_entry \<Rightarrow> bool" where
  "less_eq_heap_entry a b \<longleftrightarrow> heap_key b \<le> heap_key a"

definition less_heap_entry :: "heap_entry \<Rightarrow> heap_entry \<Rightarrow> bool" where
  "less_heap_entry a b \<longleftrightarrow> heap_key b < heap_key a"

instance
proof
  fix a b c :: heap_entry
  show "a < b \<longleftrightarrow> a \<le> b \<and> \<not> b \<le> a"
    unfolding less_eq_heap_entry_def less_heap_entry_def by (rule less_le_not_le)
  show "a \<le> a" by (simp add: less_eq_heap_entry_def)
  show "a \<le> b \<Longrightarrow> b \<le> c \<Longrightarrow> a \<le> c"
    unfolding less_eq_heap_entry_def by (rule order_trans)
  show "a \<le> b \<Longrightarrow> b \<le> a \<Longrightarrow> a = b"
    unfolding less_eq_heap_entry_def using order_antisym heap_key_inject by metis
  show "a \<le> b \<or> b \<le> a" unfolding less_eq_heap_entry_def by (rule linear)
qed

end

definition heap_peek :: "heap_entry multiset \<Rightarrow> heap_entry option" where
  "heap_peek h = (if h = {#} then None else Some (Max (set_mset h)))"

definition heap_pop :: "heap_entry multiset \<Rightarrow> heap_entry multiset" where
  "heap_pop h = h - {#Max (set_mset h)#}"

section \<open>Sweeping\<close>

definition should_remove :: "instant \<Rightarrow> heap_entry \<Rightarrow> store_inner \<Rightarrow> bool" where
  "should_remove now tp i = (case st_map i (hn_key tp) of
     Some cur \<Rightarrow> se_version cur = hn_version tp \<and> se_expires_at cur \<le> now
   | None \<Rightarrow> False)"

definition sweep_step :: "instant \<Rightarrow> heap_entry \<Rightarrow> store_inner \<Rightarrow> store_inner" where
  "sweep_step now tp i =
     (let i1 = i\<lparr>st_heap := heap_pop (st_heap i)\<rparr> in
      if should_remove now tp i1 then i1\<lparr>st_map := (st_map i1)(hn_key tp := None)\<rparr> else i1)"

text \<open>The loop as written; \<open>None\<close> would be a loop that never ends.\<close>

partial_function (option) sweep_expired :: "instant \<Rightarrow> store_inner \<Rightarrow> store_inner option" where
  "sweep_expired now i = (case heap_peek (st_heap i) of
     None \<Rightarrow> Some i
   | Some tp \<Rightarrow> if hn_expires_at tp > now then Some i else sweep_expired now (sweep_step now tp i))"

definition next_version :: "store_inner \<Rightarrow> u64 result \<times> store_inner" where
  "next_version i = (case checked_add_u64 (st_next_version i) 1 of
     None \<Rightarrow> (Inl (internal_error ''store_version_overflow''), i)
   | Some v \<Rightarrow> (Inr (st_next_version i), i\<lparr>st_next_version := v\<rparr>))"

section \<open>Operations\<close>

type_synonym ('p, 'a) seff = "(store_inner \<times> 'p world, lithium_error, 'a) eff"

text \<open>Code that does not look at the store, and code that does nothing else.\<close>

definition outside :: "('p world, 'a) leff \<Rightarrow> ('p, 'a) seff" where
  "outside m s = (case m (snd s) of (r, w) \<Rightarrow> (r, (fst s, w)))"

definition inside :: "(store_inner \<Rightarrow> 'a result \<times> store_inner) \<Rightarrow> ('p, 'a) seff" where
  "inside f s = (case f (fst s) of
     (Inl e, i) \<Rightarrow> (Fail e, (i, snd s)) | (Inr a, i) \<Rightarrow> (Done a, (i, snd s)))"

definition sweepM :: "instant \<Rightarrow> ('p, unit) seff" where
  "sweepM now s = (case sweep_expired now (fst s) of
     None \<Rightarrow> (Crash, s) | Some i \<Rightarrow> (Done (), (i, snd s)))"

definition store_ctx :: "string result" where
  "store_ctx = rbind (ctx_base ''lithium'') (\<lambda>c. ctx_add c ''ephemeral-store'')"

definition hash_sha256_hex :: "crates \<Rightarrow> bytes \<Rightarrow> string" where
  "hash_sha256_hex cr data = hex_encode cr (sha256_digest cr data)"

definition store_seal :: "crates \<Rightarrow> bytes \<Rightarrow> string \<Rightarrow> bytes \<Rightarrow> ('p world, bytes) leff" where
  "store_seal cr skey hkey value =
     bindM (liftR (sec_fixed_from_slice 32 skey)) (\<lambda>key.
     bindM (liftR store_ctx) (\<lambda>c.
     aead_encrypt cr value key c (as_bytes hkey)))"

definition store_unseal :: "crates \<Rightarrow> bytes \<Rightarrow> string \<Rightarrow> bytes \<Rightarrow> bytes result" where
  "store_unseal cr skey hkey blob =
     rbind (sec_fixed_from_slice 32 skey) (\<lambda>key.
     rbind store_ctx (\<lambda>c.
     aead_decrypt cr blob key c (as_bytes hkey)))"

text \<open>The end of \<open>set\<close> and \<open>set_if_absent\<close>: a new version, the entry, its deadline, and \<open>notify_one\<close>.\<close>

definition store_insert :: "string \<Rightarrow> bytes \<Rightarrow> instant \<Rightarrow> store_inner \<Rightarrow> unit result \<times> store_inner" where
  "store_insert hkey ciphertext expires_at i = (case next_version i of
     (Inl e, i1) \<Rightarrow> (Inl e, i1)
   | (Inr ver, i1) \<Rightarrow>
       (Inr (), i1\<lparr>st_map := (st_map i1)(hkey \<mapsto> \<lparr>se_ciphertext = ciphertext, se_expires_at = expires_at, se_version = ver\<rparr>),
          st_heap := add_mset (HeapEntry expires_at ver hkey) (st_heap i1),
          st_notified := True\<rparr>))"

definition store_set :: "crates \<Rightarrow> bytes \<Rightarrow> instant \<Rightarrow> string \<Rightarrow> bytes \<Rightarrow> duration \<Rightarrow> ('p, unit) seff" where
  "store_set cr skey now key value ttl =
     (if ttl = 0 then ret ()
      else
        bindM (liftR (ok_or ttl_too_large (instant_checked_add now ttl))) (\<lambda>expires_at.
        let hkey = hash_sha256_hex cr (as_bytes key) in
        bindM (outside (store_seal cr skey hkey value)) (\<lambda>ciphertext.
        bindM (sweepM now) (\<lambda>_.
        inside (store_insert hkey ciphertext expires_at)))))"

definition store_set_if_absent :: "crates \<Rightarrow> bytes \<Rightarrow> instant \<Rightarrow> string \<Rightarrow> bytes \<Rightarrow> duration \<Rightarrow> ('p, bool) seff" where
  "store_set_if_absent cr skey now key value ttl =
     (if ttl = 0 then ret False
      else
        bindM (liftR (ok_or ttl_too_large (instant_checked_add now ttl))) (\<lambda>expires_at.
        let hkey = hash_sha256_hex cr (as_bytes key) in
        bindM (outside (store_seal cr skey hkey value)) (\<lambda>ciphertext.
        bindM (sweepM now) (\<lambda>_.
        bindM (inside (\<lambda>i. (Inr (case st_map i hkey of Some e \<Rightarrow> se_expires_at e > now | None \<Rightarrow> False), i))) (\<lambda>live.
        if live then ret False
        else bindM (inside (store_insert hkey ciphertext expires_at)) (\<lambda>_. ret True))))))"

definition store_peek :: "crates \<Rightarrow> bytes \<Rightarrow> instant \<Rightarrow> string \<Rightarrow> ('p, bytes option) seff" where
  "store_peek cr skey now key =
     (let hkey = hash_sha256_hex cr (as_bytes key) in
      bindM (inside (\<lambda>i. case st_map i hkey of
          Some entry \<Rightarrow>
            if se_expires_at entry > now then (Inr (Some (se_ciphertext entry)), i)
            else (Inr None, i\<lparr>st_map := (st_map i)(hkey := None)\<rparr>)
        | None \<Rightarrow> (Inr None, i))) (\<lambda>blob.
      case blob of
        None \<Rightarrow> ret None
      | Some b \<Rightarrow> bindM (liftR (store_unseal cr skey hkey b)) (\<lambda>v. ret (Some v))))"

definition store_take :: "crates \<Rightarrow> bytes \<Rightarrow> instant \<Rightarrow> string \<Rightarrow> ('p, bytes option) seff" where
  "store_take cr skey now key =
     (let hkey = hash_sha256_hex cr (as_bytes key) in
      bindM (inside (\<lambda>i. (Inr (st_map i hkey), i\<lparr>st_map := (st_map i)(hkey := None)\<rparr>))) (\<lambda>entry.
      case entry of
        None \<Rightarrow> ret None
      | Some e \<Rightarrow>
          if se_expires_at e \<le> now then ret None
          else bindM (liftR (store_unseal cr skey hkey (se_ciphertext e))) (\<lambda>v. ret (Some v))))"

definition store_del :: "crates \<Rightarrow> string \<Rightarrow> ('p, unit) seff" where
  "store_del cr key =
     (let hkey = hash_sha256_hex cr (as_bytes key) in
      inside (\<lambda>i. (Inr (), i\<lparr>st_map := (st_map i)(hkey := None)\<rparr>)))"

text \<open>One pass of the cleanup thread: whether it goes on, and until when it then sleeps at most.  It keeps the lock until it waits,
  so nothing is notified in between.\<close>

definition cleanup_pass :: "instant \<Rightarrow> store_inner \<Rightarrow> (bool \<times> instant option \<times> store_inner) option" where
  "cleanup_pass now i =
     (if st_stop i then Some (False, None, i)
      else case sweep_expired now i of
        None \<Rightarrow> None
      | Some i' \<Rightarrow> Some (True, map_option hn_expires_at (heap_peek (st_heap i')), i'\<lparr>st_notified := False\<rparr>))"

text \<open>\<open>with_locking\<close>: the store and its key, which lives in an arena of its own.\<close>

definition store_with_locking :: "memory_locking \<Rightarrow> ('p world, store_inner \<times> bytes) leff" where
  "store_with_locking locking =
     bindM (arena_with_capacity locking 4096) (\<lambda>(a, locked).
     case claim 32 a of
       (Inl e, a') \<Rightarrow> fail e
     | (Inr r, a') \<Rightarrow>
         bindM (random_fixed 32) (\<lambda>bs.
         let a'' = region_write r bs a' in
         bindM (mapM_err lithium_io spawn_thread) (\<lambda>_.
         ret (store_inner_default, region_slice r a''))))"

definition store_new :: "('p world, store_inner \<times> bytes) leff" where
  "store_new = store_with_locking LockingBestEffort"

text \<open>Dropping the last handle.\<close>

definition cleanup_guard_drop :: "store_inner \<Rightarrow> store_inner" where
  "cleanup_guard_drop i = i\<lparr>st_stop := True, st_notified := True\<rparr>"


section \<open>The sweep\<close>

lemma heap_peek_SomeD:
  assumes "heap_peek h = Some tp"
  shows "tp \<in># h" and "e \<in># h \<Longrightarrow> hn_expires_at tp \<le> hn_expires_at e" and "heap_pop h = h - {#tp#}"
proof -
  have tp: "h \<noteq> {#}" "tp = Max (set_mset h)" using assms by (auto simp: heap_peek_def split: if_splits)
  then have "set_mset h \<noteq> {}" by simp
  with tp show "tp \<in># h" using Max_in [of "set_mset h"] by simp
  show "heap_pop h = h - {#tp#}" using tp by (simp add: heap_pop_def)
  assume "e \<in># h"
  then have "e \<le> tp" using tp by simp
  then show "hn_expires_at tp \<le> hn_expires_at e"
    by (auto simp: less_eq_heap_entry_def heap_key_def less_eq_prod_def)
qed

lemma heap_peek_None [simp]: "heap_peek h = None \<longleftrightarrow> h = {#}"
  by (simp add: heap_peek_def)

text \<open>What a sweep at \<open>now\<close> removes from the map: expired entries with a due heap entry of their version.\<close>

definition swept :: "instant \<Rightarrow> heap_entry multiset \<Rightarrow> (string \<rightharpoonup> store_entry) \<Rightarrow> string \<Rightarrow> store_entry option" where
  "swept now h m k = (case m k of
     Some e \<Rightarrow> if se_expires_at e \<le> now
         \<and> (\<exists>tp\<in>#h. hn_expires_at tp \<le> now \<and> hn_key tp = k \<and> hn_version tp = se_version e) then None else Some e
   | None \<Rightarrow> None)"

lemma swept_none: "(\<And>tp. tp \<in># h \<Longrightarrow> now < hn_expires_at tp) \<Longrightarrow> swept now h m = m"
  by (rule ext) (auto simp: swept_def split: option.splits, fastforce)

lemma swept_step:
  assumes "tp \<in># st_heap i" and "heap_pop (st_heap i) = st_heap i - {#tp#}" and "hn_expires_at tp \<le> now"
  shows "swept now (st_heap (sweep_step now tp i)) (st_map (sweep_step now tp i)) = swept now (st_heap i) (st_map i)"
proof
  fix k
  have h: "x \<in># st_heap i \<longleftrightarrow> x = tp \<or> x \<in># st_heap i - {#tp#}" for x
    using assms(1) by (metis insert_DiffM insert_noteq_member set_mset_add_mset_insert insert_iff)
  have heap: "st_heap (sweep_step now tp i) = st_heap i - {#tp#}"
    using assms(2) by (simp add: sweep_step_def Let_def)
  show "swept now (st_heap (sweep_step now tp i)) (st_map (sweep_step now tp i)) k = swept now (st_heap i) (st_map i) k"
  proof (cases "hn_key tp = k \<and> should_remove now tp i")
    case True
    then obtain e where e: "st_map i k = Some e" "se_version e = hn_version tp" "se_expires_at e \<le> now"
      by (auto simp: should_remove_def split: option.splits)
    have "st_map (sweep_step now tp i) k = None"
      using True by (auto simp: sweep_step_def should_remove_def Let_def)
    moreover have "swept now (st_heap i) (st_map i) k = None"
      using e True assms(1,3) by (auto simp: swept_def)
    ultimately show ?thesis by (simp add: swept_def)
  next
    case False
    have m: "st_map (sweep_step now tp i) k = st_map i k"
      using False by (auto simp: sweep_step_def should_remove_def Let_def)
    have "(\<exists>x\<in>#st_heap i - {#tp#}. hn_expires_at x \<le> now \<and> hn_key x = k \<and> hn_version x = se_version e)
        \<longleftrightarrow> (\<exists>x\<in>#st_heap i. hn_expires_at x \<le> now \<and> hn_key x = k \<and> hn_version x = se_version e)"
      if "st_map i k = Some e" "se_expires_at e \<le> now" for e
      using False that h by (auto simp: should_remove_def)
    then show ?thesis
      by (cases "st_map i k") (auto simp: swept_def m heap)
  qed
qed

lemma sweep_expired_run:
  "\<exists>i'. sweep_expired now i = Some i' \<and> st_heap i' = filter_mset (\<lambda>e. now < hn_expires_at e) (st_heap i)
     \<and> st_map i' = swept now (st_heap i) (st_map i)
     \<and> st_next_version i' = st_next_version i \<and> st_stop i' = st_stop i \<and> st_notified i' = st_notified i"
proof (induction "size (st_heap i)" arbitrary: i rule: less_induct)
  case less
  show ?case
  proof (cases "heap_peek (st_heap i)")
    case None
    then have "st_heap i = {#}" by simp
    then show ?thesis
      using swept_none [of "{#}" now "st_map i"] by (simp add: sweep_expired.simps heap_peek_def)
  next
    case (Some tp)
    note P = heap_peek_SomeD [OF Some]
    show ?thesis
    proof (cases "now < hn_expires_at tp")
      case True
      then have later: "now < hn_expires_at e" if "e \<in># st_heap i" for e
        using P(2) [OF that] by simp
      then have "filter_mset (\<lambda>e. now < hn_expires_at e) (st_heap i) = st_heap i"
        by (intro multiset_eqI) (auto simp: count_eq_zero_iff)
      then show ?thesis
        using Some True swept_none [of "st_heap i" now "st_map i"] later
        by (simp add: sweep_expired.simps)
    next
      case False
      let ?i = "sweep_step now tp i"
      have heap: "st_heap ?i = st_heap i - {#tp#}" "st_next_version ?i = st_next_version i" "st_stop ?i = st_stop i"
          "st_notified ?i = st_notified i"
        using P(3) by (simp_all add: sweep_step_def Let_def)
      have "size (st_heap ?i) < size (st_heap i)"
        using P(1) by (simp add: heap size_Diff1_less)
      from less [OF this] obtain i' where i': "sweep_expired now ?i = Some i'"
          "st_heap i' = filter_mset (\<lambda>e. now < hn_expires_at e) (st_heap ?i)"
          "st_map i' = swept now (st_heap ?i) (st_map ?i)"
          "st_next_version i' = st_next_version ?i" "st_stop i' = st_stop ?i" "st_notified i' = st_notified ?i"
        by blast
      have "filter_mset (\<lambda>e. now < hn_expires_at e) (st_heap i - {#tp#}) = filter_mset (\<lambda>e. now < hn_expires_at e) (st_heap i)"
        using False P(1) by (simp add: filter_diff_mset)
      moreover have "swept now (st_heap ?i) (st_map ?i) = swept now (st_heap i) (st_map i)"
        using swept_step [OF P(1,3)] False by simp
      ultimately show ?thesis
        using Some False i' heap by (simp add: sweep_expired.simps [of now i])
    qed
  qed
qed


section \<open>Invariant and view\<close>

definition store_inv :: "crates \<Rightarrow> bytes \<Rightarrow> store_inner \<Rightarrow> bool" where
  "store_inv cr skey i \<longleftrightarrow> (\<forall>k e. st_map i k = Some e \<longrightarrow>
     HeapEntry (se_expires_at e) (se_version e) k \<in># st_heap i
     \<and> is_ok (store_unseal cr skey k (se_ciphertext e)))"

text \<open>What the store holds for a hashed key at an instant.\<close>

definition store_view :: "crates \<Rightarrow> bytes \<Rightarrow> instant \<Rightarrow> store_inner \<Rightarrow> string \<Rightarrow> bytes option" where
  "store_view cr skey t i k = (case st_map i k of
     Some e \<Rightarrow> if t < se_expires_at e
       then (case store_unseal cr skey k (se_ciphertext e) of Inr v \<Rightarrow> Some v | Inl _ \<Rightarrow> None) else None
   | None \<Rightarrow> None)"

lemma store_inv_default: "store_inv cr skey store_inner_default"
  by (simp add: store_inv_def store_inner_default_def)

lemma notified_irrelevant [simp]:
  "store_inv cr skey (i\<lparr>st_notified := b\<rparr>) \<longleftrightarrow> store_inv cr skey i" "store_view cr skey t (i\<lparr>st_notified := b\<rparr>) = store_view cr skey t i"
  "store_inv cr skey (cleanup_guard_drop i) \<longleftrightarrow> store_inv cr skey i" "store_view cr skey t (cleanup_guard_drop i) = store_view cr skey t i"
  by (simp_all add: store_inv_def store_view_def cleanup_guard_drop_def fun_eq_iff)

text \<open>Under the invariant a sweep removes the expired entries and nothing else.\<close>

lemma swept_inv:
  assumes "store_inv cr skey i"
  shows "swept now (st_heap i) (st_map i) k
    = (case st_map i k of Some e \<Rightarrow> if se_expires_at e \<le> now then None else Some e | None \<Rightarrow> None)"
proof (cases "st_map i k")
  case (Some e)
  then have "HeapEntry (se_expires_at e) (se_version e) k \<in># st_heap i" using assms by (simp add: store_inv_def)
  then show ?thesis using Some by (force simp: swept_def)
qed (simp add: swept_def)

lemma sweep_keeps:
  assumes "store_inv cr skey i" and "sweep_expired now i = Some i'"
  shows "store_inv cr skey i'" and "now \<le> t \<Longrightarrow> store_view cr skey t i' = store_view cr skey t i"
    and "st_map i' k = Some e \<Longrightarrow> now < se_expires_at e" and "x \<in># st_heap i' \<Longrightarrow> now < hn_expires_at x"
proof -
  have i': "st_heap i' = filter_mset (\<lambda>e. now < hn_expires_at e) (st_heap i)"
      "st_map i' k = (case st_map i k of Some e \<Rightarrow> if se_expires_at e \<le> now then None else Some e | None \<Rightarrow> None)" for k
    using sweep_expired_run [of now i] assms(2) swept_inv [OF assms(1), of now k] by auto
  show "store_inv cr skey i'"
    using assms(1) by (auto simp: store_inv_def i' split: option.splits if_splits)
  show "now \<le> t \<Longrightarrow> store_view cr skey t i' = store_view cr skey t i"
    by (rule ext) (auto simp: store_view_def i' split: option.splits)
  show "st_map i' k = Some e \<Longrightarrow> now < se_expires_at e"
    by (auto simp: i' split: option.splits if_splits)
  show "x \<in># st_heap i' \<Longrightarrow> now < hn_expires_at x" by (auto simp: i')
qed

lemma insert_keeps:
  assumes "store_inv cr skey i" and "store_unseal cr skey hk ct = Inr v"
    and "store_insert hk ct d i = (Inr (), i')"
  shows "store_inv cr skey i'"
    and "store_view cr skey t i' = (store_view cr skey t i)(hk := if t < d then Some v else None)"
proof -
  obtain ver nv where i': "i' = i\<lparr>st_next_version := nv,
      st_map := (st_map i)(hk \<mapsto> \<lparr>se_ciphertext = ct, se_expires_at = d, se_version = ver\<rparr>),
      st_heap := add_mset (HeapEntry d ver hk) (st_heap i), st_notified := True\<rparr>"
    using assms(3) by (auto simp: store_insert_def next_version_def split: option.splits)
  show "store_inv cr skey i'"
    using assms(1,2) by (auto simp: store_inv_def i' is_ok_iff)
  show "store_view cr skey t i' = (store_view cr skey t i)(hk := if t < d then Some v else None)"
    by (rule ext) (simp add: store_view_def i' assms(2))
qed

lemma remove_keeps:
  assumes "store_inv cr skey i" and "i' = i\<lparr>st_map := (st_map i)(hk := None)\<rparr>"
  shows "store_inv cr skey i'" and "store_view cr skey t i' = (store_view cr skey t i)(hk := None)"
  using assms by (auto simp: store_inv_def store_view_def fun_eq_iff)

lemma store_ctx_ok: "store_ctx = Inr ''lithium/ephemeral-store''"
  by (simp add: store_ctx_def ctx_base_def ctx_add_def validate_segment_def segment_byte_def MAX_CONTEXT_LEN_def Let_def)

lemma store_seal_opens:
  assumes "aead_ok cr" and "store_seal cr skey hk v w = (Done ct, w')"
  shows "store_unseal cr skey hk ct = Inr v"
proof -
  have k: "length skey = 32" and e: "aead_encrypt cr v skey ''lithium/ephemeral-store'' (as_bytes hk) w = (Done ct, w')"
    using assms(2) by (auto simp: store_seal_def store_ctx_ok done_iffs)
  have "encrypt_framed cr v skey (rng_draw w 12) ''lithium/ephemeral-store'' (as_bytes hk) = Inr ct"
    using e by (auto simp: aead_encrypt_def bindM_def random_fixed_def liftR_def split: if_splits sum.splits)
  from decrypt_framed(1) [OF assms(1) k length_rng_draw this] show ?thesis
    using k by (simp add: store_unseal_def store_ctx_ok sec_fixed_from_slice_def)
qed

lemma inside_Done_iff: "inside f s = (Done a, s') \<longleftrightarrow> f (fst s) = (Inr a, fst s') \<and> snd s' = snd s"
  by (cases s') (auto simp: inside_def split: prod.splits sum.splits)

lemma outside_Done_iff: "outside m s = (Done a, s') \<longleftrightarrow> m (snd s) = (Done a, snd s') \<and> fst s' = fst s"
  by (cases s') (auto simp: outside_def split: prod.splits)

lemma sweepM_Done_iff: "sweepM now s = (Done u, s') \<longleftrightarrow> sweep_expired now (fst s) = Some (fst s') \<and> snd s' = snd s"
  by (cases s') (auto simp: sweepM_def split: option.splits)

lemmas store_iffs = done_iffs inside_Done_iff outside_Done_iff sweepM_Done_iff


section \<open>The contract of a store with deadlines\<close>

text \<open>
  The promise to clients: a state has at every instant a view, a map from keys to values, and each
  operation that returns has the named effect on the view from its own instant on.
\<close>

locale ttl_store =
  fixes ok :: "'s \<Rightarrow> bool"
    and view :: "instant \<Rightarrow> 's \<Rightarrow> 'k \<Rightarrow> 'v option"
    and put :: "instant \<Rightarrow> 'k \<Rightarrow> 'v \<Rightarrow> instant \<Rightarrow> 's \<Rightarrow> 's \<Rightarrow> bool"
    and get :: "instant \<Rightarrow> 'k \<Rightarrow> 'v option \<Rightarrow> 's \<Rightarrow> 's \<Rightarrow> bool"
    and take_out :: "instant \<Rightarrow> 'k \<Rightarrow> 'v option \<Rightarrow> 's \<Rightarrow> 's \<Rightarrow> bool"
  assumes put_law: "ok s \<Longrightarrow> put n k v d s s' \<Longrightarrow>
      ok s' \<and> (\<forall>t\<ge>n. view t s' = (view t s)(k := if t < d then Some v else None))"
    and get_law: "ok s \<Longrightarrow> get n k r s s' \<Longrightarrow> ok s' \<and> r = view n s k \<and> (\<forall>t\<ge>n. view t s' = view t s)"
    and take_law: "ok s \<Longrightarrow> take_out n k r s s' \<Longrightarrow> ok s' \<and> r = view n s k \<and> (\<forall>t. view t s' = (view t s)(k := None))"
begin

lemma get_after_put:
  assumes "ok s" and "put n k v d s s1" and "get t k r s1 s2" and "n \<le> t"
  shows "r = (if t < d then Some v else None)"
  using put_law [OF assms(1,2)] get_law [of s1 t k r s2] assms(3,4) by simp

end

definition did_set :: "crates \<Rightarrow> bytes \<Rightarrow> instant \<Rightarrow> string \<Rightarrow> bytes \<Rightarrow> instant
    \<Rightarrow> store_inner \<times> 'p world \<Rightarrow> store_inner \<times> 'p world \<Rightarrow> bool" where
  "did_set cr skey n hk v d s s' \<longleftrightarrow> (\<exists>key ttl. hash_sha256_hex cr (as_bytes key) = hk \<and> ttl \<noteq> 0 \<and> n + ttl = d
     \<and> (store_set cr skey n key v ttl s = (Done (), s') \<or> store_set_if_absent cr skey n key v ttl s = (Done True, s')))"

definition did_peek :: "crates \<Rightarrow> bytes \<Rightarrow> instant \<Rightarrow> string \<Rightarrow> bytes option
    \<Rightarrow> store_inner \<times> 'p world \<Rightarrow> store_inner \<times> 'p world \<Rightarrow> bool" where
  "did_peek cr skey n hk r s s' \<longleftrightarrow> (\<exists>key. hash_sha256_hex cr (as_bytes key) = hk \<and> store_peek cr skey n key s = (Done r, s'))"

definition did_take :: "crates \<Rightarrow> bytes \<Rightarrow> instant \<Rightarrow> string \<Rightarrow> bytes option
    \<Rightarrow> store_inner \<times> 'p world \<Rightarrow> store_inner \<times> 'p world \<Rightarrow> bool" where
  "did_take cr skey n hk r s s' \<longleftrightarrow> (\<exists>key. hash_sha256_hex cr (as_bytes key) = hk \<and> store_take cr skey n key s = (Done r, s'))"

lemma instant_checked_add_Some: "instant_checked_add t d = Some x \<Longrightarrow> x = t + d"
  by (auto simp: instant_checked_add_def split: if_splits)

lemma store_set_law:
  assumes "aead_ok cr" and "store_inv cr skey (fst s)" and "ttl \<noteq> 0" and "now \<le> t"
    and "store_set cr skey now key v ttl s = (Done (), s') \<or> store_set_if_absent cr skey now key v ttl s = (Done True, s')"
  shows "store_inv cr skey (fst s')"
    and "store_view cr skey t (fst s') = (store_view cr skey t (fst s))
      (hash_sha256_hex cr (as_bytes key) := if t < now + ttl then Some v else None)"
proof -
  let ?hk = "hash_sha256_hex cr (as_bytes key)"
  obtain ct w1 i1 where ct: "store_seal cr skey ?hk v (snd s) = (Done ct, w1)"
      and sw: "sweep_expired now (fst s) = Some i1"
      and ins: "store_insert ?hk ct (now + ttl) i1 = (Inr (), fst s')"
    using assms(3,5)
    by (auto simp: store_set_def store_set_if_absent_def store_iffs Let_def split: if_splits
        dest!: instant_checked_add_Some)
  note S = sweep_keeps [OF assms(2) sw]
  note I = insert_keeps [OF S(1) store_seal_opens [OF assms(1) ct] ins]
  show "store_inv cr skey (fst s')" by (rule I(1))
  show "store_view cr skey t (fst s') = (store_view cr skey t (fst s)) (?hk := if t < now + ttl then Some v else None)"
    using I(2) S(2) [OF assms(4)] by simp
qed

lemma store_peek_law:
  assumes "store_inv cr skey (fst s)" and "store_peek cr skey now key s = (Done r, s')"
  shows "store_inv cr skey (fst s')" and "r = store_view cr skey now (fst s) (hash_sha256_hex cr (as_bytes key))"
    and "now \<le> t \<Longrightarrow> store_view cr skey t (fst s') = store_view cr skey t (fst s)"
proof -
  let ?hk = "hash_sha256_hex cr (as_bytes key)"
  have "(fst s' = fst s \<or> fst s' = (fst s)\<lparr>st_map := (st_map (fst s))(?hk := None)\<rparr> \<and> (\<forall>t\<ge>now. store_view cr skey t (fst s) ?hk = None))
      \<and> r = store_view cr skey now (fst s) ?hk"
  proof (cases "st_map (fst s) ?hk")
    case None
    then show ?thesis using assms(2) by (auto simp: store_peek_def store_iffs store_view_def Let_def)
  next
    case (Some e)
    show ?thesis
    proof (cases "now < se_expires_at e")
      case True
      then show ?thesis using assms(2) Some by (auto simp: store_peek_def store_iffs store_view_def Let_def)
    next
      case False
      then show ?thesis using assms(2) Some by (auto simp: store_peek_def store_iffs store_view_def Let_def)
    qed
  qed
  then have 1: "fst s' = fst s \<or> fst s' = (fst s)\<lparr>st_map := (st_map (fst s))(?hk := None)\<rparr> \<and> (\<forall>t\<ge>now. store_view cr skey t (fst s) ?hk = None)"
    and "r = store_view cr skey now (fst s) ?hk" by simp_all
  then show "r = store_view cr skey now (fst s) ?hk" by simp
  show "store_inv cr skey (fst s')" using 1 remove_keeps(1) [OF assms(1)] assms(1) by auto
  show "now \<le> t \<Longrightarrow> store_view cr skey t (fst s') = store_view cr skey t (fst s)"
    using 1 remove_keeps(2) [OF assms(1), of "fst s'" ?hk t]
    by (elim disjE conjE) (simp_all add: fun_upd_idem)
qed

lemma store_take_law:
  assumes "store_inv cr skey (fst s)" and "store_take cr skey now key s = (Done r, s')"
  shows "store_inv cr skey (fst s')" and "r = store_view cr skey now (fst s) (hash_sha256_hex cr (as_bytes key))"
    and "store_view cr skey t (fst s') = (store_view cr skey t (fst s))(hash_sha256_hex cr (as_bytes key) := None)"
proof -
  let ?hk = "hash_sha256_hex cr (as_bytes key)"
  have 1: "fst s' = (fst s)\<lparr>st_map := (st_map (fst s))(?hk := None)\<rparr>"
    using assms(2) by (auto simp: store_take_def store_iffs Let_def split: option.splits if_splits)
  show "r = store_view cr skey now (fst s) ?hk"
    using assms(2) by (auto simp: store_take_def store_iffs Let_def store_view_def split: option.splits if_splits)
  show "store_inv cr skey (fst s')" and "store_view cr skey t (fst s') = (store_view cr skey t (fst s))(?hk := None)"
    using remove_keeps [OF assms(1) 1] by simp_all
qed

interpretation est: ttl_store "\<lambda>s. aead_ok cr \<and> store_inv cr skey (fst s)" "\<lambda>t s. store_view cr skey t (fst s)"
    "did_set cr skey" "did_peek cr skey" "did_take cr skey"
  for cr skey
proof
  fix s s' :: "store_inner \<times> 'p world" and n k v d r
  assume ok: "aead_ok cr \<and> store_inv cr skey (fst s)"
  show "(aead_ok cr \<and> store_inv cr skey (fst s'))
      \<and> (\<forall>t\<ge>n. store_view cr skey t (fst s') = (store_view cr skey t (fst s))(k := if t < d then Some v else None))"
    if "did_set cr skey n k v d s s'"
    using that ok store_set_law [of cr skey s] unfolding did_set_def by blast
  show "(aead_ok cr \<and> store_inv cr skey (fst s')) \<and> r = store_view cr skey n (fst s) k
      \<and> (\<forall>t\<ge>n. store_view cr skey t (fst s') = store_view cr skey t (fst s))"
    if "did_peek cr skey n k r s s'"
    using that ok store_peek_law [of cr skey s] unfolding did_peek_def by blast
  show "(aead_ok cr \<and> store_inv cr skey (fst s')) \<and> r = store_view cr skey n (fst s) k
      \<and> (\<forall>t. store_view cr skey t (fst s') = (store_view cr skey t (fst s))(k := None))"
    if "did_take cr skey n k r s s'"
    using that ok store_take_law [of cr skey s] unfolding did_take_def by blast
qed


section \<open>What every operation keeps\<close>

text \<open>The ways in which operations change the store, as closure conditions on a set of stores.\<close>

definition sweeps :: "(store_inner \<Rightarrow> bool) \<Rightarrow> instant \<Rightarrow> bool" where
  "sweeps I now \<longleftrightarrow> (\<forall>i i'. I i \<and> sweep_expired now i = Some i' \<longrightarrow> I i')"

definition inserts :: "crates \<Rightarrow> bytes \<Rightarrow> (store_inner \<Rightarrow> bool) \<Rightarrow> string \<Rightarrow> bool" where
  "inserts cr skey I hk \<longleftrightarrow>
     (\<forall>i ct v d i'. I i \<and> store_unseal cr skey hk ct = Inr v \<and> store_insert hk ct d i = (Inr (), i') \<longrightarrow> I i')"

definition removes :: "(store_inner \<Rightarrow> bool) \<Rightarrow> string \<Rightarrow> bool" where
  "removes I hk \<longleftrightarrow> (\<forall>i. I i \<longrightarrow> I (i\<lparr>st_map := (st_map i)(hk := None)\<rparr>))"

definition expires :: "(store_inner \<Rightarrow> bool) \<Rightarrow> instant \<Rightarrow> string \<Rightarrow> bool" where
  "expires I now hk \<longleftrightarrow> (\<forall>i e. I i \<and> st_map i hk = Some e \<and> se_expires_at e \<le> now \<longrightarrow> I (i\<lparr>st_map := (st_map i)(hk := None)\<rparr>))"

abbreviation held :: "(store_inner \<Rightarrow> bool) \<Rightarrow> store_inner \<times> 'p world \<Rightarrow> bool" where
  "held I s \<equiv> I (fst s)"

lemma sweepM_keeps: "sweeps I now \<Longrightarrow> keeps (held I) (sweepM now)"
  using sweep_expired_run by (fastforce simp: triple_def sweepM_def sweeps_def split: option.splits)

lemma seal_keeps:
  assumes "aead_ok cr"
  shows "triple (held I) (outside (store_seal cr skey hk v))
    (\<lambda>ct s. held I s \<and> store_unseal cr skey hk ct = Inr v) (\<lambda>_. held I) (held I)"
  unfolding triple_def outside_def
  by (auto split: prod.splits outcome.splits dest: store_seal_opens [OF assms])

lemma insert_triple:
  assumes "inserts cr skey I hk"
  shows "triple (\<lambda>s. held I s \<and> store_unseal cr skey hk ct = Inr v) (inside (store_insert hk ct d))
    (\<lambda>_. held I) (\<lambda>_. held I) (held I)"
proof (rule tripleI)
  fix s s' :: "store_inner \<times> 'p world" and u
  assume I: "held I s \<and> store_unseal cr skey hk ct = Inr v"
  show "held I s'" if "inside (store_insert hk ct d) s = (Done u, s')"
    using that I assms by (auto simp: inside_Done_iff inserts_def)
  show "held I s'" if "inside (store_insert hk ct d) s = (Fail e, s')" for e
    using that I by (auto simp: inside_def store_insert_def next_version_def split: prod.splits sum.splits option.splits)
  show "held I s'" if "inside (store_insert hk ct d) s = (Crash, s')"
    using that by (auto simp: inside_def split: prod.splits sum.splits)
qed

lemma inside_keeps:
  assumes "\<And>i. I i \<Longrightarrow> I (snd (f i))"
  shows "keeps (held I) (inside f)"
  using assms by (fastforce simp: triple_def inside_def split: prod.splits sum.splits)

lemma set_keeps:
  assumes "aead_ok cr" and "sweeps I now" and "ttl = 0 \<or> inserts cr skey I (hash_sha256_hex cr (as_bytes key))"
  shows "keeps (held I) (store_set cr skey now key v ttl)"
proof (cases "ttl = 0")
  case True
  then show ?thesis unfolding store_set_def by (simp add: keeps_leaf(1))
next
  case False
  let ?hk = "hash_sha256_hex cr (as_bytes key)"
  have sw: "triple (\<lambda>s. held I s \<and> store_unseal cr skey ?hk ct = Inr v) (sweepM now)
      (\<lambda>_ s. held I s \<and> store_unseal cr skey ?hk ct = Inr v) (\<lambda>_. held I) (held I)" for ct
    by (rule triple_pure [OF sweepM_keeps [OF assms(2)]])
  have "inserts cr skey I ?hk" using assms(3) False by simp
  then have ins: "triple (\<lambda>s. held I s \<and> store_unseal cr skey ?hk ct = Inr v) (bindM (sweepM now) (\<lambda>_. inside (store_insert ?hk ct d)))
      (\<lambda>_. held I) (\<lambda>_. held I) (held I)" for ct d
    by (intro triple_bind [OF sw] insert_triple)
  show ?thesis
    unfolding store_set_def Let_def if_not_P [OF False]
    by (rule keeps_bind [OF keeps_leaf(3)], rule triple_bind [OF seal_keeps [OF assms(1)] ins])
qed

lemma set_if_absent_keeps:
  assumes "aead_ok cr" and "sweeps I now" and "ttl = 0 \<or> inserts cr skey I (hash_sha256_hex cr (as_bytes key))"
  shows "keeps (held I) (store_set_if_absent cr skey now key v ttl)"
proof (cases "ttl = 0")
  case True
  then show ?thesis unfolding store_set_if_absent_def by (simp add: keeps_leaf(1))
next
  case False
  let ?hk = "hash_sha256_hex cr (as_bytes key)"
  let ?P = "\<lambda>ct s. held I s \<and> store_unseal cr skey ?hk ct = Inr v"
  let ?look = "inside (\<lambda>i. (Inr (case st_map i ?hk of Some e \<Rightarrow> se_expires_at e > now | None \<Rightarrow> False), i))"
  have sw: "triple (?P ct) (sweepM now) (\<lambda>_. ?P ct) (\<lambda>_. held I) (held I)" for ct
    by (rule triple_pure [OF sweepM_keeps [OF assms(2)]])
  have look: "triple (?P ct) ?look (\<lambda>_. ?P ct) (\<lambda>_. held I) (held I)" for ct
    by (auto simp: triple_def inside_def split: option.splits)
  have "inserts cr skey I ?hk" using assms(3) False by simp
  then have last: "triple (?P ct) (if live then ret False else bindM (inside (store_insert ?hk ct d)) (\<lambda>_. ret True))
      (\<lambda>_. held I) (\<lambda>_. held I) (held I)" for ct d live
    by (auto intro!: triple_bind [OF insert_triple] triple_ret)
  have ins: "triple (?P ct) (bindM (sweepM now) (\<lambda>_. bindM ?look (\<lambda>live.
        if live then ret False else bindM (inside (store_insert ?hk ct d)) (\<lambda>_. ret True))))
      (\<lambda>_. held I) (\<lambda>_. held I) (held I)" for ct d
    by (rule triple_bind [OF sw], rule triple_bind [OF look last])
  show ?thesis
    unfolding store_set_if_absent_def Let_def if_not_P [OF False]
    by (rule keeps_bind [OF keeps_leaf(3)], rule triple_bind [OF seal_keeps [OF assms(1)] ins])
qed

lemma peek_keeps:
  assumes "expires I now (hash_sha256_hex cr (as_bytes key))"
  shows "keeps (held I) (store_peek cr skey now key)"
  unfolding store_peek_def Let_def
  using assms by (auto intro!: keeps_bind inside_keeps keeps_leaf simp: expires_def split: option.splits)

lemma take_keeps:
  assumes "removes I (hash_sha256_hex cr (as_bytes key))"
  shows "keeps (held I) (store_take cr skey now key)" and "keeps (held I) (store_del cr key)"
  unfolding store_take_def store_del_def Let_def
  using assms by (auto intro!: keeps_bind inside_keeps keeps_leaf simp: removes_def fun_upd_def split: option.splits)

lemma inv_closed:
  "sweeps (store_inv cr skey) now" "inserts cr skey (store_inv cr skey) hk" "removes (store_inv cr skey) hk" "expires (store_inv cr skey) now hk"
  unfolding sweeps_def inserts_def removes_def expires_def
  using sweep_keeps(1) insert_keeps(1) remove_keeps(1) by blast+

text \<open>One step of the store: an operation at any instant, with any randomness and any outcome, a pass of
  the cleanup thread, or the drop of the last handle.\<close>

inductive store_step :: "crates \<Rightarrow> bytes \<Rightarrow> store_inner \<Rightarrow> store_inner \<Rightarrow> bool" for cr skey where
  step_set: "store_set cr skey now key v ttl (i, w :: unit world) = (r, (i', w')) \<Longrightarrow> store_step cr skey i i'"
| step_set_if_absent: "store_set_if_absent cr skey now key v ttl (i, w :: unit world) = (b, (i', w')) \<Longrightarrow> store_step cr skey i i'"
| step_peek: "store_peek cr skey now key (i, w :: unit world) = (x, (i', w')) \<Longrightarrow> store_step cr skey i i'"
| step_take: "store_take cr skey now key (i, w :: unit world) = (x, (i', w')) \<Longrightarrow> store_step cr skey i i'"
| step_del: "store_del cr key (i, w :: unit world) = (r, (i', w')) \<Longrightarrow> store_step cr skey i i'"
| step_cleanup: "cleanup_pass now i = Some (go, wake, i') \<Longrightarrow> store_step cr skey i i'"
| step_drop: "store_step cr skey i (cleanup_guard_drop i)"

inductive_cases store_stepE: "store_step cr skey i i'"

lemma keepsD: "keeps (held I) m \<Longrightarrow> I i \<Longrightarrow> m (i, w) = (r, (i', w')) \<Longrightarrow> I i'"
  by (drule tripleD [where s = "(i, w)"]) (auto split: outcome.splits)

lemma store_step_keeps:
  assumes "aead_ok cr" and "store_step cr skey i i'" and "store_inv cr skey i"
  shows "store_inv cr skey i'"
  using assms(2)
proof cases
  case (step_cleanup now go wake)
  then show ?thesis using sweep_keeps(1) [OF assms(3)] assms(3) by (auto simp: cleanup_pass_def split: if_splits option.splits)
next
  case step_drop
  then show ?thesis using assms(3) by simp
next
  case step_set
  then show ?thesis by (rule keepsD [OF set_keeps [OF assms(1) inv_closed(1) disjI2 [OF inv_closed(2)]] assms(3)])
next
  case step_set_if_absent
  then show ?thesis by (rule keepsD [OF set_if_absent_keeps [OF assms(1) inv_closed(1) disjI2 [OF inv_closed(2)]] assms(3)])
next
  case step_peek
  then show ?thesis by (rule keepsD [OF peek_keeps [OF inv_closed(4)] assms(3)])
next
  case step_take
  then show ?thesis by (rule keepsD [OF take_keeps(1) [OF inv_closed(3)] assms(3)])
next
  case step_del
  then show ?thesis by (rule keepsD [OF take_keeps(2) [OF inv_closed(3)] assms(3)])
qed

section \<open>Histories\<close>

text \<open>The calls that clients make, the passes of the cleanup thread and the drop of the last handle, each at an instant; a history
  is a list of them.\<close>

datatype store_call = CallSet string bytes duration | CallSetIfAbsent string bytes duration | CallPeek string | CallTake string
  | CallDel string | CallCleanup | CallDrop

fun after_call :: "crates \<Rightarrow> bytes \<Rightarrow> instant \<times> store_call \<Rightarrow> store_inner \<times> 'p world \<Rightarrow> store_inner \<times> 'p world" where
  "after_call cr skey (now, CallSet key v ttl) s = snd (store_set cr skey now key v ttl s)"
| "after_call cr skey (now, CallSetIfAbsent key v ttl) s = snd (store_set_if_absent cr skey now key v ttl s)"
| "after_call cr skey (now, CallPeek key) s = snd (store_peek cr skey now key s)"
| "after_call cr skey (now, CallTake key) s = snd (store_take cr skey now key s)"
| "after_call cr skey (now, CallDel key) s = snd (store_del cr key s)"
| "after_call cr skey (now, CallCleanup) s = (case cleanup_pass now (fst s) of
     Some (go, wake, i) \<Rightarrow> (i, snd s) | None \<Rightarrow> s)"
| "after_call cr skey (now, CallDrop) s = (cleanup_guard_drop (fst s), snd s)"

definition after_calls :: "crates \<Rightarrow> bytes \<Rightarrow> (instant \<times> store_call) list \<Rightarrow> store_inner \<times> 'p world \<Rightarrow> store_inner \<times> 'p world" where
  "after_calls cr skey cs s = fold (after_call cr skey) cs s"

text \<open>The hashed key under which a call may store, and the one that it removes whatever it holds.\<close>

fun stored_key :: "crates \<Rightarrow> store_call \<Rightarrow> string option" where
  "stored_key cr (CallSet key v ttl) = (if ttl = 0 then None else Some (hash_sha256_hex cr (as_bytes key)))"
| "stored_key cr (CallSetIfAbsent key v ttl) = (if ttl = 0 then None else Some (hash_sha256_hex cr (as_bytes key)))"
| "stored_key cr c = None"

fun removed_key :: "crates \<Rightarrow> store_call \<Rightarrow> string option" where
  "removed_key cr (CallTake key) = Some (hash_sha256_hex cr (as_bytes key))"
| "removed_key cr (CallDel key) = Some (hash_sha256_hex cr (as_bytes key))"
| "removed_key cr c = None"

lemma keeps_snd: "keeps (held I) m \<Longrightarrow> held I s \<Longrightarrow> held I (snd (m s))"
  by (cases "m s") (auto dest: tripleD [where s = s] split: outcome.splits)

lemma after_call_keeps:
  assumes "aead_ok cr" and "held I s" and "sweeps I now" and "\<And>hk. expires I now hk"
    and "\<And>hk. stored_key cr c = Some hk \<Longrightarrow> inserts cr skey I hk" and "\<And>hk. removed_key cr c = Some hk \<Longrightarrow> removes I hk"
    and "\<And>i. I i \<Longrightarrow> I (cleanup_guard_drop i)" and "\<And>i. c = CallCleanup \<Longrightarrow> I i \<Longrightarrow> I (i\<lparr>st_notified := False\<rparr>)"
  shows "held I (after_call cr skey (now, c) s)"
proof (cases c)
  case (CallSet key v ttl)
  then have "ttl = 0 \<or> inserts cr skey I (hash_sha256_hex cr (as_bytes key))" using assms(5) by (cases "ttl = 0") auto
  from keeps_snd [OF set_keeps [OF assms(1,3) this] assms(2)] show ?thesis using CallSet by simp
next
  case (CallSetIfAbsent key v ttl)
  then have "ttl = 0 \<or> inserts cr skey I (hash_sha256_hex cr (as_bytes key))" using assms(5) by (cases "ttl = 0") auto
  from keeps_snd [OF set_if_absent_keeps [OF assms(1,3) this] assms(2)] show ?thesis using CallSetIfAbsent by simp
next
  case (CallPeek key)
  then show ?thesis using keeps_snd [OF peek_keeps [OF assms(4)] assms(2)] by simp
next
  case (CallTake key)
  then show ?thesis using keeps_snd [OF take_keeps(1) [OF assms(6)] assms(2)] by simp
next
  case (CallDel key)
  then show ?thesis using keeps_snd [OF take_keeps(2) [OF assms(6)] assms(2)] by simp
next
  case CallCleanup
  then show ?thesis
    using assms(2,3,8) by (auto simp: cleanup_pass_def sweeps_def split: option.splits if_splits)
next
  case CallDrop
  then show ?thesis using assms(2,7) by simp
qed

text \<open>A history keeps what each of its calls keeps.\<close>

lemma after_calls_keep:
  fixes s :: "store_inner \<times> 'p world"
  assumes "\<And>c s :: store_inner \<times> 'p world. c \<in> set cs \<Longrightarrow> held I s \<Longrightarrow> held I (after_call cr skey c s)" and "held I s"
  shows "held I (after_calls cr skey cs s)"
  unfolding after_calls_def using assms
proof (induction cs arbitrary: s)
  case (Cons c cs)
  have "held I (after_call cr skey c s)" by (rule Cons.prems(1) [OF list.set_intros(1) Cons.prems(2)])
  then show ?case using Cons.IH Cons.prems(1) by (metis fold_simps(2) list.set_intros(2))
qed simp

text \<open>What a key holds at an instant is kept by the calls before it that neither store nor remove the key; nothing, by all that do
  not store it.\<close>

abbreviation shows_at :: "crates \<Rightarrow> bytes \<Rightarrow> instant \<Rightarrow> string \<Rightarrow> bytes option \<Rightarrow> store_inner \<Rightarrow> bool" where
  "shows_at cr skey t hk x i \<equiv> store_inv cr skey i \<and> store_view cr skey t i hk = x"

lemma view_closed:
  assumes "now \<le> t"
  shows "sweeps (shows_at cr skey t hk x) now" and "expires (shows_at cr skey t hk x) now hk'"
    and "hk' \<noteq> hk \<Longrightarrow> inserts cr skey (shows_at cr skey t hk x) hk'" and "hk' \<noteq> hk \<or> x = None \<Longrightarrow> removes (shows_at cr skey t hk x) hk'"
proof -
  show "sweeps (shows_at cr skey t hk x) now" using sweep_keeps(1,2) assms unfolding sweeps_def by metis
  show "hk' \<noteq> hk \<Longrightarrow> inserts cr skey (shows_at cr skey t hk x) hk'"
    unfolding inserts_def using insert_keeps by (metis fun_upd_apply)
  show "hk' \<noteq> hk \<or> x = None \<Longrightarrow> removes (shows_at cr skey t hk x) hk'"
    unfolding removes_def using remove_keeps [OF _ refl] by auto
  show "expires (shows_at cr skey t hk x) now hk'"
    unfolding expires_def using remove_keeps [OF _ refl] assms by (auto simp: store_view_def)
qed

lemma history_view:
  assumes "aead_ok cr" and "shows_at cr skey t hk x (fst s)"
    and "\<forall>(now, c) \<in> set cs. now \<le> t \<and> stored_key cr c \<noteq> Some hk \<and> (x = None \<or> removed_key cr c \<noteq> Some hk)"
  shows "shows_at cr skey t hk x (fst (after_calls cr skey cs s))"
proof (rule after_calls_keep [where I = "shows_at cr skey t hk x", OF _ assms(2)])
  fix c and s :: "store_inner \<times> 'p world"
  assume c: "c \<in> set cs" and s: "shows_at cr skey t hk x (fst s)"
  obtain now call where [simp]: "c = (now, call)" by fastforce
  have "now \<le> t" "stored_key cr call \<noteq> Some hk" "x = None \<or> removed_key cr call \<noteq> Some hk" using assms(3) c by auto
  note ok = this
  have "held (shows_at cr skey t hk x) (after_call cr skey (now, call) s)"
  proof (rule after_call_keeps [where I = "shows_at cr skey t hk x", OF assms(1) s view_closed(1) [OF ok(1)] view_closed(2) [OF ok(1)]])
    show "inserts cr skey (shows_at cr skey t hk x) hk'" if "stored_key cr call = Some hk'" for hk'
      by (rule view_closed(3) [OF ok(1)]) (use that ok(2) in auto)
    show "removes (shows_at cr skey t hk x) hk'" if "removed_key cr call = Some hk'" for hk'
      by (rule view_closed(4) [OF ok(1)]) (use that ok(3) in auto)
  qed auto
  then show "shows_at cr skey t hk x (fst (after_call cr skey c s))" by simp
qed

text \<open>Until the cleanup thread runs again, it has been notified or no entry was added.\<close>

lemma history_notifies:
  assumes "aead_ok cr" and "st_notified (fst s) \<or> st_map (fst s) \<subseteq>\<^sub>m m" and "\<forall>(now, c) \<in> set cs. c \<noteq> CallCleanup"
  shows "st_notified (fst (after_calls cr skey cs s)) \<or> st_map (fst (after_calls cr skey cs s)) \<subseteq>\<^sub>m m"
proof (rule after_calls_keep [where I = "\<lambda>i. st_notified i \<or> st_map i \<subseteq>\<^sub>m m", OF _ assms(2)])
  let ?I = "\<lambda>i. st_notified i \<or> st_map i \<subseteq>\<^sub>m m"
  fix c and s :: "store_inner \<times> 'p world"
  assume c: "c \<in> set cs" and s: "?I (fst s)"
  obtain now call where [simp]: "c = (now, call)" by fastforce
  have rem: "removes ?I hk" "expires ?I now hk" for hk by (auto simp: removes_def expires_def map_le_def)
  have "swept now h f \<subseteq>\<^sub>m f" for h f by (auto simp: swept_def map_le_def split: option.splits if_splits)
  then have "sweeps ?I now" unfolding sweeps_def using sweep_expired_run [of now] map_le_trans by (metis option.inject)
  moreover have "inserts cr skey ?I hk" for hk
    by (auto simp: inserts_def store_insert_def next_version_def split: option.splits)
  ultimately show "?I (fst (after_call cr skey c s))"
    using after_call_keeps [where I = ?I, OF assms(1) s _ rem(2), where c = call and skey = skey] rem(1) assms(3) c by (auto simp: cleanup_guard_drop_def)
qed

section \<open>Runs that return\<close>

lemma reads_return:
  assumes "store_inv cr skey (fst s)"
  shows "\<exists>r s'. store_peek cr skey now key s = (Done r, s')" and "\<exists>r s'. store_take cr skey now key s = (Done r, s')"
proof -
  let ?hk = "hash_sha256_hex cr (as_bytes key)"
  have "\<exists>r s'. store_peek cr skey now key s = (Done r, s') \<and> (\<exists>r s'. store_take cr skey now key s = (Done r, s'))"
  proof (cases "st_map (fst s) ?hk")
    case None
    then show ?thesis
      by (simp add: store_peek_def store_take_def inside_def bindM_def ret_def Let_def)
  next
    case (Some e)
    then obtain v where v: "store_unseal cr skey ?hk (se_ciphertext e) = Inr v"
      using assms by (auto simp: store_inv_def is_ok_iff)
    show ?thesis
      using Some v
      by (cases "se_expires_at e \<le> now")
         (simp_all add: store_peek_def store_take_def inside_def bindM_def ret_def Let_def)
  qed
  then show "\<exists>r s'. store_peek cr skey now key s = (Done r, s')" and "\<exists>r s'. store_take cr skey now key s = (Done r, s')"
    by blast+
qed

lemma store_set_returns:
  assumes "aead_total cr" and "rng_live (snd s)" and "length skey = 32" and "ttl \<noteq> 0"
    and "instant_checked_add now ttl = Some d" and "st_next_version (fst s) \<noteq> - 1" and "length v < 2 ^ 36"
    and "length (hash_sha256_hex cr (as_bytes key)) < 2 ^ 35"
  obtains s' where "store_set cr skey now key v ttl s = (Done (), s')"
proof -
  let ?hk = "hash_sha256_hex cr (as_bytes key)" and ?c = "''lithium/ephemeral-store''"
  have "length (bind_aad ?c (as_bytes ?hk)) < 2 ^ 36"
    using assms(8) by (simp add: bind_aad_def ctx_label_def CTX_VERSION_def)
  then have "gcmsiv_encrypt cr skey (rng_draw (snd s) 12) (bind_aad ?c (as_bytes ?hk)) v \<noteq> None"
    using assms(1,3,7) unfolding aead_total_def by simp
  then obtain ct w where ct: "store_seal cr skey ?hk v (snd s) = (Done ct, w)"
    using assms(2,3)
    by (auto simp: store_seal_def store_ctx_ok sec_fixed_from_slice_def aead_encrypt_def bindM_def random_fixed_live
        encrypt_framed_def encrypt_raw_def ret_def)
  obtain i1 where i1: "sweep_expired now (fst s) = Some i1" "st_next_version i1 = st_next_version (fst s)"
    using sweep_expired_run by blast
  have "checked_add_u64 (st_next_version i1) 1 = Some (st_next_version i1 + 1)"
    using next_u64(1) i1(2) assms(6) by metis
  then show thesis
    using that assms(4,5) ct i1
    by (simp add: store_set_def Let_def bindM_def outside_def sweepM_def inside_def store_insert_def next_version_def)
qed

lemma sample_set:
  obtains s' where "store_set sample_crates (replicate 32 1) 5 ''k'' [7] 10 (store_inner_default, clean_world []) = (Done (), s')"
proof -
  have "length (hash_sha256_hex sample_crates (as_bytes ''k'')) < 2 ^ 35"
    using hex_encode_length [OF sample_hex_ok, of "sha256_digest sample_crates (as_bytes ''k'')"]
    by (simp add: hash_sha256_hex_def) (simp add: sample_crates_def)
  note len = this
  have args: "rng_live (snd (store_inner_default, clean_world []))" "length (replicate 32 1 :: bytes) = 32" "(10 :: nat) \<noteq> 0"
      "instant_checked_add 5 10 = Some 15" "st_next_version (fst (store_inner_default, clean_world [])) \<noteq> - 1"
      "length [7 :: u8] < 2 ^ 36"
    by (simp_all add: instant_checked_add_def store_inner_default_def)
  show thesis by (rule store_set_returns [OF sample_aead_total args len]) (rule that)
qed

section \<open>Properties\<close>

text \<open>C13. Sweeping terminates from every state, and when every entry has its deadline in the heap it
  removes exactly the entries and deadlines that are due: nothing live is lost, nothing expired stays.\<close>

theorem sweep_terminates_exactly:
  shows "\<exists>i'. sweep_expired now i = Some i'
    \<and> st_heap i' = filter_mset (\<lambda>e. now < hn_expires_at e) (st_heap i)
    \<and> (store_inv cr skey i \<longrightarrow> store_inv cr skey i' \<and> (\<forall>k. st_map i' k =
        (case st_map i k of Some e \<Rightarrow> if now < se_expires_at e then Some e else None | None \<Rightarrow> None)))"
proof -
  obtain i' where i': "sweep_expired now i = Some i'" "st_heap i' = filter_mset (\<lambda>e. now < hn_expires_at e) (st_heap i)"
      "st_map i' = swept now (st_heap i) (st_map i)"
    using sweep_expired_run by blast
  have "store_inv cr skey i \<Longrightarrow> store_inv cr skey i'" using sweep_keeps(1) i'(1) by blast
  moreover have "store_inv cr skey i \<Longrightarrow> st_map i' k =
      (case st_map i k of Some e \<Rightarrow> if now < se_expires_at e then Some e else None | None \<Rightarrow> None)" for k
    using swept_inv [of cr skey i now k] i'(3) by (auto split: option.splits)
  ultimately show ?thesis using i' by auto
qed

theorem sweep_terminates_exactly_witness:
  "\<exists>i'. sweep_expired 3 (store_inner_default\<lparr>st_heap := {#HeapEntry 2 0 ''a'', HeapEntry 4 1 ''b''#}\<rparr>) = Some i'
    \<and> st_heap i' = {#HeapEntry 4 1 ''b''#} \<and> (\<forall>k. st_map i' k = None)"
proof -
  let ?i = "store_inner_default\<lparr>st_heap := {#HeapEntry 2 0 ''a'', HeapEntry 4 1 ''b''#}\<rparr>"
  have "store_inv sample_crates [] ?i" by (simp add: store_inv_def store_inner_default_def)
  then show ?thesis
    using sweep_terminates_exactly [of 3 ?i sample_crates "[]"] by (auto simp: store_inner_default_def)
qed


text \<open>C6. The store implements a map with deadlines.  Under the invariant, every operation that returns
  keeps the invariant; a set makes the key hold the value until its deadline and nothing after, a peek
  and a take answer what the map holds at their instant, a take and a delete remove it, a conditional
  set refuses exactly when the key holds a value, and no other key is affected from that instant on.\<close>

theorem store_refines_ttl_map:
  assumes "aead_ok cr" and "store_inv cr skey (fst s)" and "hk = hash_sha256_hex cr (as_bytes key)" and "ttl \<noteq> 0"
  shows "(store_set cr skey now key v ttl s = (Done (), s') \<longrightarrow> store_inv cr skey (fst s')
      \<and> (\<forall>t\<ge>now. store_view cr skey t (fst s') = (store_view cr skey t (fst s))(hk := if t < now + ttl then Some v else None)))
    \<and> (store_set_if_absent cr skey now key v ttl s = (Done b, s') \<longrightarrow> store_inv cr skey (fst s')
      \<and> b = (store_view cr skey now (fst s) hk = None)
      \<and> (\<forall>t\<ge>now. store_view cr skey t (fst s') = (if b then (store_view cr skey t (fst s))(hk := if t < now + ttl then Some v else None)
          else store_view cr skey t (fst s))))
    \<and> (store_peek cr skey now key s = (Done r, s') \<longrightarrow> store_inv cr skey (fst s')
      \<and> r = store_view cr skey now (fst s) hk \<and> (\<forall>t\<ge>now. store_view cr skey t (fst s') = store_view cr skey t (fst s)))
    \<and> (store_take cr skey now key s = (Done r, s') \<longrightarrow> store_inv cr skey (fst s')
      \<and> r = store_view cr skey now (fst s) hk \<and> (\<forall>t. store_view cr skey t (fst s') = (store_view cr skey t (fst s))(hk := None)))
    \<and> (store_del cr key s = (Done (), s') \<longrightarrow> store_inv cr skey (fst s')
      \<and> (\<forall>t. store_view cr skey t (fst s') = (store_view cr skey t (fst s))(hk := None)))"
proof (intro conjI)
  show "store_set cr skey now key v ttl s = (Done (), s') \<longrightarrow> store_inv cr skey (fst s')
      \<and> (\<forall>t\<ge>now. store_view cr skey t (fst s') = (store_view cr skey t (fst s))(hk := if t < now + ttl then Some v else None))"
    using store_set_law [OF assms(1,2,4)] assms(3) by blast
  show "store_peek cr skey now key s = (Done r, s') \<longrightarrow> store_inv cr skey (fst s')
      \<and> r = store_view cr skey now (fst s) hk \<and> (\<forall>t\<ge>now. store_view cr skey t (fst s') = store_view cr skey t (fst s))"
    using store_peek_law [OF assms(2)] assms(3) by blast
  show "store_take cr skey now key s = (Done r, s') \<longrightarrow> store_inv cr skey (fst s')
      \<and> r = store_view cr skey now (fst s) hk \<and> (\<forall>t. store_view cr skey t (fst s') = (store_view cr skey t (fst s))(hk := None))"
    using store_take_law [OF assms(2)] assms(3) by blast
  show "store_del cr key s = (Done (), s') \<longrightarrow> store_inv cr skey (fst s')
      \<and> (\<forall>t. store_view cr skey t (fst s') = (store_view cr skey t (fst s))(hk := None))"
    using remove_keeps [OF assms(2), of "fst s'" hk] assms(3) by (auto simp: store_del_def Let_def inside_Done_iff)
  show "store_set_if_absent cr skey now key v ttl s = (Done b, s') \<longrightarrow> store_inv cr skey (fst s')
      \<and> b = (store_view cr skey now (fst s) hk = None)
      \<and> (\<forall>t\<ge>now. store_view cr skey t (fst s') = (if b then (store_view cr skey t (fst s))(hk := if t < now + ttl then Some v else None)
          else store_view cr skey t (fst s)))"
  proof
    assume run: "store_set_if_absent cr skey now key v ttl s = (Done b, s')"
    then obtain i1 where sw: "sweep_expired now (fst s) = Some i1"
        and b: "b = (\<not> (case st_map i1 hk of Some e \<Rightarrow> se_expires_at e > now | None \<Rightarrow> False))"
        and same: "\<not> b \<longrightarrow> fst s' = i1"
      using assms(3,4) by (auto simp: store_set_if_absent_def store_iffs Let_def split: if_splits)
    note S = sweep_keeps [OF assms(2) sw]
    have "is_ok (store_unseal cr skey hk (se_ciphertext e))" if "st_map i1 hk = Some e" for e
      using S(1) that by (simp add: store_inv_def)
    then have "store_view cr skey now i1 hk = None \<longleftrightarrow> b"
      by (cases "st_map i1 hk") (force simp: b store_view_def is_ok_iff split: sum.splits)+
    then have "b = (store_view cr skey now (fst s) hk = None)" using S(2) [of now] by simp
    moreover have "store_inv cr skey (fst s')"
        "now \<le> t \<Longrightarrow> store_view cr skey t (fst s') = (store_view cr skey t (fst s))(hk := if t < now + ttl then Some v else None)"
      if "b" for t
    proof -
      have "store_set cr skey now key v ttl s = (Done (), s') \<or> store_set_if_absent cr skey now key v ttl s = (Done True, s')"
        using run that by simp
      from store_set_law [OF assms(1,2,4) _ this] assms(3)
      show "store_inv cr skey (fst s')"
        and "now \<le> t \<Longrightarrow> store_view cr skey t (fst s') = (store_view cr skey t (fst s))(hk := if t < now + ttl then Some v else None)"
        by (blast, simp)
    qed
    ultimately show "store_inv cr skey (fst s') \<and> b = (store_view cr skey now (fst s) hk = None)
      \<and> (\<forall>t\<ge>now. store_view cr skey t (fst s') = (if b then (store_view cr skey t (fst s))(hk := if t < now + ttl then Some v else None)
          else store_view cr skey t (fst s)))"
      using same S(1,2) by (cases b) simp_all
  qed
qed

theorem store_refines_ttl_map_witness:
  "\<exists>s'. store_set sample_crates (replicate 32 1) 5 ''k'' [7] 10 (store_inner_default, clean_world []) = (Done (), s')
    \<and> store_inv sample_crates (replicate 32 1) (fst s')
    \<and> store_view sample_crates (replicate 32 1) 14 (fst s') (hash_sha256_hex sample_crates (as_bytes ''k'')) = Some [7]
    \<and> store_view sample_crates (replicate 32 1) 15 (fst s') (hash_sha256_hex sample_crates (as_bytes ''k'')) = None"
proof -
  obtain s' where run: "store_set sample_crates (replicate 32 1) 5 ''k'' [7] 10 (store_inner_default, clean_world []) = (Done (), s')"
    by (rule sample_set)
  have inv: "store_inv sample_crates (replicate 32 1) (fst (store_inner_default, clean_world []))"
    by (simp add: store_inv_default)
  show ?thesis
    using run store_refines_ttl_map [OF sample_aead_ok inv refl, of 10 5 "''k''" "[7]" s'] by auto
qed


text \<open>C22. Whatever operations ran, with whatever failures and at whatever instants, each entry of the map
  decrypts and has its deadline in the heap; so a pass of the cleanup thread leaves no expired secret
  in the store, and the thread next wakes up no later than the first deadline.  Whatever is called after the pass, and until the next
  one, the thread has been notified or still sleeps no longer than until the first deadline.\<close>

theorem cleanup_misses_nothing:
  assumes "aead_ok cr" and "(store_step cr skey)\<^sup>*\<^sup>* store_inner_default i"
  shows "store_inv cr skey i
    \<and> (cleanup_pass now i = Some (True, wake, i') \<longrightarrow>
        (\<forall>k e. st_map i' k = Some e \<longrightarrow> now < se_expires_at e \<and> (\<exists>x. wake = Some x \<and> x \<le> se_expires_at e)))
    \<and> (cleanup_pass now i = Some (True, wake, i') \<and> (\<forall>(t, c) \<in> set cs. c \<noteq> CallCleanup)
        \<and> after_calls cr skey cs (i', w) = (i'', w') \<longrightarrow>
        st_notified i'' \<or> (\<forall>k e. st_map i'' k = Some e \<longrightarrow> (\<exists>x. wake = Some x \<and> x \<le> se_expires_at e)))"
proof -
  have inv: "store_inv cr skey i"
    using assms(2) by (induction rule: rtranclp_induct) (auto intro: store_inv_default store_step_keeps [OF assms(1)])
  have "now < se_expires_at e \<and> (\<exists>x. wake = Some x \<and> x \<le> se_expires_at e)"
    if pass: "cleanup_pass now i = Some (True, wake, i')" and e: "st_map i' k = Some e" for k e
  proof -
    obtain i1 where sw: "sweep_expired now i = Some i1" and i': "i' = i1\<lparr>st_notified := False\<rparr>"
        and wake: "wake = map_option hn_expires_at (heap_peek (st_heap i'))"
      using pass by (auto simp: cleanup_pass_def split: if_splits option.splits)
    note S = sweep_keeps [OF inv sw]
    have h: "HeapEntry (se_expires_at e) (se_version e) k \<in># st_heap i'" using S(1) e by (simp add: store_inv_def i')
    then obtain tp where tp: "heap_peek (st_heap i') = Some tp" by (cases "heap_peek (st_heap i')") auto
    show ?thesis using S(3) e heap_peek_SomeD(2) [OF tp h] tp by (simp add: wake i')
  qed
  note pass = this
  have "st_notified i'' \<or> st_map i'' \<subseteq>\<^sub>m st_map i'"
    if "\<forall>(t, c) \<in> set cs. c \<noteq> CallCleanup" "after_calls cr skey cs (i', w) = (i'', w')"
    using history_notifies [OF assms(1) _ that(1), of "(i', w)" "st_map i'" skey] that(2) by simp
  then have "st_notified i'' \<or> (\<forall>k e. st_map i'' k = Some e \<longrightarrow> st_map i' k = Some e)"
    if "\<forall>(t, c) \<in> set cs. c \<noteq> CallCleanup" "after_calls cr skey cs (i', w) = (i'', w')"
    using that unfolding map_le_def by (metis domI)
  with inv pass show ?thesis by blast
qed

theorem cleanup_misses_nothing_witness:
  "\<exists>i i'. (store_step sample_crates (replicate 32 1))\<^sup>*\<^sup>* store_inner_default i \<and> st_map i \<noteq> Map.empty
    \<and> cleanup_pass 20 i = Some (True, None, i') \<and> st_map i' = Map.empty"
proof -
  let ?hk = "hash_sha256_hex sample_crates (as_bytes ''k'')"
  obtain s' where run: "store_set sample_crates (replicate 32 1) 5 ''k'' [7] 10 (store_inner_default, clean_world []) = (Done (), s')"
    by (rule sample_set)
  obtain i w where s': "s' = (i, w)" by fastforce
  have step: "(store_step sample_crates (replicate 32 1))\<^sup>*\<^sup>* store_inner_default i"
    using step_set [of sample_crates "replicate 32 1"] run s' by blast
  have i: "st_heap i = {#HeapEntry 15 0 ?hk#}" "st_map i ?hk \<noteq> None" "\<not> st_stop i"
    using run s'
    by (auto simp: store_set_def store_iffs Let_def instant_checked_add_def store_insert_def next_version_def
        store_inner_default_def sweep_expired.simps heap_peek_def split: option.splits)
  obtain i1 where sw: "sweep_expired 20 i = Some i1" "st_heap i1 = {#}"
    using sweep_expired_run [of 20 i] i(1) by auto
  then obtain i' where pass: "cleanup_pass 20 i = Some (True, None, i')" using i(3) by (simp add: cleanup_pass_def heap_peek_def)
  have "st_map i' k = None" for k
    using cleanup_misses_nothing [OF sample_aead_ok step, of 20 None i', THEN conjunct2, THEN conjunct1] pass by (cases "st_map i' k") auto
  with step i(2) pass show ?thesis by (intro exI [of _ i] exI [of _ i']) auto
qed


text \<open>C23. A secret is given out once.  After a set that stored a value, let any calls, passes of the cleanup thread and failures follow
  that neither store nor remove the key: a take then returns, and it returns the value before the deadline and nothing from the deadline on.
  After that take, whatever follows that does not store the key again, every take and every peek returns nothing.\<close>

theorem secret_is_taken_once:
  assumes "aead_ok cr" and "store_inv cr skey (fst s)" and "ttl \<noteq> 0" and "hk = hash_sha256_hex cr (as_bytes key)" and "now \<le> u"
    and "store_set cr skey now key v ttl s = (Done (), s1) \<or> store_set_if_absent cr skey now key v ttl s = (Done True, s1)"
    and "\<forall>(t, c) \<in> set cs. t \<le> u \<and> stored_key cr c \<noteq> Some hk \<and> removed_key cr c \<noteq> Some hk"
    and "\<forall>(t, c) \<in> set cs'. t \<le> x \<and> stored_key cr c \<noteq> Some hk"
    and "s2 = after_calls cr skey cs s1" and "s3 = after_calls cr skey cs' (snd (store_take cr skey u key s2))"
  shows "fst (store_take cr skey u key s2) = Done (if u < now + ttl then Some v else None)
    \<and> fst (store_take cr skey x key s3) = Done None \<and> fst (store_peek cr skey x key s3) = Done None"
proof -
  have "shows_at cr skey u hk (if u < now + ttl then Some v else None) (fst s1)"
    using store_set_law [OF assms(1-3,5,6)] by (simp add: assms(4))
  then have s2: "shows_at cr skey u hk (if u < now + ttl then Some v else None) (fst s2)"
    unfolding assms(9) by (rule history_view [OF assms(1)]) (use assms(7) in auto)
  obtain r s2' where take: "store_take cr skey u key s2 = (Done r, s2')" using reads_return(2) s2 by blast
  note T = store_take_law [OF conjunct1 [OF s2] take]
  have "shows_at cr skey x hk None (fst s2')" using T(1,3) by (simp add: assms(4))
  then have s3: "shows_at cr skey x hk None (fst s3)"
    unfolding assms(10) take snd_conv by (rule history_view [OF assms(1)]) (use assms(8) in auto)
  obtain r1 s4 r2 s5 where again: "store_take cr skey x key s3 = (Done r1, s4)" "store_peek cr skey x key s3 = (Done r2, s5)"
    using reads_return s3 by metis
  have "r1 = None" "r2 = None"
    using store_take_law(2) [OF conjunct1 [OF s3] again(1)] store_peek_law(2) [OF conjunct1 [OF s3] again(2)] s3 by (simp_all add: assms(4))
  then show ?thesis using T(2) take s2 again by (simp add: assms(4))
qed

theorem secret_is_taken_once_witness:
  "\<exists>s1 s2 s3. store_set sample_crates (replicate 32 1) 5 ''k'' [7] 10 (store_inner_default, clean_world []) = (Done (), s1)
    \<and> s2 = after_calls sample_crates (replicate 32 1) [(6, CallPeek ''k''), (7, CallCleanup)] s1
    \<and> fst (store_take sample_crates (replicate 32 1) 8 ''k'' s2) = Done (Some [7])
    \<and> s3 = after_calls sample_crates (replicate 32 1) [(9, CallTake ''k''), (9, CallDel ''k'')] (snd (store_take sample_crates (replicate 32 1) 8 ''k'' s2))
    \<and> fst (store_take sample_crates (replicate 32 1) 9 ''k'' s3) = Done None"
proof -
  let ?k = "replicate 32 1 :: bytes"
  have inv: "store_inv sample_crates ?k (fst (store_inner_default, clean_world []))" by (simp add: store_inv_default)
  obtain s1 where s1: "store_set sample_crates ?k 5 ''k'' [7] 10 (store_inner_default, clean_world []) = (Done (), s1)"
    by (rule sample_set)
  show ?thesis
    using secret_is_taken_once [OF sample_aead_ok inv _ refl _ disjI1 [OF s1], of 8 "[(6, CallPeek ''k''), (7, CallCleanup)]"
        "[(9, CallTake ''k''), (9, CallDel ''k'')]" 9] s1
    by simp
qed


text \<open>C39. A set with a zero time to live reports success and changes nothing: a value stored earlier under
  the key stays readable until its own deadline.\<close>

theorem zero_ttl_keeps_old_value:
  assumes "aead_ok cr" and "store_inv cr skey (fst s)" and "ttl \<noteq> 0"
    and "store_set cr skey now key old ttl s = (Done (), s1)" and "now \<le> t" and "t < now + ttl"
    and "store_peek cr skey t key s2 = (Done r, s3)" and "store_set cr skey now' key new 0 s1 = (out, s2)"
  shows "out = Done () \<and> s2 = s1 \<and> r = Some old"
proof -
  have s2: "out = Done ()" "s2 = s1" using assms(8) by (simp_all add: store_set_def ret_def)
  have ops: "did_set cr skey now (hash_sha256_hex cr (as_bytes key)) old (now + ttl) s s1"
      "did_peek cr skey t (hash_sha256_hex cr (as_bytes key)) r s1 s3"
    using assms(3,4,7) s2 by (auto simp: did_set_def did_peek_def)
  have ok: "aead_ok cr \<and> store_inv cr skey (fst s)" using assms(1,2) by simp
  show ?thesis using est.get_after_put [OF ok ops assms(5)] assms(6) s2 by simp
qed

theorem zero_ttl_keeps_old_value_witness:
  "\<exists>s1 s3. store_set sample_crates (replicate 32 1) 5 ''k'' [7] 10 (store_inner_default, clean_world []) = (Done (), s1)
    \<and> store_set sample_crates (replicate 32 1) 6 ''k'' [8] 0 s1 = (Done (), s1)
    \<and> store_peek sample_crates (replicate 32 1) 7 ''k'' s1 = (Done (Some [7]), s3)"
proof -
  let ?k = "replicate 32 1 :: bytes"
  have inv: "store_inv sample_crates ?k (fst (store_inner_default, clean_world []))" by (simp add: store_inv_default)
  obtain s1 where s1: "store_set sample_crates ?k 5 ''k'' [7] 10 (store_inner_default, clean_world []) = (Done (), s1)"
    by (rule sample_set)
  have i1: "store_inv sample_crates ?k (fst s1)"
    by (rule store_set_law(1) [OF sample_aead_ok inv _ order_refl disjI1 [OF s1]]) simp
  obtain out s2 where s2: "store_set sample_crates ?k 6 ''k'' [8] 0 s1 = (out, s2)" by (meson surj_pair)
  then have "s2 = s1" by (simp add: store_set_def ret_def)
  then obtain r s3 where s3: "store_peek sample_crates ?k 7 ''k'' s2 = (Done r, s3)" using reads_return(1) [OF i1] by blast
  show ?thesis
    using zero_ttl_keeps_old_value [OF sample_aead_ok inv _ s1 _ _ s3 s2] s1 s2 s3 by auto
qed


end
