(* ===== verification/KyberBox.thy ===== *)
theory KyberBox
  imports Primitives
begin

text \<open>
  Hybrid public-key sealing, \<^verbatim>\<open>src/src/crypto/kyberbox.rs\<close>: an X25519 agreement and an ML-KEM-1024
  encapsulation are combined into one key that binds the context, both X25519 public values and the
  KEM ciphertext, and the data is encrypted under it.  The dual key types add a reply key that is
  authenticated with the message.  The theory interprets the codec contract on the wire types and
  shows that opening inverts sealing, what a failure can be, and what the derived key binds.
\<close>

section \<open>Sealed messages\<close>

definition KYBER_BOX_VERSION :: u8 where
  "KYBER_BOX_VERSION = 1"

definition KYBER_KEM_ID :: u8 where
  "KYBER_KEM_ID = 1"

definition X25519_PUB_LEN :: nat where
  "X25519_PUB_LEN = 32"

definition MLKEM1024_PUB_LEN :: nat where
  "MLKEM1024_PUB_LEN = 1568"

definition KEM_CT_LEN :: nat where
  "KEM_CT_LEN = 1568 + 2"

definition DUAL_ENC_PUB_LEN :: nat where
  "DUAL_ENC_PUB_LEN = X25519_PUB_LEN + MLKEM1024_PUB_LEN"

definition DUAL_ENC_PRIV_LEN :: nat where
  "DUAL_ENC_PRIV_LEN = 32 + 64"

lemmas box_lens = X25519_PUB_LEN_def MLKEM1024_PUB_LEN_def KEM_CT_LEN_def DUAL_ENC_PUB_LEN_def
  DUAL_ENC_PRIV_LEN_def

record kyber_box_sealed =
  ks_x_pub :: bytes
  ks_kem_ct :: bytes
  ks_ciphertext :: bytes

definition sealed_to_wire :: "kyber_box_sealed \<Rightarrow> bytes" where
  "sealed_to_wire s = ks_x_pub s @ ks_kem_ct s @ ks_ciphertext s"

definition sealed_from_wire :: "bytes \<Rightarrow> kyber_box_sealed result" where
  "sealed_from_wire bs =
     (let n = X25519_PUB_LEN + KEM_CT_LEN in
      if length bs < n then Inl (invalid_len n (length bs))
      else rbind (pub_fixed_from_slice 32 (take X25519_PUB_LEN bs)) (\<lambda>x.
        Inr \<lparr>ks_x_pub = x, ks_kem_ct = take (n - X25519_PUB_LEN) (drop X25519_PUB_LEN bs), ks_ciphertext = drop n bs\<rparr>))"

section \<open>Key agreement\<close>

definition ecdh_kdf :: "crates \<Rightarrow> bytes \<Rightarrow> bytes \<Rightarrow> bytes \<Rightarrow> bytes result" where
  "ecdh_kdf cr my_secret peer_pub_x ecdh_label =
     (let shared = x25519_shared cr my_secret peer_pub_x in
      if \<not> x25519_contributory cr shared then Inl (invalid_public_key ''x25519'' ''low_order'')
      else derive32_raw cr shared None ecdh_label)"

text \<open>The bytes that the combiner puts into the key derivation besides the two shared secrets.\<close>

definition combiner_info :: "bytes \<Rightarrow> bytes \<Rightarrow> bytes \<Rightarrow> bytes \<Rightarrow> bytes" where
  "combiner_info base_label ct_t ek_t ct_pq_hash = base_label @ ct_t @ ek_t @ ct_pq_hash"

definition derive_base_key :: "crates \<Rightarrow> bytes \<Rightarrow> bytes \<Rightarrow> bytes \<Rightarrow> bytes \<Rightarrow> bytes \<Rightarrow> bytes \<Rightarrow> bytes result" where
  "derive_base_key cr ss_kem ecdh_key ct_t ek_t ct_pq_hash base_label =
     derive32_raw cr ecdh_key (Some ss_kem) (combiner_info base_label ct_t ek_t ct_pq_hash)"

text \<open>\<open>Encapsulate::encapsulate\<close> draws its 32 bytes from the system generator and panics when that fails.\<close>

definition mlkem_encapsulate :: "crates \<Rightarrow> bytes \<Rightarrow> ('p world, bytes \<times> bytes) leff" where
  "mlkem_encapsulate cr ek w = (case random_fixed 32 w of
     (Done r, w') \<Rightarrow> (Done (mlkem_encaps cr ek r), w')
   | (_, w') \<Rightarrow> (Crash, w'))"

definition encapsulate_kem :: "crates \<Rightarrow> bytes \<Rightarrow> ('p world, bytes \<times> bytes \<times> bytes) leff" where
  "encapsulate_kem cr peer_kyber_pub =
     bindM (liftR (ok_or (invalid_public_key ''kyber-mlkem1024'' ''encapsulation_key'')
       (mlkem_ek_import cr peer_kyber_pub))) (\<lambda>pk.
     bindM (mlkem_encapsulate cr pk) (\<lambda>(ct, ss).
     bindM (liftR (map_err (\<lambda>_. internal_error ''mlkem_shared_secret_len'') (fst (sec_fixed_from_wiped 32 ss)))) (\<lambda>ss_bytes.
     let ct_hash = sha256_digest cr ct; blob = [KYBER_BOX_VERSION, KYBER_KEM_ID] @ ct in
     ret (ss_bytes, ct_hash, blob))))"

text \<open>\<open>Seed::try_from\<close> and \<open>Ciphertext::try_from\<close> check the length.\<close>

definition decapsulate_kem :: "crates \<Rightarrow> bytes \<Rightarrow> bytes \<Rightarrow> (bytes \<times> bytes) result" where
  "decapsulate_kem cr kyber_priv blob =
     (if length blob < 2 then Inl kem_invalid_ciphertext
      else if blob ! 0 \<noteq> KYBER_BOX_VERSION \<or> blob ! 1 \<noteq> KYBER_KEM_ID then Inl kem_invalid_ciphertext
      else
        let ct_slice = drop 2 blob; ct_hash = sha256_digest cr ct_slice in
        rbind (if length kyber_priv = 64 then Inr kyber_priv else Inl (invalid_len 64 (length kyber_priv))) (\<lambda>sk.
        rbind (if length ct_slice = 1568 then Inr ct_slice else Inl kem_invalid_ciphertext) (\<lambda>ct.
        rbind (map_err (\<lambda>_. internal_error ''mlkem_shared_secret_len'')
          (fst (sec_fixed_from_wiped 32 (mlkem_decaps cr sk ct)))) (\<lambda>ss.
        Inr (ss, ct_hash)))))"

definition prep_base_key_for_encryption ::
    "crates \<Rightarrow> string \<Rightarrow> bytes \<Rightarrow> bytes \<Rightarrow> bytes \<Rightarrow> ('p world, bytes \<times> bytes \<times> bytes) leff" where
  "prep_base_key_for_encryption cr c priv_x peer_pub_x peer_k_pub =
     bindM (liftR (if length priv_x = 32 then Inr priv_x else Inl (invalid_len 32 (length priv_x)))) (\<lambda>my_secret.
     let ct_t = x25519_public cr my_secret; ek_t = peer_pub_x in
     bindM (liftR (ctx_add c ''ecdh-key'')) (\<lambda>ec.
     bindM (liftR (ecdh_kdf cr my_secret peer_pub_x (ctx_label ec))) (\<lambda>ecdh_key.
     bindM (encapsulate_kem cr peer_k_pub) (\<lambda>(ss_kem, ct_hash, kem_ct).
     bindM (liftR (ctx_add c ''base-key'')) (\<lambda>bc.
     bindM (liftR (derive_base_key cr ss_kem ecdh_key ct_t ek_t ct_hash (ctx_label bc))) (\<lambda>base_key.
     ret (base_key, kem_ct, ct_t)))))))"

definition prep_base_key_for_decryption ::
    "crates \<Rightarrow> string \<Rightarrow> bytes \<Rightarrow> bytes \<Rightarrow> bytes \<Rightarrow> bytes \<Rightarrow> bytes result" where
  "prep_base_key_for_decryption cr c priv_x peer_pub_x kyber_priv kem_ct =
     rbind (if length priv_x = 32 then Inr priv_x else Inl (invalid_len 32 (length priv_x))) (\<lambda>my_secret.
     rbind (ctx_add c ''ecdh-key'') (\<lambda>ec.
     rbind (ecdh_kdf cr my_secret peer_pub_x (ctx_label ec)) (\<lambda>ecdh_key.
     let ct_t = peer_pub_x; ek_t = x25519_public cr my_secret in
     rbind (decapsulate_kem cr kyber_priv kem_ct) (\<lambda>(ss_kem, ct_hash).
     rbind (ctx_add c ''base-key'') (\<lambda>bc.
     derive_base_key cr ss_kem ecdh_key ct_t ek_t ct_hash (ctx_label bc))))))"

section \<open>Sealing and opening\<close>

definition kb_seal :: "crates \<Rightarrow> string \<Rightarrow> bytes \<Rightarrow> bytes \<Rightarrow> bytes \<Rightarrow> bytes
    \<Rightarrow> ('p world, kyber_box_sealed \<times> bytes) leff" where
  "kb_seal cr c peer_pub_x peer_k_pub aad data =
     bindM (ephemeral_x25519_keypair cr) (\<lambda>(sender_priv_x, _).
     bindM (prep_base_key_for_encryption cr c sender_priv_x peer_pub_x peer_k_pub) (\<lambda>(base_key, kem_ct, sender_x_pub).
     bindM (liftR (ctx_add c ''data'')) (\<lambda>data_ctx.
     bindM (aead_encrypt cr data base_key data_ctx aad) (\<lambda>ciphertext.
     ret (\<lparr>ks_x_pub = sender_x_pub, ks_kem_ct = kem_ct, ks_ciphertext = ciphertext\<rparr>, sender_priv_x)))))"

definition kb_open :: "crates \<Rightarrow> string \<Rightarrow> bytes \<Rightarrow> bytes \<Rightarrow> bytes \<Rightarrow> kyber_box_sealed \<Rightarrow> bytes result" where
  "kb_open cr c priv_x kyber_priv aad s =
     rbind (prep_base_key_for_decryption cr c priv_x (ks_x_pub s) kyber_priv (ks_kem_ct s)) (\<lambda>base_key.
     rbind (ctx_add c ''data'') (\<lambda>data_ctx.
     aead_decrypt cr (ks_ciphertext s) base_key data_ctx aad))"

section \<open>Dual keys\<close>

record dual_enc_pub =
  dp_x25519 :: bytes
  dp_mlkem1024 :: bytes

record dual_enc_priv =
  ds_x25519 :: bytes
  ds_mlkem1024 :: bytes

record dual_sealed =
  reply_pub :: dual_enc_pub
  inner_box :: kyber_box_sealed

definition dual_pub_new :: "bytes \<Rightarrow> bytes \<Rightarrow> dual_enc_pub result" where
  "dual_pub_new x k =
     (if length k \<noteq> MLKEM1024_PUB_LEN then Inl (invalid_len MLKEM1024_PUB_LEN (length k))
      else Inr \<lparr>dp_x25519 = x, dp_mlkem1024 = k\<rparr>)"

definition dual_pub_to_wire :: "dual_enc_pub \<Rightarrow> bytes" where
  "dual_pub_to_wire k = dp_x25519 k @ dp_mlkem1024 k"

definition dual_pub_from_wire :: "bytes \<Rightarrow> dual_enc_pub result" where
  "dual_pub_from_wire bs =
     (if length bs \<noteq> DUAL_ENC_PUB_LEN then Inl (invalid_len DUAL_ENC_PUB_LEN (length bs))
      else rbind (pub_fixed_from_slice 32 (take X25519_PUB_LEN bs)) (\<lambda>x.
        Inr \<lparr>dp_x25519 = x, dp_mlkem1024 = drop X25519_PUB_LEN bs\<rparr>))"

definition dual_priv_ephemeral :: "crates \<Rightarrow> ('p world, dual_enc_priv \<times> dual_enc_pub) leff" where
  "dual_priv_ephemeral cr =
     bindM (ephemeral_x25519_keypair cr) (\<lambda>(x_priv, x_pub).
     bindM (ephemeral_kyber_mlkem1024_keypair cr) (\<lambda>(k_priv, k_pub).
     ret (\<lparr>ds_x25519 = x_priv, ds_mlkem1024 = k_priv\<rparr>, \<lparr>dp_x25519 = x_pub, dp_mlkem1024 = k_pub\<rparr>)))"

definition dual_priv_to_wire :: "dual_enc_priv \<Rightarrow> bytes" where
  "dual_priv_to_wire k = contents (fst (secret_bytes_new (to_vec (ds_x25519 k @ ds_mlkem1024 k))))"

definition dual_priv_from_wire :: "bytes \<Rightarrow> dual_enc_priv result" where
  "dual_priv_from_wire bs =
     (if length bs \<noteq> DUAL_ENC_PRIV_LEN then Inl (invalid_len DUAL_ENC_PRIV_LEN (length bs))
      else rbind (sec_fixed_from_slice 32 (take 32 bs)) (\<lambda>x.
        rbind (sec_fixed_from_slice 64 (drop 32 bs)) (\<lambda>k.
        Inr \<lparr>ds_x25519 = x, ds_mlkem1024 = k\<rparr>)))"

definition dual_seal :: "crates \<Rightarrow> dual_enc_pub \<Rightarrow> string \<Rightarrow> bytes \<Rightarrow> bytes
    \<Rightarrow> ('p world, dual_sealed \<times> dual_enc_priv) leff" where
  "dual_seal cr pk c aad data =
     bindM (dual_priv_ephemeral cr) (\<lambda>(rpriv, rpub).
     let bound_aad = dual_pub_to_wire rpub @ aad in
     bindM (kb_seal cr c (dp_x25519 pk) (dp_mlkem1024 pk) bound_aad data) (\<lambda>(inner, _).
     ret (\<lparr>reply_pub = rpub, inner_box = inner\<rparr>, rpriv)))"

definition dual_open :: "crates \<Rightarrow> dual_enc_priv \<Rightarrow> string \<Rightarrow> bytes \<Rightarrow> dual_sealed \<Rightarrow> (bytes \<times> dual_enc_pub) result" where
  "dual_open cr sk c aad s =
     (let bound_aad = dual_pub_to_wire (reply_pub s) @ aad in
      rbind (kb_open cr c (ds_x25519 sk) (ds_mlkem1024 sk) bound_aad (inner_box s)) (\<lambda>plaintext.
      Inr (plaintext, reply_pub s)))"

definition dual_sealed_to_wire :: "dual_sealed \<Rightarrow> bytes" where
  "dual_sealed_to_wire s = dual_pub_to_wire (reply_pub s) @ sealed_to_wire (inner_box s)"

definition dual_sealed_from_wire :: "bytes \<Rightarrow> dual_sealed result" where
  "dual_sealed_from_wire bs =
     (if length bs < DUAL_ENC_PUB_LEN then Inl (invalid_len DUAL_ENC_PUB_LEN (length bs))
      else rbind (dual_pub_from_wire (take DUAL_ENC_PUB_LEN bs)) (\<lambda>rp.
        rbind (sealed_from_wire (drop DUAL_ENC_PUB_LEN bs)) (\<lambda>inner.
        Inr \<lparr>reply_pub = rp, inner_box = inner\<rparr>)))"


section \<open>The codec contract\<close>

definition sealed_wf :: "kyber_box_sealed \<Rightarrow> bool" where
  "sealed_wf s \<longleftrightarrow> length (ks_x_pub s) = 32 \<and> length (ks_kem_ct s) = 1570"

definition dual_pub_wf :: "dual_enc_pub \<Rightarrow> bool" where
  "dual_pub_wf k \<longleftrightarrow> length (dp_x25519 k) = 32 \<and> length (dp_mlkem1024 k) = 1568"

definition dual_priv_wf :: "dual_enc_priv \<Rightarrow> bool" where
  "dual_priv_wf k \<longleftrightarrow> length (ds_x25519 k) = 32 \<and> length (ds_mlkem1024 k) = 64"

definition dual_sealed_wf :: "dual_sealed \<Rightarrow> bool" where
  "dual_sealed_wf s \<longleftrightarrow> dual_pub_wf (reply_pub s) \<and> sealed_wf (inner_box s)"

lemma dual_priv_to_wire_bytes [simp]: "dual_priv_to_wire k = ds_x25519 k @ ds_mlkem1024 k"
  by (simp add: dual_priv_to_wire_def secret_bytes_new_def to_vec_def)

interpretation kbs: wire_codec sealed_to_wire sealed_from_wire sealed_wf
proof
  fix bs x
  assume "sealed_from_wire bs = Inr x"
  then have n: "1602 \<le> length bs"
      and x: "x = \<lparr>ks_x_pub = take 32 bs, ks_kem_ct = take 1570 (drop 32 bs), ks_ciphertext = drop 1602 bs\<rparr>"
    by (auto simp: sealed_from_wire_def box_lens Let_def rbind_Inr_iff split: if_splits)
  have "drop 32 bs = take 1570 (drop 32 bs) @ drop 1602 bs"
    using append_take_drop_id [of 1570 "drop 32 bs"] by simp
  then show "sealed_to_wire x = bs"
    using append_take_drop_id [of 32 bs] by (simp add: x sealed_to_wire_def)
  show "sealed_wf x" using n by (simp add: x sealed_wf_def)
qed (simp add: sealed_from_wire_def sealed_to_wire_def sealed_wf_def box_lens pub_fixed_from_slice_def)

interpretation dep: fixed_codec dual_pub_to_wire dual_pub_from_wire dual_pub_wf 1600
  by unfold_locales
     (auto simp: dual_pub_to_wire_def dual_pub_from_wire_def dual_pub_wf_def box_lens rbind_Inr_iff is_ok_iff
        pub_fixed_from_slice_def split: if_splits)

interpretation dsk: fixed_codec dual_priv_to_wire dual_priv_from_wire dual_priv_wf 96
  by unfold_locales
     (auto simp: dual_priv_from_wire_def dual_priv_wf_def box_lens rbind_Inr_iff is_ok_iff
        sec_fixed_from_slice_def split: if_splits)

interpretation dfr: framed_codec dual_pub_to_wire dual_pub_from_wire dual_pub_wf 1600
    sealed_to_wire sealed_from_wire sealed_wf ..

interpretation dsl: wire_codec dual_sealed_to_wire dual_sealed_from_wire dual_sealed_wf
proof
  fix x
  assume "dual_sealed_wf x"
  then have wf: "dual_pub_wf (reply_pub x)" "sealed_wf (inner_box x)" by (simp_all add: dual_sealed_wf_def)
  show "dual_sealed_from_wire (dual_sealed_to_wire x) = Inr x"
    using dfr.frame_split [OF wf(1)] dep.wf_size [OF wf(1)] dep.from_to [OF wf(1)] kbs.from_to [OF wf(2)]
    by (simp add: dual_sealed_from_wire_def dual_sealed_to_wire_def box_lens)
next
  fix bs x
  assume "dual_sealed_from_wire bs = Inr x"
  then have "dual_pub_from_wire (take 1600 bs) = Inr (reply_pub x)"
      and "sealed_from_wire (drop 1600 bs) = Inr (inner_box x)"
    by (auto simp: dual_sealed_from_wire_def box_lens rbind_Inr_iff split: if_splits)
  then show "dual_sealed_to_wire x = bs" and "dual_sealed_wf x"
    using dep.to_from dep.from_wf kbs.to_from kbs.from_wf
    by (simp_all add: dual_sealed_to_wire_def dual_sealed_wf_def)
qed

section \<open>Agreement\<close>

lemma derive32_raw_length: "derive32_raw cr input slt info = Inr k \<Longrightarrow> length k = 32"
  by (auto simp: derive32_raw_def rbind_Inr_iff)

lemma random_fixed_Fail:
  "random_fixed n w = (Fail e, w') \<Longrightarrow> e = with_source random_failed (OtherSource ''SysError'')"
  "random_fixed n w \<noteq> (Crash, w')"
  by (auto simp: random_fixed_def split: if_splits)

lemma sec_fixed_from_wiped_ok [simp]: "length s = n \<Longrightarrow> fst (sec_fixed_from_wiped n s) = Inr s"
  by (simp add: sec_fixed_from_wiped_def)

lemma mlkem_okD:
  assumes "mlkem_ok cr"
  shows "length d = 64 \<Longrightarrow> length (mlkem_ek_of_seed cr d) = 1568"
    and "length d = 64 \<Longrightarrow> mlkem_ek_import cr (mlkem_ek_of_seed cr d) = Some (mlkem_ek_of_seed cr d)"
    and "length (fst (mlkem_encaps cr ek r)) = 1568" and "length (snd (mlkem_encaps cr ek r)) = 32"
    and "length (mlkem_decaps cr d ct) = 32"
    and "length d = 64 \<Longrightarrow> mlkem_decaps cr d (fst (mlkem_encaps cr (mlkem_ek_of_seed cr d) r))
      = snd (mlkem_encaps cr (mlkem_ek_of_seed cr d) r)"
  using assms unfolding mlkem_ok_def by simp_all

lemma encapsulate_kem_run:
  assumes "mlkem_ok cr" and "length seed = 64"
  shows "encapsulate_kem cr (mlkem_ek_of_seed cr seed) w =
    (case random_fixed 32 w of
       (Done r, w') \<Rightarrow> (let (ct, ss) = mlkem_encaps cr (mlkem_ek_of_seed cr seed) r in
         (Done (ss, sha256_digest cr ct, [1, 1] @ ct), w'))
     | (_, w') \<Rightarrow> (Crash, w'))"
proof (cases "random_fixed 32 w")
  case (Pair out w')
  show ?thesis
  proof (cases out)
    case (Done r)
    obtain ct ss where e: "mlkem_encaps cr (mlkem_ek_of_seed cr seed) r = (ct, ss)" by fastforce
    have "length ss = 32" using mlkem_okD(4) [OF assms(1), of "mlkem_ek_of_seed cr seed" r] e by simp
    then show ?thesis
      using Pair Done e mlkem_okD(2) [OF assms]
      by (simp add: encapsulate_kem_def mlkem_encapsulate_def bindM_def ret_def KYBER_BOX_VERSION_def KYBER_KEM_ID_def)
  qed (use Pair mlkem_okD(2) [OF assms] in
      \<open>simp_all add: encapsulate_kem_def mlkem_encapsulate_def bindM_def\<close>)
qed

lemma decapsulate_encapsulated:
  assumes "mlkem_ok cr" and "length seed = 64" and "(ct, ss) = mlkem_encaps cr (mlkem_ek_of_seed cr seed) r"
  shows "decapsulate_kem cr seed ([1, 1] @ ct) = Inr (ss, sha256_digest cr ct)" and "length ct = 1568"
  using mlkem_okD(3) [OF assms(1), of "mlkem_ek_of_seed cr seed" r] mlkem_okD(5) [OF assms(1), of seed ct]
    mlkem_okD(6) [OF assms(1,2), of r] assms(2,3)
  by (simp_all add: decapsulate_kem_def KYBER_BOX_VERSION_def KYBER_KEM_ID_def)
     (metis fst_conv snd_conv)+

lemma ctx_add_Inl: "segment s \<Longrightarrow> ctx_add c s = Inl e \<Longrightarrow> e = invalid_context ''too_long''"
  by (auto simp: ctx_add_def rbind_Inl_iff Let_def validate_segment_def segment_def split: if_splits)

lemma box_segments: "segment ''ecdh-key''" "segment ''base-key''" "segment ''data''"
  by (simp_all add: segment_def segment_byte_def)

definition box_error :: "lithium_error \<Rightarrow> bool" where
  "box_error e \<longleftrightarrow> e \<in> {with_source random_failed (OtherSource ''SysError''),
     invalid_public_key ''x25519'' ''low_order'', invalid_context ''too_long'', aead_failed}"

lemma derive32_raw_no_error: "hkdf_ok cr \<Longrightarrow> derive32_raw cr i s n \<noteq> Inl e"
  by (rule derive32_raw_total [of cr i s n]) auto

text \<open>Every branch of the sender's half, for a recipient whose KEM key comes from a seed.\<close>

lemma prep_encryption_cases:
  assumes "hkdf_ok cr" and "x25519_ok cr" and "mlkem_ok cr" and "length my = 32" and "length peer = 32"
    and "length seed = 64"
  shows "case prep_base_key_for_encryption cr c my (x25519_public cr peer) (mlkem_ek_of_seed cr seed) w of
      (Done (k, kem_ct, x), w') \<Rightarrow> prep_base_key_for_decryption cr c peer x seed kem_ct = Inr k
        \<and> x = x25519_public cr my \<and> length k = 32 \<and> length kem_ct = 1570
    | (Fail e, w') \<Rightarrow> box_error e
    | (Crash, w') \<Rightarrow> rng_fail w (rng_pos w)"
proof (cases "ctx_add c ''ecdh-key''")
  case (Inl e)
  then show ?thesis
    using assms(4) ctx_add_Inl [OF box_segments(1) Inl]
    by (simp add: prep_base_key_for_encryption_def run_defs Let_def box_error_def)
next
  case (Inr ec)
  have dh: "x25519_shared cr peer (x25519_public cr my) = x25519_shared cr my (x25519_public cr peer)"
    using assms(2,4,5) unfolding x25519_ok_def by simp
  show ?thesis
  proof (cases "ecdh_kdf cr my (x25519_public cr peer) (ctx_label ec)")
    case (Inl e)
    then have "box_error e"
      using derive32_raw_no_error [OF assms(1)] by (auto simp: ecdh_kdf_def Let_def box_error_def split: if_splits)
    then show ?thesis
      using assms(4) \<open>ctx_add c _ = _\<close> Inl by (simp add: prep_base_key_for_encryption_def run_defs Let_def)
  next
    case (Inr ek)
    then have ek': "ecdh_kdf cr peer (x25519_public cr my) (ctx_label ec) = Inr ek"
      using dh by (simp add: ecdh_kdf_def)
    obtain out w1 where rnd: "random_fixed 32 w = (out, w1)" by fastforce
    show ?thesis
    proof (cases out)
      case (Done r)
      obtain ct ss where enc: "(ct, ss) = mlkem_encaps cr (mlkem_ek_of_seed cr seed) r"
        by (metis surj_pair)
      note dec = decapsulate_encapsulated [OF assms(3,6) enc]
      show ?thesis
      proof (cases "ctx_add c ''base-key''")
        case (Inl e)
        then show ?thesis
          using assms(4) \<open>ctx_add c ''ecdh-key'' = _\<close> Inr rnd Done enc [symmetric]
            ctx_add_Inl [OF box_segments(2) Inl]
          by (simp add: prep_base_key_for_encryption_def run_defs Let_def encapsulate_kem_run [OF assms(3,6)] box_error_def)
      next
        case (Inr bc)
        obtain k where k: "derive_base_key cr ss ek (x25519_public cr my) (x25519_public cr peer)
            (sha256_digest cr ct) (ctx_label bc) = Inr k" "length k = 32"
          unfolding derive_base_key_def by (rule derive32_raw_total [OF assms(1)])
        show ?thesis
          using assms(4,5) \<open>ctx_add c ''ecdh-key'' = _\<close> \<open>ecdh_kdf cr my _ _ = _\<close> ek' rnd Done enc [symmetric] Inr k dec
          by (simp add: prep_base_key_for_encryption_def prep_base_key_for_decryption_def run_defs Let_def
              encapsulate_kem_run [OF assms(3,6)])
      qed
    next
      case (Fail e)
      then show ?thesis
        using assms(4) \<open>ctx_add c ''ecdh-key'' = _\<close> Inr rnd
        by (auto simp: prep_base_key_for_encryption_def run_defs Let_def encapsulate_kem_run [OF assms(3,6)]
            random_fixed_def split: if_splits)
    qed (use rnd random_fixed_Fail(2) in blast)
  qed
qed


lemma aead_encrypt_cases:
  assumes "aead_ok cr" and "length key = 32"
  shows "case aead_encrypt cr m key c aad w of
      (Done blob, w') \<Rightarrow> aead_decrypt cr blob key c aad = Inr m \<and> length blob = length m + 29
    | (Fail e, w') \<Rightarrow> box_error e
    | (Crash, w') \<Rightarrow> False"
proof (cases "encrypt_framed cr m key (rng_draw w 12) c aad")
  case (Inl e)
  then have "e = aead_failed"
    by (auto simp: encrypt_framed_def encrypt_raw_def rbind_Inl_iff ok_or_def split: option.splits)
  with Inl show ?thesis
    by (simp add: aead_encrypt_def bindM_def random_fixed_def fail_def ret_def box_error_def)
next
  case (Inr blob)
  then show ?thesis
    using decrypt_framed [OF assms length_rng_draw Inr]
    by (simp add: aead_encrypt_def bindM_def random_fixed_def fail_def ret_def box_error_def)
qed

lemma kb_seal_cases:
  assumes "aead_ok cr" and "hkdf_ok cr" and "x25519_ok cr" and "mlkem_ok cr" and "length peer = 32"
    and "length seed = 64"
  shows "case kb_seal cr c (x25519_public cr peer) (mlkem_ek_of_seed cr seed) aad data w of
      (Done (s, sk), w') \<Rightarrow> kb_open cr c peer seed aad s = Inr data \<and> sealed_wf s
        \<and> length (ks_ciphertext s) = length data + 29
    | (Fail e, w') \<Rightarrow> box_error e
    | (Crash, w') \<Rightarrow> \<exists>i. rng_fail w i"
proof (cases "rng_fail w (rng_pos w)")
  case True
  then show ?thesis
    by (simp add: kb_seal_def ephemeral_x25519_keypair_def bindM_def random_fixed_def box_error_def)
next
  case False
  let ?my = "rng_draw w 32" and ?w1 = "w\<lparr>rng_pos := rng_pos w + 32\<rparr>"
  have my: "ephemeral_x25519_keypair cr w = (Done (?my, x25519_public cr ?my), ?w1)"
    using False by (simp add: ephemeral_x25519_keypair_def bindM_def random_fixed_def ret_def x25519_pub_from_seed_def)
  note prep = prep_encryption_cases [OF assms(2-4) length_rng_draw [of w] assms(5,6), where c = c and w = ?w1]
  obtain out w2 where p: "prep_base_key_for_encryption cr c ?my (x25519_public cr peer) (mlkem_ek_of_seed cr seed) ?w1 = (out, w2)"
    by fastforce
  show ?thesis
  proof (cases out)
    case (Done t)
    obtain k kem_ct x where t: "t = (k, kem_ct, x)" by (cases t)
    have *: "prep_base_key_for_decryption cr c peer x seed kem_ct = Inr k" "x = x25519_public cr ?my"
        "length k = 32" "length kem_ct = 1570"
      using prep p Done t by auto
    have lx: "length (x25519_public cr ?my) = 32" using assms(3) unfolding x25519_ok_def by simp
    show ?thesis
    proof (cases "ctx_add c ''data''")
      case (Inl e)
      then show ?thesis
        using my p Done t ctx_add_Inl [OF box_segments(3) Inl] by (simp add: kb_seal_def bindM_def fail_def box_error_def)
    next
      case (Inr dc)
      then show ?thesis
        using my p Done t * lx aead_encrypt_cases [OF assms(1) *(3), where m = data and c = dc and aad = aad and w = w2]
        by (cases "aead_encrypt cr data k dc aad w2"; cases "fst (aead_encrypt cr data k dc aad w2)")
           (auto simp: kb_seal_def bindM_def ret_def kb_open_def sealed_wf_def)
    qed
  next
    case (Fail e)
    then show ?thesis using my p prep by (simp add: kb_seal_def bindM_def)
  next
    case Crash
    then show ?thesis using my p prep by (auto simp: kb_seal_def bindM_def)
  qed
qed

section \<open>Properties\<close>

text \<open>C17. Opening inverts sealing: whatever the generator yields, a sealed message opens for the recipient
  under the same context and associated data to the data, survives its wire form and is 1631 bytes
  longer than the data.  Sealing fails only when the generator or the cipher fails, the context has
  no room for another segment, or the agreement was not contributory; it panics only when the
  generator fails inside the encapsulation.\<close>

theorem kyberbox_open_seal:
  assumes "aead_ok cr" and "hkdf_ok cr" and "x25519_ok cr" and "mlkem_ok cr" and "length x_seed = 32"
    and "length k_seed = 64"
  shows "case kb_seal cr c (x25519_pub_from_seed cr x_seed) (mlkem1024_pub_from_seed cr k_seed) aad data w of
      (Done (s, sk), w') \<Rightarrow> kb_open cr c x_seed k_seed aad s = Inr data
        \<and> sealed_from_wire (sealed_to_wire s) = Inr s \<and> length (sealed_to_wire s) = length data + 1631
    | (Fail e, w') \<Rightarrow> e \<in> {with_source random_failed (OtherSource ''SysError''),
        invalid_public_key ''x25519'' ''low_order'', invalid_context ''too_long'', aead_failed}
    | (Crash, w') \<Rightarrow> \<exists>i. rng_fail w i"
proof -
  have wire: "sealed_wf s \<Longrightarrow> sealed_from_wire (sealed_to_wire s) = Inr s
      \<and> length (sealed_to_wire s) = length (ks_ciphertext s) + 1602" for s
    using kbs.from_to by (auto simp: sealed_to_wire_def sealed_wf_def)
  show ?thesis
    using kb_seal_cases [OF assms, where c = c and aad = aad and data = data and w = w] wire
    by (auto simp: x25519_pub_from_seed_def mlkem1024_pub_from_seed_def box_error_def
        split: prod.splits outcome.splits)
qed


lemma ecdh_kdf_total:
  assumes "hkdf_ok cr" and "x25519_contributory cr (x25519_shared cr my peer)"
  obtains k where "ecdh_kdf cr my peer lab = Inr k"
proof -
  obtain k where "derive32_raw cr (x25519_shared cr my peer) None lab = Inr k"
    by (rule derive32_raw_total [OF assms(1)])
  then show thesis using assms(2) that by (simp add: ecdh_kdf_def)
qed

lemma prep_encryption_total:
  assumes "hkdf_ok cr" and "mlkem_ok cr" and "rng_live w" and "length seed = 64" and "length my = 32"
    and "x25519_contributory cr (x25519_shared cr my peer)"
    and "ctx_add c ''ecdh-key'' = Inr ec" and "ctx_add c ''base-key'' = Inr bc"
  obtains k ct where "prep_base_key_for_encryption cr c my peer (mlkem_ek_of_seed cr seed) w
      = (Done (k, ct, x25519_public cr my), w\<lparr>rng_pos := rng_pos w + 32\<rparr>)" and "length k = 32"
proof -
  obtain ek where ek: "ecdh_kdf cr my peer (ctx_label ec) = Inr ek"
    by (rule ecdh_kdf_total [OF assms(1,6)])
  obtain ct ss where enc: "mlkem_encaps cr (mlkem_ek_of_seed cr seed) (rng_draw w 32) = (ct, ss)" by fastforce
  obtain k where k: "derive_base_key cr ss ek (x25519_public cr my) peer
      (sha256_digest cr ct) (ctx_label bc) = Inr k" "length k = 32"
    unfolding derive_base_key_def by (rule derive32_raw_total [OF assms(1)])
  show thesis
    using that [of k "[1, 1] @ ct"] assms(3,5,7,8) ek enc k
    by (simp add: prep_base_key_for_encryption_def bindM_def ret_def random_fixed_live
        encapsulate_kem_run [OF assms(2,4)] Let_def)
qed

lemma kb_seal_total:
  assumes "hkdf_ok cr" and "mlkem_ok cr" and "aead_total cr" and "rng_live w" and "length seed = 64"
    and "x25519_contributory cr (x25519_shared cr (rng_draw w 32) peer)"
    and "ctx_add c ''ecdh-key'' = Inr ec" and "ctx_add c ''base-key'' = Inr bc" and "ctx_add c ''data'' = Inr dc"
    and "length data < 2 ^ 36" and "length (bind_aad dc aad) < 2 ^ 36"
  shows "\<exists>x. fst (kb_seal cr c peer (mlkem_ek_of_seed cr seed) aad data w) = Done x"
proof -
  let ?w1 = "w\<lparr>rng_pos := rng_pos w + 32\<rparr>" and ?w2 = "w\<lparr>rng_pos := rng_pos w + 32 + 32\<rparr>"
  have live: "rng_live ?w1" "rng_live ?w2" using assms(4) by simp_all
  obtain k ct where prep: "prep_base_key_for_encryption cr c (rng_draw w 32) peer (mlkem_ek_of_seed cr seed) ?w1
      = (Done (k, ct, x25519_public cr (rng_draw w 32)), ?w1\<lparr>rng_pos := rng_pos ?w1 + 32\<rparr>)" "length k = 32"
    by (rule prep_encryption_total [OF assms(1,2) live(1) assms(5) length_rng_draw assms(6-8)])
  have "gcmsiv_encrypt cr k (rng_draw ?w2 12) (bind_aad dc aad) data \<noteq> None"
    using assms(3,10,11) prep(2) unfolding aead_total_def by simp
  then obtain d where "gcmsiv_encrypt cr k (rng_draw ?w2 12) (bind_aad dc aad) data = Some d" by blast
  then show ?thesis
    using assms(4,9) prep live
    by (simp add: kb_seal_def ephemeral_x25519_keypair_def bindM_def ret_def random_fixed_live
        aead_encrypt_def encrypt_framed_def encrypt_raw_def)
qed

lemma box_ctx_example:
  "ctx_add ''app'' ''ecdh-key'' = Inr ''app/ecdh-key''" "ctx_add ''app'' ''base-key'' = Inr ''app/base-key''"
  "ctx_add ''app'' ''data'' = Inr ''app/data''"
  using box_segments by (simp_all add: ctx_add_iff MAX_CONTEXT_LEN_def)

lemma sample_contributory:
  assumes "length p = 32" and "p ! 0 + of_nat (rng_pos w) \<noteq> 0" and "rng_tape w = of_nat"
  shows "x25519_contributory sample_crates (x25519_shared sample_crates (rng_draw w 32) p)"
proof -
  have "map2 (+) (rng_draw w 32) p ! 0 = p ! 0 + of_nat (rng_pos w)"
    using assms(1,3) by (simp add: rng_draw_def)
  then have "map2 (+) (rng_draw w 32) p \<noteq> replicate 32 0" using assms(2) by (metis nth_replicate zero_less_numeral)
  then show ?thesis by (simp add: sample_crates_def)
qed

theorem kyberbox_open_seal_witness:
  "\<exists>s sk w'. kb_seal sample_crates ''app'' (replicate 32 5) (pad_to 1568 (replicate 64 6)) [1] [2, 3] (clean_world [])
      = (Done (s, sk), w')
    \<and> kb_open sample_crates ''app'' (replicate 32 5) (replicate 64 6) [1] s = Inr [2, 3]
    \<and> length (sealed_to_wire s) = 1633"
proof -
  let ?run = "kb_seal sample_crates ''app'' (replicate 32 5) (pad_to 1568 (replicate 64 6)) [1] [2, 3] (clean_world [])"
  have eq: "x25519_pub_from_seed sample_crates (replicate 32 5) = replicate 32 5"
      "mlkem1024_pub_from_seed sample_crates (replicate 64 6) = pad_to 1568 (replicate 64 6)"
    by (simp_all add: x25519_pub_from_seed_def mlkem1024_pub_from_seed_def sample_crates_def)
  have seal: "case ?run of (Done (s, sk), w') \<Rightarrow> kb_open sample_crates ''app'' (replicate 32 5) (replicate 64 6) [1] s = Inr [2, 3]
        \<and> sealed_from_wire (sealed_to_wire s) = Inr s \<and> length (sealed_to_wire s) = length [2, 3 :: u8] + 1631
    | (Fail e, w') \<Rightarrow> e \<in> {with_source random_failed (OtherSource ''SysError''),
        invalid_public_key ''x25519'' ''low_order'', invalid_context ''too_long'', aead_failed}
    | (Crash, w') \<Rightarrow> \<exists>i. rng_fail (clean_world []) i"
    using kyberbox_open_seal [OF sample_aead_ok sample_hkdf_ok sample_x25519_ok sample_mlkem_ok,
        of "replicate 32 5" "replicate 64 6"] unfolding eq by simp
  have con: "x25519_contributory sample_crates (x25519_shared sample_crates (rng_draw (clean_world []) 32) (replicate 32 5))"
    by (rule sample_contributory) (simp_all add: clean_world_def)
  have "\<exists>x. fst (kb_seal sample_crates ''app'' (replicate 32 5) (mlkem_ek_of_seed sample_crates (replicate 64 6)) [1] [2, 3]
      (clean_world [])) = Done x"
    by (rule kb_seal_total [OF sample_hkdf_ok sample_mlkem_ok sample_aead_total clean_world_live _ con box_ctx_example])
       (simp_all add: bind_aad_def ctx_label_def CTX_VERSION_def)
  then have "\<exists>x. fst ?run = Done x" using eq(2) by (simp add: mlkem1024_pub_from_seed_def)
  then show ?thesis using seal by (cases ?run) auto
qed

definition dual_keypair :: "crates \<Rightarrow> dual_enc_priv \<Rightarrow> dual_enc_pub \<Rightarrow> bool" where
  "dual_keypair cr sk pk \<longleftrightarrow> dual_priv_wf sk
     \<and> pk = \<lparr>dp_x25519 = x25519_pub_from_seed cr (ds_x25519 sk), dp_mlkem1024 = mlkem1024_pub_from_seed cr (ds_mlkem1024 sk)\<rparr>"

lemma dual_priv_ephemeral_keypair:
  "case dual_priv_ephemeral cr w of
      (Done (sk, pk), w') \<Rightarrow> dual_keypair cr sk pk \<and> rng_fail w' = rng_fail w
    | (Fail e, w') \<Rightarrow> box_error e
    | (Crash, w') \<Rightarrow> False"
  by (auto simp: dual_priv_ephemeral_def ephemeral_x25519_keypair_def ephemeral_kyber_mlkem1024_keypair_def
      bindM_def random_fixed_def ret_def dual_keypair_def dual_priv_wf_def box_error_def)

lemma dual_keypair_pub_wf:
  "x25519_ok cr \<Longrightarrow> mlkem_ok cr \<Longrightarrow> dual_keypair cr sk pk \<Longrightarrow> dual_pub_wf pk"
  using mlkem_okD(1) [of cr "ds_mlkem1024 sk"]
  by (auto simp: dual_keypair_def dual_pub_wf_def dual_priv_wf_def x25519_pub_from_seed_def
      mlkem1024_pub_from_seed_def x25519_ok_def)

lemma dual_seal_cases:
  assumes "aead_ok cr" and "hkdf_ok cr" and "x25519_ok cr" and "mlkem_ok cr" and "dual_keypair cr sk pk"
  shows "case dual_seal cr pk c aad data w of
      (Done (s, rk), w') \<Rightarrow> dual_open cr sk c aad s = Inr (data, reply_pub s) \<and> dual_keypair cr rk (reply_pub s)
        \<and> dual_sealed_wf s
    | (Fail e, w') \<Rightarrow> box_error e
    | (Crash, w') \<Rightarrow> \<exists>i. rng_fail w i"
proof (cases "dual_priv_ephemeral cr w")
  case (Pair out w1)
  note eph = dual_priv_ephemeral_keypair [of cr w]
  show ?thesis
  proof (cases out)
    case (Done kp)
    obtain rk rp where kp: "kp = (rk, rp)" by fastforce
    have rp: "dual_keypair cr rk rp" "rng_fail w1 = rng_fail w" using eph Pair Done kp by simp_all
    have keys: "dp_x25519 pk = x25519_public cr (ds_x25519 sk)" "dp_mlkem1024 pk = mlkem_ek_of_seed cr (ds_mlkem1024 sk)"
        "length (ds_x25519 sk) = 32" "length (ds_mlkem1024 sk) = 64"
      using assms(5) by (simp_all add: dual_keypair_def dual_priv_wf_def x25519_pub_from_seed_def mlkem1024_pub_from_seed_def)
    note box = kb_seal_cases [OF assms(1-4) keys(3,4), where c = c and aad = "dual_pub_to_wire rp @ aad"
        and data = data and w = w1]
    have "dual_pub_wf rp" by (rule dual_keypair_pub_wf [OF assms(3,4) rp(1)])
    then show ?thesis
      using Pair Done kp rp keys box
      by (auto simp: dual_seal_def dual_open_def dual_sealed_wf_def bindM_def ret_def split: prod.splits outcome.splits)
  qed (use Pair eph in \<open>simp_all add: dual_seal_def bindM_def\<close>)
qed

text \<open>C18. A message sealed to a dual key opens with its private key to the data and the reply key, and the
  private reply key that the sender keeps is the one of the reply key sent, so a reply sealed to it
  opens in turn; the message survives its wire form.  Failures are those of the box.\<close>

theorem dual_exchange_opens:
  assumes "aead_ok cr" and "hkdf_ok cr" and "x25519_ok cr" and "mlkem_ok cr" and "dual_keypair cr sk pk"
  shows "case dual_seal cr pk c aad data w of
      (Done (s, rk), w') \<Rightarrow> dual_open cr sk c aad s = Inr (data, reply_pub s) \<and> dual_keypair cr rk (reply_pub s)
        \<and> dual_sealed_from_wire (dual_sealed_to_wire s) = Inr s
    | (Fail e, w') \<Rightarrow> box_error e
    | (Crash, w') \<Rightarrow> \<exists>i. rng_fail w i"
  using dual_seal_cases [OF assms, where c = c and aad = aad and data = data and w = w] dsl.from_to
  by (auto split: prod.splits outcome.splits)

definition sample_sk :: dual_enc_priv where
  "sample_sk = \<lparr>ds_x25519 = replicate 32 5, ds_mlkem1024 = replicate 64 6\<rparr>"

definition sample_pk :: dual_enc_pub where
  "sample_pk = \<lparr>dp_x25519 = replicate 32 5, dp_mlkem1024 = mlkem_ek_of_seed sample_crates (replicate 64 6)\<rparr>"

lemma sample_keypair: "dual_keypair sample_crates sample_sk sample_pk"
  by (simp add: dual_keypair_def sample_sk_def sample_pk_def dual_priv_wf_def x25519_pub_from_seed_def
      mlkem1024_pub_from_seed_def) (simp add: sample_crates_def)

lemma dual_seal_returns:
  assumes "hkdf_ok cr" and "mlkem_ok cr" and "x25519_ok cr" and "aead_total cr" and "mlkem_ek_of_seed cr = mlkem_ek_of_seed sample_crates"
    and "x25519_contributory cr (x25519_shared cr (rng_draw ((clean_world [])\<lparr>rng_pos := 96\<rparr>) 32) (replicate 32 5))"
  shows "\<exists>s rk w'. dual_seal cr sample_pk ''app'' [1] [2, 3] (clean_world []) = (Done (s, rk), w')"
proof -
  let ?w = "(clean_world [])\<lparr>rng_pos := 96\<rparr>"
  obtain rk rp where eph: "dual_priv_ephemeral cr (clean_world []) = (Done (rk, rp), ?w)" and rp: "dual_keypair cr rk rp"
    using dual_priv_ephemeral_keypair [of cr "clean_world []"]
    by (auto simp: dual_priv_ephemeral_def ephemeral_x25519_keypair_def ephemeral_kyber_mlkem1024_keypair_def
        bindM_def ret_def random_fixed_live) (simp add: clean_world_def)
  have live: "rng_live ?w" by simp
  have "length (dual_pub_to_wire rp) = 1600"
    by (rule dep.wf_size [OF dual_keypair_pub_wf [OF assms(3,2) rp]])
  then have "\<exists>x. fst (kb_seal cr ''app'' (replicate 32 5) (mlkem_ek_of_seed cr (replicate 64 6)) (dual_pub_to_wire rp @ [1]) [2, 3] ?w) = Done x"
    by (intro kb_seal_total [OF assms(1,2,4) live _ assms(6) box_ctx_example])
       (simp_all add: bind_aad_def ctx_label_def CTX_VERSION_def)
  then obtain b w' where "kb_seal cr ''app'' (replicate 32 5) (mlkem_ek_of_seed cr (replicate 64 6)) (dual_pub_to_wire rp @ [1]) [2, 3] ?w
      = (Done b, w')"
    by (metis prod.collapse)
  then show ?thesis
    using eph assms(5) by (cases b) (simp add: dual_seal_def bindM_def ret_def sample_pk_def)
qed

lemma sample_96:
  "x25519_contributory sample_crates (x25519_shared sample_crates (rng_draw ((clean_world [])\<lparr>rng_pos := 96\<rparr>) 32) (replicate 32 5))"
  by (rule sample_contributory) (simp_all add: clean_world_def)

theorem dual_exchange_opens_witness:
  "\<exists>s rk w'. dual_seal sample_crates sample_pk ''app'' [1] [2, 3] (clean_world []) = (Done (s, rk), w')
    \<and> dual_open sample_crates sample_sk ''app'' [1] s = Inr ([2, 3], reply_pub s)
    \<and> dual_keypair sample_crates rk (reply_pub s)"
proof -
  obtain s rk w' where run: "dual_seal sample_crates sample_pk ''app'' [1] [2, 3] (clean_world []) = (Done (s, rk), w')"
    using dual_seal_returns [OF sample_hkdf_ok sample_mlkem_ok sample_x25519_ok sample_aead_total refl sample_96] by blast
  show ?thesis
    using run dual_exchange_opens [OF sample_aead_ok sample_hkdf_ok sample_x25519_ok sample_mlkem_ok sample_keypair,
        where c = "''app''" and aad = "[1]" and data = "[2, 3]" and w = "clean_world []"]
    by auto
qed

section \<open>What a dual message is bound to\<close>

lemma ctx_extend_snoc: "ctx_extend c ss = Inr d \<Longrightarrow> ctx_add d s = Inr d' \<Longrightarrow> ctx_extend c (ss @ [s]) = Inr d'"
  by (induction ss arbitrary: c) (auto simp: rbind_Inr_iff)

lemma built_ctx_add:
  assumes "built_ctx c" and "ctx_add c s = Inr d"
  shows "built_ctx d"
proof -
  obtain segs where "ctx_path segs = Inr c" using assms(1) by (auto simp: built_ctx_def)
  then have "ctx_path (segs @ [s]) = Inr d"
    by (cases segs) (auto simp: rbind_Inr_iff intro: ctx_extend_snoc [OF _ assms(2)])
  then show ?thesis unfolding built_ctx_def by blast
qed

text \<open>The key that a recipient derives for a message.\<close>

definition message_key :: "crates \<Rightarrow> string \<Rightarrow> dual_enc_priv \<Rightarrow> dual_sealed \<Rightarrow> bytes result" where
  "message_key cr c sk s =
     prep_base_key_for_decryption cr c (ds_x25519 sk) (ks_x_pub (inner_box s)) (ds_mlkem1024 sk) (ks_kem_ct (inner_box s))"

lemma message_key_input:
  assumes "message_key cr c sk s = Inr k"
  obtains ikm salt where "derive32_raw cr ikm (Some salt) (combiner_info (ctx_label (c @ ''/base-key'')) (ks_x_pub (inner_box s))
      (x25519_public cr (ds_x25519 sk)) (sha256_digest cr (drop 2 (ks_kem_ct (inner_box s))))) = Inr k"
  using assms
  by (auto simp: message_key_def prep_base_key_for_decryption_def derive_base_key_def decapsulate_kem_def ctx_add_iff
      rbind_Inr_iff Let_def split: if_splits)

lemma dual_open_query:
  assumes "dual_open cr sk c aad s = Inr (p, rp)" and "message_key cr c sk s = Inr k"
  shows "rp = reply_pub s" and "ctx_add c ''data'' = Inr (c @ ''/data'')"
    and "gcmsiv_decrypt cr k (take 12 (drop 1 (ks_ciphertext (inner_box s))))
      (bind_aad (c @ ''/data'') (dual_pub_to_wire (reply_pub s) @ aad)) (drop 13 (ks_ciphertext (inner_box s))) = Some p"
  using assms
  by (auto simp: dual_open_def message_key_def kb_open_def aead_decrypt_def decrypt_raw_def ctx_add_iff rbind_Inr_iff
      ok_or_Inr_iff Let_def split: if_splits)

lemma combiner_info_inject:
  assumes "length x = length x'" and "length y = length y'" and "length h = length h'"
  shows "combiner_info l x y h = combiner_info l' x' y' h' \<longleftrightarrow> l = l' \<and> x = x' \<and> y = y' \<and> h = h'"
  using assms by (auto simp: combiner_info_def)

text \<open>C19. A dual message opens only as it was sealed.  Let a message be sealed, and let a recipient open, under the same message
  key, a message with the same ciphertext but whatever context, associated data, reply key, agreement value and encapsulation.
  If the message key is derived from one piece of derivation information only, and the ciphertext is authentic for one piece of
  associated data only, then context, associated data, reply key, the sender's agreement value, the recipient's public agreement value
  and the digest of the encapsulation are those of the sealed message, and the plaintext is the data.\<close>

theorem dual_message_opens_only_as_sealed:
  assumes "aead_ok cr" and "hkdf_ok cr" and "x25519_ok cr" and "mlkem_ok cr" and "sha256_ok cr" and "dual_keypair cr sk pk"
    and "built_ctx c" and "built_ctx c'" and "dual_sealed_wf s'" and "length (ds_x25519 sk') = 32"
    and "dual_seal cr pk c aad data w = (Done (s, rk), w1)" and "message_key cr c sk s = Inr k"
    and "dual_open cr sk' c' aad' s' = Inr (p, rp)" and "message_key cr c' sk' s' = Inr k"
    and "ks_ciphertext (inner_box s') = ks_ciphertext (inner_box s)"
    and "\<And>ikm salt info ikm' salt' info'. derive32_raw cr ikm salt info = Inr k \<Longrightarrow> derive32_raw cr ikm' salt' info' = Inr k
        \<Longrightarrow> info = info'"
    and "\<And>a a' m m'. gcmsiv_decrypt cr k (take 12 (drop 1 (ks_ciphertext (inner_box s)))) a (drop 13 (ks_ciphertext (inner_box s))) = Some m
        \<Longrightarrow> gcmsiv_decrypt cr k (take 12 (drop 1 (ks_ciphertext (inner_box s)))) a' (drop 13 (ks_ciphertext (inner_box s))) = Some m'
        \<Longrightarrow> a = a'"
  shows "c' = c \<and> aad' = aad \<and> rp = reply_pub s \<and> p = data
    \<and> ks_x_pub (inner_box s') = ks_x_pub (inner_box s) \<and> x25519_public cr (ds_x25519 sk') = dp_x25519 pk
    \<and> sha256_digest cr (drop 2 (ks_kem_ct (inner_box s'))) = sha256_digest cr (drop 2 (ks_kem_ct (inner_box s)))"
proof -
  have own: "dual_open cr sk c aad s = Inr (data, reply_pub s)" and wf: "dual_sealed_wf s"
    using dual_seal_cases [OF assms(1-4,6), where c = c and aad = aad and data = data and w = w] assms(11) by simp_all
  have pk: "x25519_public cr (ds_x25519 sk) = dp_x25519 pk" "length (ds_x25519 sk) = 32"
    using assms(6) by (auto simp: dual_keypair_def dual_priv_wf_def x25519_pub_from_seed_def)
  have len: "length (x25519_public cr x) = 32" if "length x = 32" for x
    using assms(3) that by (auto simp: x25519_ok_def)
  note q = dual_open_query [OF own assms(12)] and q' = dual_open_query [OF assms(13,14)]
  have bound: "bind_aad (c @ ''/data'') (dual_pub_to_wire (reply_pub s) @ aad)
      = bind_aad (c' @ ''/data'') (dual_pub_to_wire (reply_pub s') @ aad')"
    by (rule assms(17) [OF q(3) q'(3) [unfolded assms(15)]])
  then have same: "c' = c" "aad' = aad" "reply_pub s' = reply_pub s"
    using ctx.bind_inject [OF built_ctx_add [OF assms(7) q(2)] built_ctx_add [OF assms(8) q'(2)]] wf assms(9)
      dep.wf_size [of "reply_pub s"] dep.wf_size [of "reply_pub s'"] dep.to_wire_inject [of "reply_pub s" "reply_pub s'"]
    by (auto simp: dual_sealed_wf_def)
  have "p = data" using q(3) q'(3) same by (simp add: assms(15))
  have "combiner_info (ctx_label (c @ ''/base-key'')) (ks_x_pub (inner_box s))
        (x25519_public cr (ds_x25519 sk)) (sha256_digest cr (drop 2 (ks_kem_ct (inner_box s))))
      = combiner_info (ctx_label (c' @ ''/base-key'')) (ks_x_pub (inner_box s'))
        (x25519_public cr (ds_x25519 sk')) (sha256_digest cr (drop 2 (ks_kem_ct (inner_box s'))))"
    using message_key_input [OF assms(12)] message_key_input [OF assms(14)] assms(16) by metis
  then have "ks_x_pub (inner_box s') = ks_x_pub (inner_box s)" "x25519_public cr (ds_x25519 sk') = x25519_public cr (ds_x25519 sk)"
      "sha256_digest cr (drop 2 (ks_kem_ct (inner_box s'))) = sha256_digest cr (drop 2 (ks_kem_ct (inner_box s)))"
    using wf assms(5,9,10) pk(2) len by (auto simp: combiner_info_inject dual_sealed_wf_def sealed_wf_def sha256_ok_def)
  then show ?thesis using same \<open>p = data\<close> q'(1) pk(1) by simp
qed

text \<open>An instance in which one piece of derivation information and one piece of associated data stand out.\<close>

definition bound_tag :: "bytes \<Rightarrow> bytes \<Rightarrow> bytes" where
  "bound_tag a0 a = replicate 16 (if a = a0 then 1 else 0)"

definition bound_crates :: "bytes \<Rightarrow> bytes \<Rightarrow> crates" where
  "bound_crates info0 a0 = sample_crates\<lparr>
     gcmsiv_encrypt := (\<lambda>k n a m. Some (m @ bound_tag a0 a)),
     gcmsiv_decrypt := (\<lambda>k n a c. if 16 \<le> length c \<and> drop (length c - 16) c = bound_tag a0 a then Some (take (length c - 16) c) else None),
     hkdf_expand_prk := (\<lambda>prk info n. if n \<le> 255 * 32 then Some (replicate n (if info = info0 then 7 else 0)) else None)\<rparr>"

lemma bound_same [simp]:
  "x25519_public (bound_crates i a) = x25519_public sample_crates" "x25519_shared (bound_crates i a) = x25519_shared sample_crates"
  "x25519_contributory (bound_crates i a) = x25519_contributory sample_crates" "sha256_digest (bound_crates i a) = sha256_digest sample_crates"
  "mlkem_ek_of_seed (bound_crates i a) = mlkem_ek_of_seed sample_crates" "mlkem_ek_import (bound_crates i a) = mlkem_ek_import sample_crates"
  "mlkem_encaps (bound_crates i a) = mlkem_encaps sample_crates" "mlkem_decaps (bound_crates i a) = mlkem_decaps sample_crates"
  "hkdf_extract_prk (bound_crates i a) = hkdf_extract_prk sample_crates"
  by (simp_all add: bound_crates_def)

lemma bound_laws:
  "aead_ok (bound_crates i a)" "aead_total (bound_crates i a)" "hkdf_ok (bound_crates i a)" "x25519_ok (bound_crates i a)"
  "mlkem_ok (bound_crates i a)" "sha256_ok (bound_crates i a)"
proof -
  show "x25519_ok (bound_crates i a)" "mlkem_ok (bound_crates i a)" "sha256_ok (bound_crates i a)"
    using sample_x25519_ok sample_mlkem_ok sample_sha256_ok by (simp_all add: x25519_ok_def mlkem_ok_def sha256_ok_def)
  show "hkdf_ok (bound_crates i a)"
    using sample_hkdf_ok by (simp add: hkdf_ok_def) (simp add: bound_crates_def)
  show "aead_ok (bound_crates i a)" "aead_total (bound_crates i a)"
    by (auto simp: aead_ok_def aead_total_def bound_crates_def bound_tag_def)
qed

lemma bound_key:
  assumes "derive32_raw (bound_crates i a) ikm salt info = Inr (replicate 32 7)"
  shows "info = i"
  using assms
  by (auto simp: derive32_raw_def derive_bytes_raw_def bound_crates_def rbind_Inr_iff sec_fixed_from_slice_def
      split: if_splits option.splits)

lemma bound_open:
  assumes "gcmsiv_decrypt (bound_crates i a0) k n a0 c = Some m" and "gcmsiv_decrypt (bound_crates i a0) k n a c = Some m'"
  shows "a = a0"
  using assms by (auto simp: bound_crates_def bound_tag_def split: if_splits)

text \<open>What is drawn for a sealed message does not depend on the cipher.\<close>

lemma dual_seal_values:
  assumes "rng_live w" and "dual_seal cr pk c aad data w = (Done (s, rk), w1)" and "mlkem_ek_import cr (dp_mlkem1024 pk) = Some ek"
  shows "reply_pub s = \<lparr>dp_x25519 = x25519_pub_from_seed cr (rng_draw w 32),
      dp_mlkem1024 = mlkem1024_pub_from_seed cr (rng_draw (w\<lparr>rng_pos := rng_pos w + 32\<rparr>) 64)\<rparr>"
    and "ks_x_pub (inner_box s) = x25519_public cr (rng_draw (w\<lparr>rng_pos := 96 + rng_pos w\<rparr>) 32)"
    and "drop 2 (ks_kem_ct (inner_box s)) = fst (mlkem_encaps cr ek (rng_draw (w\<lparr>rng_pos := 128 + rng_pos w\<rparr>) 32))"
  using assms
  by (auto simp: dual_seal_def dual_priv_ephemeral_def ephemeral_x25519_keypair_def ephemeral_kyber_mlkem1024_keypair_def
      kb_seal_def prep_base_key_for_encryption_def encapsulate_kem_def mlkem_encapsulate_def done_iffs random_fixed_live
      Let_def split_def)

definition bound_reply :: dual_enc_pub where
  "bound_reply = \<lparr>dp_x25519 = rng_draw (clean_world []) 32, dp_mlkem1024 = pad_to 1568 (rng_draw ((clean_world [])\<lparr>rng_pos := 32\<rparr>) 64)\<rparr>"

definition bound_info :: bytes where
  "bound_info = combiner_info (ctx_label ''app/base-key'') (rng_draw ((clean_world [])\<lparr>rng_pos := 96\<rparr>) 32) (replicate 32 5)
     (pad_to 32 (pad_to 1568 (rng_draw ((clean_world [])\<lparr>rng_pos := 128\<rparr>) 32)))"

definition bound_sample :: crates where
  "bound_sample = bound_crates bound_info (bind_aad ''app/data'' (dual_pub_to_wire bound_reply @ [1]))"

lemma bound_seal:
  obtains s rk w1 where "dual_seal bound_sample sample_pk ''app'' [1] [2, 3] (clean_world []) = (Done (s, rk), w1)"
    and "dual_open bound_sample sample_sk ''app'' [1] s = Inr ([2, 3], bound_reply)" and "dual_sealed_wf s" and "reply_pub s = bound_reply"
    and "message_key bound_sample ''app'' sample_sk s = Inr (replicate 32 7)"
proof -
  note laws = bound_laws [of bound_info "bind_aad ''app/data'' (dual_pub_to_wire bound_reply @ [1])", folded bound_sample_def]
  have [simp]: "x25519_public bound_sample = (\<lambda>x. x)" "sha256_digest bound_sample = pad_to 32" "mlkem_ek_of_seed bound_sample = pad_to 1568"
      "mlkem_encaps bound_sample = (\<lambda>ek r. (pad_to 1568 r, pad_to 32 r))"
    by (simp_all add: bound_sample_def) (simp_all add: sample_crates_def)
  have key: "dual_keypair bound_sample sample_sk sample_pk"
    using sample_keypair by (simp add: dual_keypair_def x25519_pub_from_seed_def mlkem1024_pub_from_seed_def) (simp add: sample_crates_def)
  obtain s rk w1 where run: "dual_seal bound_sample sample_pk ''app'' [1] [2, 3] (clean_world []) = (Done (s, rk), w1)"
    using dual_seal_returns [OF laws(3,5,4,2)] sample_96 by (auto simp: bound_sample_def)
  have ek: "mlkem_ek_import bound_sample (dp_mlkem1024 sample_pk) = Some (dp_mlkem1024 sample_pk)"
    by (simp add: bound_sample_def sample_pk_def) (simp add: sample_crates_def)
  have v: "reply_pub s = bound_reply" "ks_x_pub (inner_box s) = rng_draw ((clean_world [])\<lparr>rng_pos := 96\<rparr>) 32"
      "drop 2 (ks_kem_ct (inner_box s)) = pad_to 1568 (rng_draw ((clean_world [])\<lparr>rng_pos := 128\<rparr>) 32)"
    using dual_seal_values [OF clean_world_live run ek]
    by (simp_all add: bound_reply_def x25519_pub_from_seed_def mlkem1024_pub_from_seed_def) (simp_all add: clean_world_def)
  have own: "dual_open bound_sample sample_sk ''app'' [1] s = Inr ([2, 3], bound_reply)" "dual_sealed_wf s"
    using dual_seal_cases [OF laws(1,3-5) key, where c = "''app''" and aad = "[1]" and data = "[2, 3]" and w = "clean_world []"] run v(1)
    by simp_all
  then obtain k where k: "message_key bound_sample ''app'' sample_sk s = Inr k"
    by (auto simp: dual_open_def kb_open_def message_key_def rbind_Inr_iff Let_def)
  obtain ikm salt where "derive32_raw bound_sample ikm (Some salt) bound_info = Inr k"
    by (rule message_key_input [OF k]) (simp add: v sample_sk_def bound_info_def)
  then have "k = replicate 32 7"
    by (auto simp: bound_sample_def bound_crates_def derive32_raw_def derive_bytes_raw_def rbind_Inr_iff ok_or_Inr_iff split: if_splits)
  then show thesis using that run own v(1) k by blast
qed

theorem dual_message_opens_only_as_sealed_witness:
  "\<exists>s rk w1. dual_seal bound_sample sample_pk ''app'' [1] [2, 3] (clean_world []) = (Done (s, rk), w1)
    \<and> dual_open bound_sample sample_sk ''app'' [1] s = Inr ([2, 3], reply_pub s)
    \<and> \<not> is_ok (dual_open bound_sample sample_sk ''app'' [1] (s\<lparr>reply_pub := sample_pk\<rparr>))"
proof -
  let ?a = "bind_aad ''app/data'' (dual_pub_to_wire bound_reply @ [1])" and ?k = "replicate 32 7 :: bytes"
  note laws = bound_laws [of bound_info ?a, folded bound_sample_def]
  obtain s rk w1 where run: "dual_seal bound_sample sample_pk ''app'' [1] [2, 3] (clean_world []) = (Done (s, rk), w1)"
      and own: "dual_open bound_sample sample_sk ''app'' [1] s = Inr ([2, 3], bound_reply)" and wf: "dual_sealed_wf s"
      and rp: "reply_pub s = bound_reply" and k: "message_key bound_sample ''app'' sample_sk s = Inr ?k"
    by (rule bound_seal)
  have key: "dual_keypair bound_sample sample_sk sample_pk"
    using sample_keypair by (simp add: dual_keypair_def x25519_pub_from_seed_def mlkem1024_pub_from_seed_def bound_sample_def)
  let ?s' = "s\<lparr>reply_pub := sample_pk\<rparr>"
  have wf': "dual_sealed_wf ?s'"
    using wf dual_keypair_pub_wf [OF laws(4,5) key] by (simp add: dual_sealed_wf_def)
  have k': "message_key bound_sample ''app'' sample_sk ?s' = Inr ?k" using k by (simp add: message_key_def)
  have "dp_x25519 bound_reply ! 0 \<noteq> dp_x25519 sample_pk ! 0"
    by (simp add: bound_reply_def sample_pk_def rng_draw_def clean_world_def)
  then have ne: "bound_reply \<noteq> sample_pk" by metis
  let ?dec = "\<lambda>a. gcmsiv_decrypt bound_sample ?k (take 12 (drop 1 (ks_ciphertext (inner_box s)))) a (drop 13 (ks_ciphertext (inner_box s)))"
  have "?dec ?a = Some [2, 3]" using dual_open_query(3) [OF own k] by (simp add: rp)
  then have aead: "a = a'" if "?dec a = Some m" "?dec a' = Some m'" for a a' m m'
    using that bound_open [of bound_info ?a, folded bound_sample_def] by metis
  have kdf: "info = info'" if "derive32_raw bound_sample ikm salt info = Inr ?k" "derive32_raw bound_sample ikm' salt' info' = Inr ?k"
    for ikm salt info ikm' salt' info'
    using that bound_key [of bound_info ?a, folded bound_sample_def] by metis
  have l: "length (ds_x25519 sample_sk) = 32" by (simp add: sample_sk_def)
  have "dual_open bound_sample sample_sk ''app'' [1] ?s' \<noteq> Inr (p, rp')" for p rp'
  proof
    assume opened: "dual_open bound_sample sample_sk ''app'' [1] ?s' = Inr (p, rp')"
    have same: "ks_ciphertext (inner_box ?s') = ks_ciphertext (inner_box s)" by simp
    have "rp' = reply_pub s"
      by (rule dual_message_opens_only_as_sealed [OF laws(1,3-6) key app_built app_built wf' l run k opened k' same,
            THEN conjunct2, THEN conjunct2, THEN conjunct1]) (erule (1) kdf, erule (1) aead)
    then show False using dual_open_query(1) [OF opened k'] rp ne by simp
  qed
  then show ?thesis using run own rp by (auto simp: is_ok_iff)
qed

text \<open>C36. A message is refused before any data is decrypted when the agreement with its X25519 value is
  not contributory, and otherwise when its KEM part has a wrong version, identifier or size, or the
  private seed a wrong size, each with its own error.\<close>

theorem kyberbox_rejects_bad_keys:
  assumes "length priv_x = 32" and "ctx_add c ''ecdh-key'' = Inr ec" and "hkdf_ok cr"
  shows "(\<not> x25519_contributory cr (x25519_shared cr priv_x (ks_x_pub s))
        \<longrightarrow> kb_open cr c priv_x k_seed aad s = Inl (invalid_public_key ''x25519'' ''low_order''))
    \<and> (x25519_contributory cr (x25519_shared cr priv_x (ks_x_pub s))
        \<and> (length (ks_kem_ct s) \<noteq> 1570 \<or> take 2 (ks_kem_ct s) \<noteq> [1, 1]) \<and> length k_seed = 64
        \<longrightarrow> kb_open cr c priv_x k_seed aad s = Inl kem_invalid_ciphertext)
    \<and> (x25519_contributory cr (x25519_shared cr priv_x (ks_x_pub s))
        \<and> length (ks_kem_ct s) = 1570 \<and> take 2 (ks_kem_ct s) = [1, 1] \<and> length k_seed \<noteq> 64
        \<longrightarrow> kb_open cr c priv_x k_seed aad s = Inl (invalid_len 64 (length k_seed)))"
proof -
  have k: "x25519_contributory cr (x25519_shared cr priv_x (ks_x_pub s)) \<Longrightarrow>
      \<exists>k. ecdh_kdf cr priv_x (ks_x_pub s) (ctx_label ec) = Inr k"
    by (metis ecdh_kdf_total [OF assms(3)])
  have hd: "take 2 b = [1, 1] \<longleftrightarrow> 2 \<le> length b \<and> b ! 0 = 1 \<and> b ! 1 = 1" for b :: bytes
    by (cases b rule: remdups_adj.cases) auto
  have dec: "(length (ks_kem_ct s) \<noteq> 1570 \<or> take 2 (ks_kem_ct s) \<noteq> [1, 1]) \<and> length k_seed = 64
      \<Longrightarrow> decapsulate_kem cr k_seed (ks_kem_ct s) = Inl kem_invalid_ciphertext"
    by (auto simp: decapsulate_kem_def hd KYBER_BOX_VERSION_def KYBER_KEM_ID_def Let_def)
  have len: "length (ks_kem_ct s) = 1570 \<and> take 2 (ks_kem_ct s) = [1, 1] \<and> length k_seed \<noteq> 64
      \<Longrightarrow> decapsulate_kem cr k_seed (ks_kem_ct s) = Inl (invalid_len 64 (length k_seed))"
    by (auto simp: decapsulate_kem_def hd KYBER_BOX_VERSION_def KYBER_KEM_ID_def Let_def)
  show ?thesis
    using assms(1,2) k dec len
    by (cases "x25519_contributory cr (x25519_shared cr priv_x (ks_x_pub s))")
       (auto simp: kb_open_def prep_base_key_for_decryption_def Let_def, simp add: ecdh_kdf_def)
qed


theorem kyberbox_rejects_bad_keys_witness:
  "kb_open sample_crates ''app'' (replicate 32 5) [] [] \<lparr>ks_x_pub = replicate 32 251, ks_kem_ct = [], ks_ciphertext = []\<rparr>
     = Inl (invalid_public_key ''x25519'' ''low_order'')"
proof -
  have "\<not> x25519_contributory sample_crates (x25519_shared sample_crates (replicate 32 5) (replicate 32 251))"
    by (simp add: sample_crates_def zip_replicate)
  then show ?thesis
    using kyberbox_rejects_bad_keys [OF _ box_ctx_example(1) sample_hkdf_ok, of "replicate 32 5"
        "\<lparr>ks_x_pub = replicate 32 251, ks_kem_ct = [], ks_ciphertext = []\<rparr>" "[]" "[]"]
    by simp
qed

end
