(* ===== verification/Hpke.thy ===== *)
theory Hpke
  imports KyberBox
begin

unbundle bit_operations_syntax

text \<open>
  The HPKE-style layer, \<^verbatim>\<open>src/src/hpke\<close>: encapsulation to a key pair (\<^verbatim>\<open>kem.rs\<close>), the key schedule
  (\<^verbatim>\<open>schedule.rs\<close>), one-shot sealing (\<^verbatim>\<open>seal.rs\<close>, \<^verbatim>\<open>aead.rs\<close>), secret export (\<^verbatim>\<open>export.rs\<close>, \<^verbatim>\<open>setup.rs\<close>),
  key-pair derivation (\<^verbatim>\<open>derive.rs\<close>), the stateful sender and receiver sessions (\<^verbatim>\<open>session.rs\<close>) and the wire
  types (\<^verbatim>\<open>types.rs\<close>).  The theory shows that opening inverts sealing, that both sides export the same
  secret, that a session never repeats a nonce and fails closed on the first bad message, and that
  sender and receiver stay in step.
\<close>

section \<open>Types\<close>

definition X25519_PRIV_LEN :: nat where
  "X25519_PRIV_LEN = 32"

definition MLKEM1024_SEED_LEN :: nat where
  "MLKEM1024_SEED_LEN = 64"

record hpke_enc =
  he_x_pub :: bytes
  he_kem_ct :: bytes

record hpke_context =
  hc_key :: bytes
  hc_base_nonce :: bytes
  hc_exporter_secret :: bytes

record hpke_sealed =
  hs_enc :: hpke_enc
  hs_ciphertext :: bytes

record hpke_public_key =
  hp_x_pub :: bytes
  hp_k_pub :: bytes

record hpke_private_key =
  hk_x_priv :: bytes
  hk_k_priv :: bytes

definition enc_to_wire :: "hpke_enc \<Rightarrow> bytes" where
  "enc_to_wire e = he_x_pub e @ he_kem_ct e"

definition enc_from_wire :: "bytes \<Rightarrow> hpke_enc result" where
  "enc_from_wire bs =
     (let expected = X25519_PUB_LEN + KEM_CT_LEN in
      if length bs \<noteq> expected then Inl (invalid_len expected (length bs))
      else rbind (pub_fixed_from_slice 32 (take X25519_PUB_LEN bs)) (\<lambda>x.
        Inr \<lparr>he_x_pub = x, he_kem_ct = drop X25519_PUB_LEN bs\<rparr>))"

definition hpke_sealed_from_parts :: "bytes \<Rightarrow> bytes \<Rightarrow> hpke_sealed result" where
  "hpke_sealed_from_parts enc ciphertext =
     rbind (enc_from_wire enc) (\<lambda>e. Inr \<lparr>hs_enc = e, hs_ciphertext = ciphertext\<rparr>)"

definition hpke_sealed_to_wire :: "hpke_sealed \<Rightarrow> bytes" where
  "hpke_sealed_to_wire s =
     (let enc = enc_to_wire (hs_enc s) in be_bytes 4 (length enc) @ enc @ hs_ciphertext s)"

definition hpke_sealed_from_wire :: "bytes \<Rightarrow> hpke_sealed result" where
  "hpke_sealed_from_wire bs =
     (if length bs < 4 then Inl (invalid_len 4 (length bs))
      else
        let enc_len = be_nat (take 4 bs); rest = drop 4 bs in
        rbind (ok_or (invalid_len enc_len (length rest)) (slice_get rest 0 enc_len)) (\<lambda>enc_bytes.
        rbind (enc_from_wire enc_bytes) (\<lambda>enc.
        Inr \<lparr>hs_enc = enc, hs_ciphertext = drop enc_len rest\<rparr>)))"

definition hpke_pk_to_wire :: "hpke_public_key \<Rightarrow> bytes" where
  "hpke_pk_to_wire k = hp_x_pub k @ hp_k_pub k"

definition hpke_pk_from_wire :: "bytes \<Rightarrow> hpke_public_key result" where
  "hpke_pk_from_wire bs =
     (let expected = X25519_PUB_LEN + MLKEM1024_PUB_LEN in
      if length bs \<noteq> expected then Inl (invalid_len expected (length bs))
      else rbind (pub_fixed_from_slice 32 (take X25519_PUB_LEN bs)) (\<lambda>x.
        Inr \<lparr>hp_x_pub = x, hp_k_pub = drop X25519_PUB_LEN bs\<rparr>))"

definition hpke_sk_to_wire :: "hpke_private_key \<Rightarrow> bytes" where
  "hpke_sk_to_wire k = contents (fst (secret_bytes_new (to_vec (hk_x_priv k @ hk_k_priv k))))"

definition hpke_sk_from_wire :: "bytes \<Rightarrow> hpke_private_key result" where
  "hpke_sk_from_wire bs =
     (let expected = X25519_PRIV_LEN + MLKEM1024_SEED_LEN in
      if length bs \<noteq> expected then Inl (invalid_len expected (length bs))
      else rbind (sec_fixed_from_slice 32 (take X25519_PRIV_LEN bs)) (\<lambda>x.
        Inr \<lparr>hk_x_priv = x, hk_k_priv = contents (fst (secret_bytes_from_slice (drop X25519_PRIV_LEN bs)))\<rparr>))"

section \<open>Encapsulation and key schedule\<close>

definition kem_encap :: "crates \<Rightarrow> string \<Rightarrow> bytes \<Rightarrow> bytes \<Rightarrow> ('p world, bytes \<times> hpke_enc) leff" where
  "kem_encap cr c recipient_x_pub recipient_k_pub =
     bindM (random_fixed 32) (\<lambda>eph_x_priv.
     bindM (liftR (ctx_add c ''hpke'')) (\<lambda>c1.
     bindM (liftR (ctx_add c1 ''kem'')) (\<lambda>kem_ctx.
     bindM (prep_base_key_for_encryption cr kem_ctx eph_x_priv recipient_x_pub recipient_k_pub)
       (\<lambda>(shared_secret, kem_ct, eph_x_pub).
     ret (shared_secret, \<lparr>he_x_pub = eph_x_pub, he_kem_ct = kem_ct\<rparr>)))))"

definition kem_decap :: "crates \<Rightarrow> string \<Rightarrow> bytes \<Rightarrow> bytes \<Rightarrow> hpke_enc \<Rightarrow> bytes result" where
  "kem_decap cr c recipient_x_priv recipient_k_priv enc =
     rbind (ctx_add c ''hpke'') (\<lambda>c1.
     rbind (ctx_add c1 ''kem'') (\<lambda>kem_ctx.
     prep_base_key_for_decryption cr kem_ctx recipient_x_priv (he_x_pub enc) recipient_k_priv (he_kem_ct enc)))"

definition key_schedule :: "crates \<Rightarrow> string \<Rightarrow> bytes \<Rightarrow> bytes \<Rightarrow> hpke_context result" where
  "key_schedule cr c ikm info =
     rbind (ctx_add c ''hpke'') (\<lambda>c1.
     rbind (ctx_add c1 ''schedule'') (\<lambda>sched.
     rbind (ctx_add sched ''key'') (\<lambda>ck.
     rbind (derive32_raw cr ikm None (bind_aad ck info)) (\<lambda>key.
     rbind (ctx_add sched ''base-nonce'') (\<lambda>cn.
     rbind (derive32_raw cr ikm None (bind_aad cn info)) (\<lambda>nonce_material.
     rbind (ctx_add sched ''exporter-secret'') (\<lambda>ce.
     rbind (derive32_raw cr ikm None (bind_aad ce info)) (\<lambda>exporter_secret.
     rbind (sec_fixed_from_slice 12 (take 12 nonce_material)) (\<lambda>base_nonce.
     Inr \<lparr>hc_key = key, hc_base_nonce = base_nonce, hc_exporter_secret = exporter_secret\<rparr>)))))))))"

definition export_secret :: "crates \<Rightarrow> string \<Rightarrow> hpke_context \<Rightarrow> bytes \<Rightarrow> nat \<Rightarrow> bytes result" where
  "export_secret cr c h exporter_context len =
     rbind (ctx_add c ''hpke'') (\<lambda>c1.
     rbind (ctx_add c1 ''export'') (\<lambda>ce.
     derive_bytes_raw cr (hc_exporter_secret h) None (bind_aad ce exporter_context) len))"

section \<open>One-shot operations\<close>

definition hpke_seal :: "crates \<Rightarrow> hpke_context \<Rightarrow> bytes \<Rightarrow> bytes \<Rightarrow> bytes result" where
  "hpke_seal cr h aad plaintext = encrypt_raw cr plaintext (hc_key h) (hc_base_nonce h) aad"

definition hpke_open :: "crates \<Rightarrow> hpke_context \<Rightarrow> bytes \<Rightarrow> bytes \<Rightarrow> bytes result" where
  "hpke_open cr h aad ciphertext = decrypt_raw cr ciphertext (hc_key h) (hc_base_nonce h) aad"

definition seal_base :: "crates \<Rightarrow> string \<Rightarrow> hpke_public_key \<Rightarrow> bytes \<Rightarrow> bytes \<Rightarrow> bytes \<Rightarrow> ('p world, hpke_sealed) leff" where
  "seal_base cr c pk info aad plaintext =
     bindM (kem_encap cr c (hp_x_pub pk) (hp_k_pub pk)) (\<lambda>(shared_secret, enc).
     bindM (liftR (key_schedule cr c shared_secret info)) (\<lambda>h.
     bindM (liftR (hpke_seal cr h aad plaintext)) (\<lambda>ct.
     ret \<lparr>hs_enc = enc, hs_ciphertext = ct\<rparr>)))"

definition open_base :: "crates \<Rightarrow> string \<Rightarrow> hpke_private_key \<Rightarrow> bytes \<Rightarrow> bytes \<Rightarrow> hpke_sealed \<Rightarrow> bytes result" where
  "open_base cr c sk info aad s =
     rbind (kem_decap cr c (hk_x_priv sk) (hk_k_priv sk) (hs_enc s)) (\<lambda>shared_secret.
     rbind (key_schedule cr c shared_secret info) (\<lambda>h.
     hpke_open cr h aad (hs_ciphertext s)))"

definition setup_sender_and_export ::
    "crates \<Rightarrow> string \<Rightarrow> hpke_public_key \<Rightarrow> bytes \<Rightarrow> bytes \<Rightarrow> nat \<Rightarrow> ('p world, hpke_enc \<times> bytes) leff" where
  "setup_sender_and_export cr c pk info exporter_context exporter_length =
     bindM (kem_encap cr c (hp_x_pub pk) (hp_k_pub pk)) (\<lambda>(shared_secret, enc).
     bindM (liftR (key_schedule cr c shared_secret info)) (\<lambda>h.
     bindM (liftR (export_secret cr c h exporter_context exporter_length)) (\<lambda>exported.
     ret (enc, exported))))"

definition setup_receiver_and_export ::
    "crates \<Rightarrow> string \<Rightarrow> hpke_private_key \<Rightarrow> hpke_enc \<Rightarrow> bytes \<Rightarrow> bytes \<Rightarrow> nat \<Rightarrow> bytes result" where
  "setup_receiver_and_export cr c sk enc info exporter_context exporter_length =
     rbind (kem_decap cr c (hk_x_priv sk) (hk_k_priv sk) enc) (\<lambda>shared_secret.
     rbind (key_schedule cr c shared_secret info) (\<lambda>h.
     export_secret cr c h exporter_context exporter_length))"

definition MIN_IKM_LEN :: nat where
  "MIN_IKM_LEN = 32"

definition derive_keypair_from_high_entropy_ikm ::
    "crates \<Rightarrow> string \<Rightarrow> bytes \<Rightarrow> (hpke_private_key \<times> hpke_public_key) result" where
  "derive_keypair_from_high_entropy_ikm cr c ikm =
     (if length ikm < MIN_IKM_LEN then Inl (malformed_input ''hpke_ikm_too_short'')
      else
        rbind (ctx_add c ''hpke'') (\<lambda>c1.
        rbind (ctx_add c1 ''derive-keypair'') (\<lambda>kp.
        rbind (ctx_add kp ''x25519-priv'') (\<lambda>cx.
        rbind (derive32_raw cr ikm None (ctx_label cx)) (\<lambda>x_priv.
        let x_pub = x25519_public cr x_priv in
        rbind (ctx_add kp ''mlkem1024-seed'') (\<lambda>ck.
        rbind (derive_bytes_raw cr ikm None (ctx_label ck) 64) (\<lambda>k_seed.
        if length k_seed \<noteq> 64 then Inl (internal_error ''mlkem_seed_len'')
        else Inr (\<lparr>hk_x_priv = x_priv, hk_k_priv = k_seed\<rparr>,
                  \<lparr>hp_x_pub = x_pub, hp_k_pub = mlkem_ek_of_seed cr k_seed\<rparr>))))))))"

definition random_keypair :: "crates \<Rightarrow> string \<Rightarrow> ('p world, hpke_private_key \<times> hpke_public_key) leff" where
  "random_keypair cr c =
     bindM (random_fixed 32) (\<lambda>ikm. liftR (derive_keypair_from_high_entropy_ikm cr c ikm))"

section \<open>Sessions\<close>

definition seq_nonce :: "bytes \<Rightarrow> u64 \<Rightarrow> bytes result" where
  "seq_nonce base sq =
     (let s = be_bytes 8 (unat sq); n = take 4 base @ map2 (XOR) (drop 4 base) s in
      sec_fixed_from_slice 12 n)"

record hpke_sender_context =
  sn_ctx :: hpke_context
  sn_seq :: u64

record hpke_receiver_context =
  rv_ctx :: hpke_context
  rv_seq :: u64
  rv_poisoned :: bool

definition setup_sender :: "crates \<Rightarrow> string \<Rightarrow> hpke_public_key \<Rightarrow> bytes \<Rightarrow> ('p world, hpke_enc \<times> hpke_sender_context) leff" where
  "setup_sender cr c pk info =
     bindM (kem_encap cr c (hp_x_pub pk) (hp_k_pub pk)) (\<lambda>(shared_secret, enc).
     bindM (liftR (key_schedule cr c shared_secret info)) (\<lambda>h.
     ret (enc, \<lparr>sn_ctx = h, sn_seq = 0\<rparr>)))"

definition setup_receiver :: "crates \<Rightarrow> string \<Rightarrow> hpke_private_key \<Rightarrow> hpke_enc \<Rightarrow> bytes \<Rightarrow> hpke_receiver_context result" where
  "setup_receiver cr c sk enc info =
     rbind (kem_decap cr c (hk_x_priv sk) (hk_k_priv sk) enc) (\<lambda>shared_secret.
     rbind (key_schedule cr c shared_secret info) (\<lambda>h.
     Inr \<lparr>rv_ctx = h, rv_seq = 0, rv_poisoned = False\<rparr>))"

definition sender_seal :: "crates \<Rightarrow> bytes \<Rightarrow> bytes \<Rightarrow> hpke_sender_context \<Rightarrow> bytes result \<times> hpke_sender_context" where
  "sender_seal cr aad plaintext s =
     (if sn_seq s = - 1 then (Inl (internal_error ''hpke_seq_overflow''), s)
      else case rbind (seq_nonce (hc_base_nonce (sn_ctx s)) (sn_seq s))
             (\<lambda>nonce. encrypt_raw cr plaintext (hc_key (sn_ctx s)) nonce aad) of
        Inl e \<Rightarrow> (Inl e, s)
      | Inr ct \<Rightarrow> (case checked_add_u64 (sn_seq s) 1 of
          None \<Rightarrow> (Inl (internal_error ''hpke_seq_overflow''), s)
        | Some q \<Rightarrow> (Inr ct, s\<lparr>sn_seq := q\<rparr>)))"

definition receiver_open :: "crates \<Rightarrow> bytes \<Rightarrow> bytes \<Rightarrow> hpke_receiver_context \<Rightarrow> bytes result \<times> hpke_receiver_context" where
  "receiver_open cr aad ciphertext r =
     (if rv_poisoned r then (Inl (internal_error ''hpke_session_poisoned''), r)
      else if rv_seq r = - 1 then (Inl (internal_error ''hpke_seq_overflow''), r\<lparr>rv_poisoned := True\<rparr>)
      else case seq_nonce (hc_base_nonce (rv_ctx r)) (rv_seq r) of
        Inl e \<Rightarrow> (Inl e, r)
      | Inr nonce \<Rightarrow> (case decrypt_raw cr ciphertext (hc_key (rv_ctx r)) nonce aad of
          Inl e \<Rightarrow> (Inl e, r\<lparr>rv_poisoned := True\<rparr>)
        | Inr pt \<Rightarrow> (case checked_add_u64 (rv_seq r) 1 of
            None \<Rightarrow> (Inl (internal_error ''hpke_seq_overflow''), r)
          | Some q \<Rightarrow> (Inr pt, r\<lparr>rv_seq := q\<rparr>))))"

section \<open>The codec contract\<close>

definition enc_wf :: "hpke_enc \<Rightarrow> bool" where
  "enc_wf e \<longleftrightarrow> length (he_x_pub e) = 32 \<and> length (he_kem_ct e) = 1570"

definition hpke_pk_wf :: "hpke_public_key \<Rightarrow> bool" where
  "hpke_pk_wf k \<longleftrightarrow> length (hp_x_pub k) = 32 \<and> length (hp_k_pub k) = 1568"

definition hpke_sk_wf :: "hpke_private_key \<Rightarrow> bool" where
  "hpke_sk_wf k \<longleftrightarrow> length (hk_x_priv k) = 32 \<and> length (hk_k_priv k) = 64"

definition hpke_sealed_wf :: "hpke_sealed \<Rightarrow> bool" where
  "hpke_sealed_wf s \<longleftrightarrow> enc_wf (hs_enc s)"

lemma secret_bytes_contents [simp]:
  "contents (fst (secret_bytes_new (to_vec bs))) = bs"
  "contents (fst (secret_bytes_from_slice bs)) = bs"
  by (simp_all add: secret_bytes_new_def secret_bytes_from_slice_def to_vec_def)

lemmas hpke_lens = box_lens X25519_PRIV_LEN_def MLKEM1024_SEED_LEN_def

interpretation hen: fixed_codec enc_to_wire enc_from_wire enc_wf 1602
  by unfold_locales
     (auto simp: enc_to_wire_def enc_from_wire_def enc_wf_def hpke_lens Let_def rbind_Inr_iff is_ok_iff
        pub_fixed_from_slice_def split: if_splits)

interpretation hpk: fixed_codec hpke_pk_to_wire hpke_pk_from_wire hpke_pk_wf 1600
  by unfold_locales
     (auto simp: hpke_pk_to_wire_def hpke_pk_from_wire_def hpke_pk_wf_def hpke_lens Let_def rbind_Inr_iff is_ok_iff
        pub_fixed_from_slice_def split: if_splits)

interpretation hsk: fixed_codec hpke_sk_to_wire hpke_sk_from_wire hpke_sk_wf 96
  by unfold_locales
     (auto simp: hpke_sk_to_wire_def hpke_sk_from_wire_def hpke_sk_wf_def hpke_lens Let_def rbind_Inr_iff is_ok_iff
        sec_fixed_from_slice_def split: if_splits)

interpretation hsl: wire_codec hpke_sealed_to_wire hpke_sealed_from_wire hpke_sealed_wf
proof
  fix x
  assume "hpke_sealed_wf x"
  then have e: "length (enc_to_wire (hs_enc x)) = 1602" "enc_from_wire (enc_to_wire (hs_enc x)) = Inr (hs_enc x)"
    using hen.wf_size hen.from_to by (simp_all add: hpke_sealed_wf_def)
  have "be_nat (be_bytes 4 1602) = 1602" by (rule be_nat_be_bytes_small) simp
  then show "hpke_sealed_from_wire (hpke_sealed_to_wire x) = Inr x"
    using e by (simp add: hpke_sealed_from_wire_def hpke_sealed_to_wire_def Let_def slice_get_def del: be_bytes.simps)
next
  fix bs x
  assume *: "hpke_sealed_from_wire bs = Inr x"
  let ?n = "be_nat (take 4 bs)"
  have l: "4 \<le> length bs" "?n \<le> length bs - 4" "enc_from_wire (take ?n (drop 4 bs)) = Inr (hs_enc x)"
      "hs_ciphertext x = drop ?n (drop 4 bs)"
    using * by (auto simp: hpke_sealed_from_wire_def Let_def rbind_Inr_iff slice_get_def split: if_splits)
  note e = hen.to_from [OF l(3)]
  have "be_bytes 4 ?n = take 4 bs" using be_bytes_be_nat [of "take 4 bs"] l(1) by simp
  moreover have "take 4 bs @ take ?n (drop 4 bs) @ drop (?n + 4) bs = bs"
    using append_take_drop_id [of ?n "drop 4 bs"] append_take_drop_id [of 4 bs] by (simp add: add.commute)
  ultimately show "hpke_sealed_to_wire x = bs"
    using l(1,2,4) e by (simp add: hpke_sealed_to_wire_def Let_def del: be_bytes.simps)
  show "hpke_sealed_wf x" using hen.from_wf [OF l(3)] by (simp add: hpke_sealed_wf_def)
qed

section \<open>Agreement\<close>

lemma hpke_segments: "segment ''hpke''" "segment ''kem''" "segment ''schedule''" "segment ''key''"
  "segment ''base-nonce''" "segment ''exporter-secret''" "segment ''export''" "segment ''derive-keypair''"
  "segment ''x25519-priv''" "segment ''mlkem1024-seed''"
  by (simp_all add: segment_def segment_byte_def)

lemma kem_cases:
  assumes "hkdf_ok cr" and "x25519_ok cr" and "mlkem_ok cr" and "length x = 32" and "length k = 64"
  shows "case kem_encap cr c (x25519_public cr x) (mlkem_ek_of_seed cr k) w of
      (Done (ss, enc), w') \<Rightarrow> kem_decap cr c x k enc = Inr ss \<and> length ss = 32 \<and> enc_wf enc
    | (Fail e, w') \<Rightarrow> box_error e
    | (Crash, w') \<Rightarrow> \<exists>i. rng_fail w i"
proof (cases "rng_fail w (rng_pos w)")
  case True
  then show ?thesis by (simp add: kem_encap_def bindM_def random_fixed_def box_error_def)
next
  case False
  let ?w1 = "w\<lparr>rng_pos := rng_pos w + 32\<rparr>"
  have rnd: "random_fixed 32 w = (Done (rng_draw w 32), ?w1)" using False by (simp add: random_fixed_def)
  show ?thesis
  proof (cases "rbind (ctx_add c ''hpke'') (\<lambda>c1. ctx_add c1 ''kem'')")
    case (Inl e)
    then have "box_error e"
      using ctx_add_Inl hpke_segments by (auto simp: rbind_Inl_iff box_error_def)
    then show ?thesis
      using Inl rnd by (auto simp: kem_encap_def bindM_def rbind_Inl_iff fail_def ret_def)
  next
    case (Inr kc)
    then obtain c1 where c1: "ctx_add c ''hpke'' = Inr c1" "ctx_add c1 ''kem'' = Inr kc"
      by (auto simp: rbind_Inr_iff)
    have lx: "length (x25519_public cr (rng_draw w 32)) = 32" using assms(2) unfolding x25519_ok_def by simp
    show ?thesis
      using rnd c1 lx prep_encryption_cases [OF assms(1-3) length_rng_draw [of w] assms(4,5), where c = kc and w = ?w1]
      by (auto simp: kem_encap_def kem_decap_def bindM_def ret_def enc_wf_def split: prod.splits outcome.splits)
  qed
qed

lemma key_schedule_cases:
  assumes "hkdf_ok cr"
  shows "case key_schedule cr c ikm info of
      Inr h \<Rightarrow> length (hc_key h) = 32 \<and> length (hc_base_nonce h) = 12 \<and> length (hc_exporter_secret h) = 32
    | Inl e \<Rightarrow> e = invalid_context ''too_long''"
proof (cases "key_schedule cr c ikm info")
  case (Inl e)
  have "derive32_raw cr i None n \<noteq> Inl e" for i n by (rule derive32_raw_no_error [OF assms])
  moreover have "derive32_raw cr i None n = Inr k \<Longrightarrow> sec_fixed_from_slice 12 (take 12 k) \<noteq> Inl e" for i n k
    using derive32_raw_length by (fastforce simp: sec_fixed_from_slice_def)
  ultimately show ?thesis
    using Inl ctx_add_Inl hpke_segments
    by (auto simp: key_schedule_def rbind_Inl_iff)
next
  case (Inr h)
  then have "length (hc_key h) = 32 \<and> length (hc_base_nonce h) = 12 \<and> length (hc_exporter_secret h) = 32"
    by (auto simp: key_schedule_def rbind_Inr_iff dest: derive32_raw_length)
  with Inr show ?thesis by simp
qed

definition hpke_keypair :: "crates \<Rightarrow> hpke_private_key \<Rightarrow> hpke_public_key \<Rightarrow> bool" where
  "hpke_keypair cr sk pk \<longleftrightarrow> hpke_sk_wf sk
     \<and> pk = \<lparr>hp_x_pub = x25519_public cr (hk_x_priv sk), hp_k_pub = mlkem_ek_of_seed cr (hk_k_priv sk)\<rparr>"

lemma kem_keypair_cases:
  assumes "hkdf_ok cr" and "x25519_ok cr" and "mlkem_ok cr" and "hpke_keypair cr sk pk"
  shows "case kem_encap cr c (hp_x_pub pk) (hp_k_pub pk) w of
      (Done (ss, enc), w') \<Rightarrow> kem_decap cr c (hk_x_priv sk) (hk_k_priv sk) enc = Inr ss \<and> length ss = 32 \<and> enc_wf enc
    | (Fail e, w') \<Rightarrow> box_error e
    | (Crash, w') \<Rightarrow> \<exists>i. rng_fail w i"
  using kem_cases [OF assms(1-3), where x = "hk_x_priv sk" and k = "hk_k_priv sk" and c = c and w = w] assms(4)
  by (simp add: hpke_keypair_def hpke_sk_wf_def)


section \<open>A concrete key pair\<close>

definition sample_hsk :: hpke_private_key where
  "sample_hsk = \<lparr>hk_x_priv = replicate 32 5, hk_k_priv = replicate 64 6\<rparr>"

definition sample_hpk :: hpke_public_key where
  "sample_hpk = \<lparr>hp_x_pub = replicate 32 5, hp_k_pub = mlkem_ek_of_seed sample_crates (replicate 64 6)\<rparr>"

lemma sample_hpke_keypair: "hpke_keypair sample_crates sample_hsk sample_hpk"
  by (simp add: hpke_keypair_def sample_hsk_def sample_hpk_def hpke_sk_wf_def) (simp add: sample_crates_def)

lemma hpke_ctx_example:
  "ctx_add ''app'' ''hpke'' = Inr ''app/hpke''" "ctx_add ''app/hpke'' ''kem'' = Inr ''app/hpke/kem''"
  "ctx_add ''app/hpke/kem'' ''ecdh-key'' = Inr ''app/hpke/kem/ecdh-key''"
  "ctx_add ''app/hpke/kem'' ''base-key'' = Inr ''app/hpke/kem/base-key''"
  "ctx_add ''app/hpke'' ''schedule'' = Inr ''app/hpke/schedule''"
  "ctx_add ''app/hpke/schedule'' ''key'' = Inr ''app/hpke/schedule/key''"
  "ctx_add ''app/hpke/schedule'' ''base-nonce'' = Inr ''app/hpke/schedule/base-nonce''"
  "ctx_add ''app/hpke/schedule'' ''exporter-secret'' = Inr ''app/hpke/schedule/exporter-secret''"
  using hpke_segments box_segments by (simp_all add: ctx_add_iff MAX_CONTEXT_LEN_def)

lemma sample_kem_encap:
  assumes "hpke_keypair sample_crates sk pk" and "hp_x_pub pk ! 0 \<noteq> 0"
  obtains ss enc w' where "kem_encap sample_crates ''app'' (hp_x_pub pk) (hp_k_pub pk) (clean_world [])
      = (Done (ss, enc), w')"
proof -
  let ?w = "(clean_world [])\<lparr>rng_pos := 32\<rparr>" and ?my = "rng_draw (clean_world []) 32"
  have l: "length (hk_x_priv sk) = 32" "length (hk_k_priv sk) = 64"
      and pk: "hp_x_pub pk = hk_x_priv sk" "hp_k_pub pk = mlkem_ek_of_seed sample_crates (hk_k_priv sk)"
    using assms(1) by (simp_all add: hpke_keypair_def hpke_sk_wf_def) (simp add: sample_crates_def)
  have con: "x25519_contributory sample_crates (x25519_shared sample_crates ?my (hp_x_pub pk))"
    by (rule sample_contributory) (use l assms(2) pk in \<open>simp_all add: clean_world_def\<close>)
  have live: "rng_live ?w" by simp
  obtain k ct where "prep_base_key_for_encryption sample_crates ''app/hpke/kem'' ?my (hp_x_pub pk)
      (mlkem_ek_of_seed sample_crates (hk_k_priv sk)) ?w
      = (Done (k, ct, x25519_public sample_crates ?my), ?w\<lparr>rng_pos := rng_pos ?w + 32\<rparr>)"
    by (rule prep_encryption_total [OF sample_hkdf_ok sample_mlkem_ok live l(2) length_rng_draw con hpke_ctx_example(3,4)])
  moreover have "random_fixed 32 (clean_world []) = (Done ?my, ?w)"
    by (simp add: random_fixed_live) (simp add: clean_world_def)
  ultimately show thesis
    using that hpke_ctx_example(1,2) pk(2) by (simp add: kem_encap_def bindM_def ret_def)
qed

lemma sample_key_schedule: obtains h where "key_schedule sample_crates ''app'' ss info = Inr h"
proof (cases "key_schedule sample_crates ''app'' ss info")
  case (Inl e)
  have d: "derive32_raw sample_crates ss None n \<noteq> Inl e" for n by (rule derive32_raw_no_error [OF sample_hkdf_ok])
  have "derive32_raw sample_crates ss None n = Inr k \<Longrightarrow> sec_fixed_from_slice 12 (take 12 k) \<noteq> Inl e" for n k
    using derive32_raw_length by (fastforce simp: sec_fixed_from_slice_def)
  with d Inl show thesis by (auto simp: key_schedule_def rbind_Inl_iff hpke_ctx_example)
qed

section \<open>One-shot properties\<close>

lemma box_error_too_long: "box_error (invalid_context ''too_long'')"
  by (simp add: box_error_def)

lemma encrypt_raw_error: "encrypt_raw cr m k n a = Inl e \<Longrightarrow> box_error e"
  by (auto simp: encrypt_raw_def ok_or_def box_error_def split: option.splits)

text \<open>C20. Opening inverts sealing for every key pair, context, info and associated data, whatever the
  generator yields, and the sealed message survives its wire form; a failure is one of the box's, a
  panic only the generator's inside the encapsulation.\<close>

theorem hpke_open_seal:
  assumes "aead_ok cr" and "hkdf_ok cr" and "x25519_ok cr" and "mlkem_ok cr" and "hpke_keypair cr sk pk"
  shows "case seal_base cr c pk info aad m w of
      (Done s, w') \<Rightarrow> open_base cr c sk info aad s = Inr m
        \<and> hpke_sealed_from_wire (hpke_sealed_to_wire s) = Inr s \<and> length (hpke_sealed_to_wire s) = length m + 1622
    | (Fail e, w') \<Rightarrow> box_error e
    | (Crash, w') \<Rightarrow> \<exists>i. rng_fail w i"
proof (cases "kem_encap cr c (hp_x_pub pk) (hp_k_pub pk) w")
  case (Pair out w1)
  note kem = kem_keypair_cases [OF assms(2-5), where c = c and w = w]
  show ?thesis
  proof (cases out)
    case (Done p)
    obtain ss enc where p: "p = (ss, enc)" by fastforce
    have dec: "kem_decap cr c (hk_x_priv sk) (hk_k_priv sk) enc = Inr ss" "enc_wf enc" using kem Pair Done p by simp_all
    show ?thesis
    proof (cases "key_schedule cr c ss info")
      case (Inl e)
      then show ?thesis
        using Pair Done p key_schedule_cases [OF assms(2), of c ss info] box_error_too_long
        by (simp add: seal_base_def bindM_def fail_def)
    next
      case (Inr h)
      then have h: "length (hc_key h) = 32" "length (hc_base_nonce h) = 12"
        using key_schedule_cases [OF assms(2), of c ss info] by simp_all
      show ?thesis
      proof (cases "hpke_seal cr h aad m")
        case (Inl e)
        then show ?thesis
          using Pair Done p \<open>key_schedule _ _ _ _ = _\<close> encrypt_raw_error
          by (simp add: seal_base_def bindM_def fail_def hpke_seal_def)
      next
        case (Inr ct)
        let ?s = "\<lparr>hs_enc = enc, hs_ciphertext = ct\<rparr>"
        note raw = decrypt_encrypt_raw [OF assms(1) h Inr [unfolded hpke_seal_def]]
        have "hpke_sealed_wf ?s" using dec by (simp add: hpke_sealed_wf_def)
        from hsl.from_to [OF this] show ?thesis
          using Pair Done p \<open>key_schedule _ _ _ _ = _\<close> Inr dec raw hen.wf_size [OF dec(2)]
          by (simp add: seal_base_def bindM_def ret_def open_base_def hpke_open_def)
             (simp add: hpke_sealed_to_wire_def Let_def del: be_bytes.simps)
      qed
    qed
  next
    case (Fail e)
    then show ?thesis using Pair kem by (simp add: seal_base_def bindM_def)
  next
    case Crash
    then show ?thesis using Pair kem by (simp add: seal_base_def bindM_def)
  qed
qed

theorem hpke_open_seal_witness:
  "\<exists>s w'. seal_base sample_crates ''app'' sample_hpk [1] [2] [3, 4] (clean_world []) = (Done s, w')
    \<and> open_base sample_crates ''app'' sample_hsk [1] [2] s = Inr [3, 4]"
proof -
  obtain ss enc w1 where e: "kem_encap sample_crates ''app'' (hp_x_pub sample_hpk) (hp_k_pub sample_hpk) (clean_world [])
      = (Done (ss, enc), w1)"
    by (rule sample_kem_encap [OF sample_hpke_keypair]) (simp add: sample_hpk_def)
  obtain h where h: "key_schedule sample_crates ''app'' ss [1] = Inr h" by (rule sample_key_schedule)
  obtain ct where ct: "hpke_seal sample_crates h [2] [3, 4] = Inr ct"
    by (simp add: hpke_seal_def encrypt_raw_def sample_crates_def)
  have run: "seal_base sample_crates ''app'' sample_hpk [1] [2] [3, 4] (clean_world [])
      = (Done \<lparr>hs_enc = enc, hs_ciphertext = ct\<rparr>, w1)"
    using e h ct by (simp add: seal_base_def bindM_def ret_def)
  show ?thesis
    using run hpke_open_seal [OF sample_aead_ok sample_hkdf_ok sample_x25519_ok sample_mlkem_ok sample_hpke_keypair,
        where c = "''app''" and info = "[1]" and aad = "[2]" and m = "[3, 4]" and w = "clean_world []"]
    by auto
qed

lemma derived_keypair:
  assumes "hkdf_ok cr" and "derive_keypair_from_high_entropy_ikm cr c ikm = Inr (sk, pk)"
  shows "32 \<le> length ikm" and "hpke_keypair cr sk pk"
  using assms(2)
  by (auto simp: derive_keypair_from_high_entropy_ikm_def Let_def rbind_Inr_iff hpke_keypair_def hpke_sk_wf_def
      MIN_IKM_LEN_def dest: derive32_raw_length split: if_splits)

lemma export_secret_cases:
  assumes "hkdf_ok cr"
  shows "case export_secret cr c h ex len of
      Inr x \<Rightarrow> length x = len
    | Inl e \<Rightarrow> box_error e \<or> 8160 < len \<and> e = invalid_len 8160 len"
proof (cases "rbind (ctx_add c ''hpke'') (\<lambda>c1. ctx_add c1 ''export'')")
  case (Inl e)
  then have "box_error e" using ctx_add_Inl hpke_segments by (auto simp: rbind_Inl_iff box_error_def)
  then show ?thesis using Inl by (auto simp: export_secret_def rbind_Inl_iff)
next
  case (Inr ce)
  then obtain c1 where "ctx_add c ''hpke'' = Inr c1" "ctx_add c1 ''export'' = Inr ce" by (auto simp: rbind_Inr_iff)
  then show ?thesis
    using derive_bytes_raw_spec [OF assms, where input = "hc_exporter_secret h" and salt = None
        and info = "bind_aad ce ex" and len = len]
    by (auto simp: export_secret_def split: sum.splits)
qed

text \<open>C21. Both sides of a set-up export the same secret, of exactly the length asked for; a length above
  the derivation limit is refused with \<open>InvalidLength\<close>.  A key pair derived from at least 32 bytes of
  input keying material is such a pair, and a shorter input is refused.\<close>

theorem hpke_exports_agree:
  assumes "hkdf_ok cr" and "x25519_ok cr" and "mlkem_ok cr"
    and "derive_keypair_from_high_entropy_ikm cr kc ikm = Inr (sk, pk)"
  shows "32 \<le> length ikm \<and> hpke_keypair cr sk pk
    \<and> (case setup_sender_and_export cr c pk info ex len w of
      (Done (enc, x), w') \<Rightarrow> setup_receiver_and_export cr c sk enc info ex len = Inr x \<and> length x = len
    | (Fail e, w') \<Rightarrow> box_error e \<or> 8160 < len \<and> e = invalid_len 8160 len
    | (Crash, w') \<Rightarrow> \<exists>i. rng_fail w i)"
proof -
  note kp = derived_keypair [OF assms(1,4)]
  note kem = kem_keypair_cases [OF assms(1-3) kp(2), where c = c and w = w]
  have "case setup_sender_and_export cr c pk info ex len w of
      (Done (enc, x), w') \<Rightarrow> setup_receiver_and_export cr c sk enc info ex len = Inr x \<and> length x = len
    | (Fail e, w') \<Rightarrow> box_error e \<or> 8160 < len \<and> e = invalid_len 8160 len
    | (Crash, w') \<Rightarrow> \<exists>i. rng_fail w i"
  proof (cases "kem_encap cr c (hp_x_pub pk) (hp_k_pub pk) w")
    case (Pair out w1)
    show ?thesis
    proof (cases out)
      case (Done p)
      obtain ss enc where p: "p = (ss, enc)" by fastforce
      show ?thesis
      proof (cases "key_schedule cr c ss info")
        case (Inl e)
        then show ?thesis
          using Pair Done p key_schedule_cases [OF assms(1), of c ss info] box_error_too_long
          by (simp add: setup_sender_and_export_def bindM_def fail_def)
      next
        case (Inr h)
        then show ?thesis
          using Pair Done p kem export_secret_cases [OF assms(1), where c = c and h = h and ex = ex and len = len]
          by (cases "export_secret cr c h ex len")
             (simp_all add: setup_sender_and_export_def setup_receiver_and_export_def bindM_def ret_def fail_def)
      qed
    qed (use Pair kem in \<open>simp_all add: setup_sender_and_export_def bindM_def\<close>)
  qed
  with kp show ?thesis by blast
qed

lemma sample_derived_keypair:
  "derive_keypair_from_high_entropy_ikm sample_crates ''app'' (replicate 32 1)
     = Inr (\<lparr>hk_x_priv = replicate 32 1, hk_k_priv = pad_to 64 (replicate 32 1)\<rparr>,
            \<lparr>hp_x_pub = replicate 32 1, hp_k_pub = pad_to 1568 (pad_to 64 (replicate 32 1))\<rparr>)"
proof -
  have "ctx_add ''app/hpke'' ''derive-keypair'' = Inr ''app/hpke/derive-keypair''"
      "ctx_add ''app/hpke/derive-keypair'' ''x25519-priv'' = Inr ''app/hpke/derive-keypair/x25519-priv''"
      "ctx_add ''app/hpke/derive-keypair'' ''mlkem1024-seed'' = Inr ''app/hpke/derive-keypair/mlkem1024-seed''"
    using hpke_segments by (simp_all add: ctx_add_iff MAX_CONTEXT_LEN_def)
  moreover have "derive32_raw sample_crates (replicate 32 1) None n = Inr (replicate 32 1)"
      "derive_bytes_raw sample_crates (replicate 32 1) None n 64 = Inr (pad_to 64 (replicate 32 1))" for n
    by (simp_all add: derive32_raw_def derive_bytes_raw_def validate_hkdf_len_def HKDF_SHA256_MAX_OUTPUT_def
        sample_crates_def sec_fixed_from_slice_def)
  ultimately show ?thesis
    using hpke_ctx_example(1)
    by (simp add: derive_keypair_from_high_entropy_ikm_def MIN_IKM_LEN_def Let_def) (simp add: sample_crates_def)
qed

theorem hpke_exports_agree_witness:
  "\<exists>sk pk enc x w'. derive_keypair_from_high_entropy_ikm sample_crates ''app'' (replicate 32 1) = Inr (sk, pk)
    \<and> setup_sender_and_export sample_crates ''app'' pk [1] [2] 40 (clean_world []) = (Done (enc, x), w')
    \<and> setup_receiver_and_export sample_crates ''app'' sk enc [1] [2] 40 = Inr x \<and> length x = 40"
proof -
  obtain sk pk where kp: "derive_keypair_from_high_entropy_ikm sample_crates ''app'' (replicate 32 1) = Inr (sk, pk)"
      and x: "hp_x_pub pk ! 0 \<noteq> 0"
    using sample_derived_keypair by simp
  obtain ss enc w1 where e: "kem_encap sample_crates ''app'' (hp_x_pub pk) (hp_k_pub pk) (clean_world [])
      = (Done (ss, enc), w1)"
    by (rule sample_kem_encap [OF derived_keypair(2) [OF sample_hkdf_ok kp] x])
  obtain h where h: "key_schedule sample_crates ''app'' ss [1] = Inr h" by (rule sample_key_schedule)
  have "ctx_add ''app/hpke'' ''export'' = Inr ''app/hpke/export''"
    using hpke_segments by (simp add: ctx_add_iff MAX_CONTEXT_LEN_def)
  then obtain x where "export_secret sample_crates ''app'' h [2] 40 = Inr x"
    using hpke_ctx_example(1)
    by (simp add: export_secret_def derive_bytes_raw_def validate_hkdf_len_def HKDF_SHA256_MAX_OUTPUT_def sample_crates_def)
  then have run: "setup_sender_and_export sample_crates ''app'' pk [1] [2] 40 (clean_world []) = (Done (enc, x), w1)"
    using e h by (simp add: setup_sender_and_export_def bindM_def ret_def)
  show ?thesis
    using kp run hpke_exports_agree [OF sample_hkdf_ok sample_x25519_ok sample_mlkem_ok kp, where c = "''app''"
        and info = "[1]" and ex = "[2]" and len = 40 and w = "clean_world []"]
    by auto
qed

section \<open>Sessions\<close>

lemma map2_xor_inject:
  assumes "length xs = length ys" and "length ys = length zs"
  shows "map2 (XOR) xs ys = map2 (XOR) xs (zs :: u8 list) \<longleftrightarrow> ys = zs"
  using assms
proof (induction xs ys zs rule: list_induct3)
  case (Cons x xs y ys z zs)
  have "x XOR y = x XOR z \<longleftrightarrow> y = z"
    by (metis xor.left_neutral xor.assoc xor_self_eq)
  with Cons show ?case by simp
qed simp

lemma seq_nonce_ok: "length base = 12 \<Longrightarrow> \<exists>n. seq_nonce base q = Inr n \<and> length n = 12"
  by (simp add: seq_nonce_def Let_def del: be_bytes.simps)

lemma seq_nonce_inject:
  assumes "length base = 12"
  shows "seq_nonce base a = seq_nonce base b \<longleftrightarrow> a = b"
proof -
  have "unat a < 256 ^ 8" "unat b < 256 ^ 8"
    using unsigned_less [of a] unsigned_less [of b] by simp_all
  then have "be_bytes 8 (unat a) = be_bytes 8 (unat b) \<longleftrightarrow> a = b"
    using be_bytes_inject [of "unat a" 8 "unat b"] by (simp add: word_unat_eq_iff del: be_bytes.simps)
  moreover have "map2 (XOR) (drop 4 base) (be_bytes 8 (unat a)) = map2 (XOR) (drop 4 base) (be_bytes 8 (unat b))
      \<longleftrightarrow> be_bytes 8 (unat a) = be_bytes 8 (unat b)"
    using assms by (intro map2_xor_inject) (simp_all del: be_bytes.simps)
  ultimately show ?thesis
    using assms by (simp add: seq_nonce_def Let_def sec_fixed_from_slice_def del: be_bytes.simps)
qed

text \<open>A run of a sender over messages with associated data, and a run of a receiver.\<close>

fun send_all :: "crates \<Rightarrow> (bytes \<times> bytes) list \<Rightarrow> hpke_sender_context \<Rightarrow> bytes result list \<times> hpke_sender_context" where
  "send_all cr [] s = ([], s)"
| "send_all cr ((aad, m) # ms) s =
     (let (r, s1) = sender_seal cr aad m s; (rs, s2) = send_all cr ms s1 in (r # rs, s2))"

fun recv_all :: "crates \<Rightarrow> (bytes \<times> bytes) list \<Rightarrow> hpke_receiver_context \<Rightarrow> bytes result list \<times> hpke_receiver_context" where
  "recv_all cr [] r = ([], r)"
| "recv_all cr ((aad, ct) # cts) r =
     (let (x, r1) = receiver_open cr aad ct r; (xs, r2) = recv_all cr cts r1 in (x # xs, r2))"

text \<open>The messages that were accepted, each with its ciphertext.\<close>

fun accepted :: "(bytes \<times> bytes) list \<Rightarrow> bytes result list \<Rightarrow> (bytes \<times> bytes \<times> bytes) list" where
  "accepted ((aad, m) # ms) (Inr ct # rs) = (aad, m, ct) # accepted ms rs"
| "accepted (am # ms) (Inl e # rs) = accepted ms rs"
| "accepted ms rs = []"

lemma sender_seal_cases:
  assumes "length (hc_base_nonce (sn_ctx s)) = 12" and "sender_seal cr aad m s = (r, s')"
  shows "sn_ctx s' = sn_ctx s"
    and "(\<exists>ct n. r = Inr ct \<and> sn_seq s \<noteq> - 1 \<and> sn_seq s' = sn_seq s + 1
           \<and> seq_nonce (hc_base_nonce (sn_ctx s)) (sn_seq s) = Inr n
           \<and> encrypt_raw cr m (hc_key (sn_ctx s)) n aad = Inr ct)
       \<or> (\<exists>e. r = Inl e) \<and> s' = s"
proof -
  obtain n where n: "seq_nonce (hc_base_nonce (sn_ctx s)) (sn_seq s) = Inr n"
    using seq_nonce_ok [OF assms(1)] by blast
  have "sender_seal cr aad m s = (if sn_seq s = - 1 then (Inl (internal_error ''hpke_seq_overflow''), s)
      else case encrypt_raw cr m (hc_key (sn_ctx s)) n aad of
        Inl e \<Rightarrow> (Inl e, s) | Inr ct \<Rightarrow> (Inr ct, s\<lparr>sn_seq := sn_seq s + 1\<rparr>))"
    using next_u64(1) [of "sn_seq s"] by (simp add: sender_seal_def n cong: sum.case_cong)
  then show "sn_ctx s' = sn_ctx s"
    and "(\<exists>ct n. r = Inr ct \<and> sn_seq s \<noteq> - 1 \<and> sn_seq s' = sn_seq s + 1
           \<and> seq_nonce (hc_base_nonce (sn_ctx s)) (sn_seq s) = Inr n
           \<and> encrypt_raw cr m (hc_key (sn_ctx s)) n aad = Inr ct)
       \<or> (\<exists>e. r = Inl e) \<and> s' = s"
    using assms(2) n
    by (cases "encrypt_raw cr m (hc_key (sn_ctx s)) n aad"; auto split: if_splits)+
qed

lemma encrypt_raw_iff: "encrypt_raw cr m k n aad = Inr ct \<longleftrightarrow> gcmsiv_encrypt cr k n aad m = Some ct"
  by (auto simp: encrypt_raw_def ok_or_def split: option.splits)

text \<open>Every ciphertext of a run is the encryption of its message under a nonce of the context's sequence, counted
  from the sequence number before the run.\<close>

lemma sent_under_nonces:
  assumes "length (hc_base_nonce (sn_ctx s)) = 12"
  obtains ns where "list_all2 (\<lambda>(aad, m, ct) n. gcmsiv_encrypt cr (hc_key (sn_ctx s)) n aad m = Some ct)
      (accepted ms (fst (send_all cr ms s))) ns"
    and "distinct ns" and "Inr ` set ns \<subseteq> seq_nonce (hc_base_nonce (sn_ctx s)) ` {q. sn_seq s \<le> q}"
    and "unat (sn_seq (snd (send_all cr ms s))) = unat (sn_seq s) + length ns"
  using assms
proof (induction ms arbitrary: s thesis)
  case Nil
  then show ?case by simp
next
  case (Cons am ms)
  obtain aad m where am: "am = (aad, m)" by fastforce
  obtain r s1 where seal: "sender_seal cr aad m s = (r, s1)" by fastforce
  note sc = sender_seal_cases [OF Cons.prems(2) seal]
  have l: "length (hc_base_nonce (sn_ctx s1)) = 12" using sc(1) Cons.prems(2) by simp
  obtain ns where ns: "list_all2 (\<lambda>(aad, m, ct) n. gcmsiv_encrypt cr (hc_key (sn_ctx s)) n aad m = Some ct)
        (accepted ms (fst (send_all cr ms s1))) ns"
      "distinct ns" "Inr ` set ns \<subseteq> seq_nonce (hc_base_nonce (sn_ctx s)) ` {q. sn_seq s1 \<le> q}"
      "unat (sn_seq (snd (send_all cr ms s1))) = unat (sn_seq s1) + length ns"
    using Cons.IH [OF _ l] unfolding sc(1) by blast
  have run: "send_all cr (am # ms) s = (r # fst (send_all cr ms s1), snd (send_all cr ms s1))"
    by (simp add: am seal split_def Let_def)
  show ?case
  proof (cases r)
    case (Inl e)
    then have "s1 = s" using sc(2) by auto
    then show ?thesis using Cons.prems(1) [of ns] ns run Inl am by simp
  next
    case (Inr ct)
    then obtain n where n: "sn_seq s \<noteq> - 1" "sn_seq s1 = sn_seq s + 1" "seq_nonce (hc_base_nonce (sn_ctx s)) (sn_seq s) = Inr n"
        "gcmsiv_encrypt cr (hc_key (sn_ctx s)) n aad m = Some ct"
      using sc(2) by (auto simp: encrypt_raw_iff)
    have u: "unat (sn_seq s1) = unat (sn_seq s) + 1" using next_u64(2) [OF n(1)] by (simp add: n(2))
    then have lt: "sn_seq s < sn_seq s1" by (simp add: word_less_nat_alt)
    have "n \<notin> set ns" using ns(3) n(3) lt seq_nonce_inject [OF Cons.prems(2)] by force
    moreover have "seq_nonce (hc_base_nonce (sn_ctx s)) ` {q. sn_seq s1 \<le> q} \<subseteq> seq_nonce (hc_base_nonce (sn_ctx s)) ` {q. sn_seq s \<le> q}"
      using lt by auto
    then have "Inr ` set (n # ns) \<subseteq> seq_nonce (hc_base_nonce (sn_ctx s)) ` {q. sn_seq s \<le> q}"
      using ns(3) n(3) [symmetric] by auto
    ultimately show ?thesis
      using Cons.prems(1) [of "n # ns"] ns n(4) u run Inr am by simp
  qed
qed


text \<open>C3. No nonce is used twice: over any sequence of messages, the ciphertexts that a sender context produces are
  encryptions of the messages under its key with pairwise different nonces, also across refused messages and up to the end of the
  sequence space; the sequence number counts the ciphertexts, and at the last one the context refuses to encrypt instead of
  wrapping around.\<close>

theorem session_nonces_never_repeat:
  assumes "length (hc_base_nonce (sn_ctx s)) = 12"
  shows "(\<exists>ns. distinct ns
      \<and> list_all2 (\<lambda>(aad, m, ct) n. gcmsiv_encrypt cr (hc_key (sn_ctx s)) n aad m = Some ct)
          (accepted ms (fst (send_all cr ms s))) ns
      \<and> unat (sn_seq (snd (send_all cr ms s))) = unat (sn_seq s) + length ns)
    \<and> sender_seal cr aad m (s\<lparr>sn_seq := - 1\<rparr>) = (Inl (internal_error ''hpke_seq_overflow''), s\<lparr>sn_seq := - 1\<rparr>)"
proof
  show "\<exists>ns. distinct ns
      \<and> list_all2 (\<lambda>(aad, m, ct) n. gcmsiv_encrypt cr (hc_key (sn_ctx s)) n aad m = Some ct)
          (accepted ms (fst (send_all cr ms s))) ns
      \<and> unat (sn_seq (snd (send_all cr ms s))) = unat (sn_seq s) + length ns"
    by (rule sent_under_nonces [OF assms, of cr ms]) blast
qed (simp add: sender_seal_def)

theorem session_nonces_never_repeat_witness:
  "\<exists>ct1 ct2 n1 n2. fst (send_all sample_crates [([], [1]), ([], [1])]
      \<lparr>sn_ctx = \<lparr>hc_key = replicate 32 1, hc_base_nonce = replicate 12 2, hc_exporter_secret = []\<rparr>, sn_seq = 0\<rparr>) = [Inr ct1, Inr ct2]
    \<and> n1 \<noteq> n2 \<and> gcmsiv_encrypt sample_crates (replicate 32 1) n1 [] [1] = Some ct1
    \<and> gcmsiv_encrypt sample_crates (replicate 32 1) n2 [] [1] = Some ct2"
proof -
  let ?s = "\<lparr>sn_ctx = \<lparr>hc_key = replicate 32 1, hc_base_nonce = replicate 12 2, hc_exporter_secret = []\<rparr>, sn_seq = 0\<rparr>"
  have ok: "is_ok (fst (sender_seal sample_crates [] [1] s))"
    if "length (hc_base_nonce (sn_ctx s)) = 12" "sn_seq s \<noteq> - 1" for s
    using seq_nonce_ok [OF that(1), of "sn_seq s"] next_u64 [OF that(2)] that(2)
    by (auto simp: sender_seal_def encrypt_raw_def sample_crates_def)
  have l: "length (hc_base_nonce (sn_ctx ?s)) = 12" by simp
  obtain r1 s1 where s1: "sender_seal sample_crates [] [1] ?s = (r1, s1)" by fastforce
  obtain ct1 where r1: "r1 = Inr ct1" using ok [of ?s] s1 by (auto simp: is_ok_iff)
  then have q: "sn_seq s1 = 1" "sn_ctx s1 = sn_ctx ?s" using sender_seal_cases [OF l s1] by auto
  obtain r2 s2 where s2: "sender_seal sample_crates [] [1] s1 = (r2, s2)" by fastforce
  obtain ct2 where "r2 = Inr ct2" using ok [of s1] s2 q by (auto simp: is_ok_iff)
  with r1 s1 s2 have run: "fst (send_all sample_crates [([], [1]), ([], [1])] ?s) = [Inr ct1, Inr ct2]" by simp
  then obtain ns where d: "distinct ns" and ns: "list_all2 (\<lambda>(aad, m, ct) n. gcmsiv_encrypt sample_crates (replicate 32 1) n aad m = Some ct)
      [([], [1], ct1), ([], [1], ct2)] ns"
    using session_nonces_never_repeat [OF l, of sample_crates "[([], [1]), ([], [1])]"] by auto
  then obtain n1 n2 where "ns = [n1, n2]" "gcmsiv_encrypt sample_crates (replicate 32 1) n1 [] [1] = Some ct1"
      "gcmsiv_encrypt sample_crates (replicate 32 1) n2 [] [1] = Some ct2"
    by (auto simp: list_all2_Cons1)
  then show ?thesis using run d by (intro exI [of _ ct1] exI [of _ ct2] exI [of _ n1] exI [of _ n2]) simp
qed

lemma recv_sent:
  assumes "aead_ok cr" and "length (hc_key (sn_ctx s)) = 32" and "length (hc_base_nonce (sn_ctx s)) = 12"
    and "rv_ctx r = sn_ctx s" and "rv_seq r = sn_seq s" and "\<not> rv_poisoned r"
    and "fst (send_all cr ms s) = map Inr cts"
  shows "fst (recv_all cr (zip (map fst ms) cts) r) = map (Inr \<circ> snd) ms
    \<and> \<not> rv_poisoned (snd (recv_all cr (zip (map fst ms) cts) r))
    \<and> rv_seq (snd (recv_all cr (zip (map fst ms) cts) r)) = sn_seq (snd (send_all cr ms s))"
  using assms(2-)
proof (induction ms arbitrary: s r cts)
  case (Cons am ms)
  obtain aad m where am: "am = (aad, m)" by fastforce
  obtain x s1 where seal: "sender_seal cr aad m s = (x, s1)" by fastforce
  obtain ct cts' where cts: "cts = ct # cts'" "x = Inr ct" "fst (send_all cr ms s1) = map Inr cts'"
    using Cons.prems(6) am seal by (cases cts) (auto simp: split_def Let_def)
  note sc = sender_seal_cases [OF Cons.prems(2) seal]
  obtain n where n: "sn_seq s \<noteq> - 1" "sn_seq s1 = sn_seq s + 1" "seq_nonce (hc_base_nonce (sn_ctx s)) (sn_seq s) = Inr n"
      "encrypt_raw cr m (hc_key (sn_ctx s)) n aad = Inr ct"
    using sc(2) cts(2) by auto
  have "length n = 12" using seq_nonce_ok [OF Cons.prems(2), of "sn_seq s"] n(3) by auto
  then have "decrypt_raw cr ct (hc_key (sn_ctx s)) n aad = Inr m"
    by (rule decrypt_encrypt_raw(1) [OF assms(1) Cons.prems(1) _ n(4)])
  then have op: "receiver_open cr aad ct r = (Inr m, r\<lparr>rv_seq := sn_seq s1\<rparr>)"
    using n Cons.prems(3-5) next_u64 [OF n(1)] by (simp add: receiver_open_def)
  show ?case
    using Cons.IH [of s1 "r\<lparr>rv_seq := sn_seq s1\<rparr>" cts'] Cons.prems sc(1) cts op am seal
    by (simp add: split_def Let_def)
qed simp

text \<open>C9. Sessions deliver in order: after a set-up with a key pair both sides hold the same context, and
  messages that the sender sealed one after the other, opened in the same order with the same
  associated data, give back exactly the plaintexts.\<close>

theorem session_delivers_in_order:
  assumes "aead_ok cr" and "hkdf_ok cr" and "x25519_ok cr" and "mlkem_ok cr" and "hpke_keypair cr sk pk"
    and "setup_sender cr c pk info w = (Done (enc, s), w')" and "fst (send_all cr ms s) = map Inr cts"
  shows "\<exists>r. setup_receiver cr c sk enc info = Inr r \<and> rv_ctx r = sn_ctx s
    \<and> fst (recv_all cr (zip (map fst ms) cts) r) = map (Inr \<circ> snd) ms"
proof -
  obtain ss w1 where enc: "kem_encap cr c (hp_x_pub pk) (hp_k_pub pk) w = (Done (ss, enc), w1)"
      and h: "key_schedule cr c ss info = Inr (sn_ctx s)" and q: "sn_seq s = 0"
    using assms(6) by (auto simp: setup_sender_def done_iffs)
  have dec: "kem_decap cr c (hk_x_priv sk) (hk_k_priv sk) enc = Inr ss"
    using kem_keypair_cases [OF assms(2-5), where c = c and w = w] enc by simp
  let ?r = "\<lparr>rv_ctx = sn_ctx s, rv_seq = 0, rv_poisoned = False\<rparr>"
  have r: "setup_receiver cr c sk enc info = Inr ?r" using dec h by (simp add: setup_receiver_def)
  have l: "length (hc_key (sn_ctx s)) = 32" "length (hc_base_nonce (sn_ctx s)) = 12"
    using key_schedule_cases [OF assms(2), of c ss info] h by simp_all
  have "fst (recv_all cr (zip (map fst ms) cts) ?r) = map (Inr \<circ> snd) ms"
    using recv_sent [OF assms(1) l _ _ _ assms(7), of ?r] q by simp
  with r show ?thesis by auto
qed

theorem session_delivers_in_order_witness:
  "\<exists>enc s w' r cts. setup_sender sample_crates ''app'' sample_hpk [1] (clean_world []) = (Done (enc, s), w')
    \<and> fst (send_all sample_crates [([7], [8, 9])] s) = map Inr cts
    \<and> setup_receiver sample_crates ''app'' sample_hsk enc [1] = Inr r
    \<and> fst (recv_all sample_crates (zip [[7]] cts) r) = [Inr [8, 9]]"
proof -
  obtain ss enc w1 where e: "kem_encap sample_crates ''app'' (hp_x_pub sample_hpk) (hp_k_pub sample_hpk) (clean_world [])
      = (Done (ss, enc), w1)"
    by (rule sample_kem_encap [OF sample_hpke_keypair]) (simp add: sample_hpk_def)
  obtain h where h: "key_schedule sample_crates ''app'' ss [1] = Inr h" by (rule sample_key_schedule)
  let ?s = "\<lparr>sn_ctx = h, sn_seq = 0\<rparr>"
  have run: "setup_sender sample_crates ''app'' sample_hpk [1] (clean_world []) = (Done (enc, ?s), w1)"
    using e h by (simp add: setup_sender_def bindM_def ret_def)
  have "length (hc_base_nonce h) = 12" using key_schedule_cases [OF sample_hkdf_ok, of "''app''" ss "[1]"] h by simp
  then obtain n where "seq_nonce (hc_base_nonce h) 0 = Inr n" using seq_nonce_ok by blast
  then have sent: "\<exists>ct. fst (send_all sample_crates [([7], [8, 9])] ?s) = map Inr [ct]"
    by (simp add: sender_seal_def encrypt_raw_def sample_crates_def checked_add_u64_def)
  then obtain ct where ct: "fst (send_all sample_crates [([7], [8, 9])] ?s) = map Inr [ct]" by blast
  show ?thesis
    using run ct session_delivers_in_order [OF sample_aead_ok sample_hkdf_ok sample_x25519_ok sample_mlkem_ok
        sample_hpke_keypair run ct] by fastforce
qed

lemma recv_poisoned:
  "rv_poisoned r \<Longrightarrow> recv_all cr cts r = (replicate (length cts) (Inl (internal_error ''hpke_session_poisoned'')), r)"
  by (induction cts) (auto simp: receiver_open_def)

text \<open>C11. A receiver fails closed: a message it refuses, for whatever reason, leaves its sequence number
  and context as they are and poisons the session, and from then on every message is refused and the
  state never changes again; an accepted message advances the sequence number by one.\<close>

theorem receiver_fails_closed:
  assumes "length (hc_base_nonce (rv_ctx r)) = 12"
  shows "case receiver_open cr aad ct r of
      (Inr m, r') \<Rightarrow> \<not> rv_poisoned r \<and> r' = r\<lparr>rv_seq := rv_seq r'\<rparr> \<and> unat (rv_seq r') = unat (rv_seq r) + 1
    | (Inl e, r') \<Rightarrow> r' = r\<lparr>rv_poisoned := True\<rparr>
        \<and> recv_all cr cts r' = (replicate (length cts) (Inl (internal_error ''hpke_session_poisoned'')), r')"
proof -
  obtain n where n: "seq_nonce (hc_base_nonce (rv_ctx r)) (rv_seq r) = Inr n" using seq_nonce_ok [OF assms] by blast
  show ?thesis
    using n next_u64 [of "rv_seq r"] recv_poisoned [of "r\<lparr>rv_poisoned := True\<rparr>" cr cts] recv_poisoned [of r cr cts]
    by (cases "decrypt_raw cr ct (hc_key (rv_ctx r)) n aad"; cases "rv_poisoned r")
       (auto simp: receiver_open_def)
qed


theorem receiver_fails_closed_witness:
  "\<exists>r'. receiver_open sample_crates [] [1]
      \<lparr>rv_ctx = \<lparr>hc_key = [], hc_base_nonce = replicate 12 0, hc_exporter_secret = []\<rparr>, rv_seq = 3, rv_poisoned = False\<rparr>
      = (Inl aead_failed, r')
    \<and> recv_all sample_crates [([], [2])] r' = ([Inl (internal_error ''hpke_session_poisoned'')], r')"
proof -
  let ?r = "\<lparr>rv_ctx = \<lparr>hc_key = [], hc_base_nonce = replicate 12 0, hc_exporter_secret = []\<rparr>, rv_seq = 3, rv_poisoned = False\<rparr>"
  have l: "length (hc_base_nonce (rv_ctx ?r)) = 12" by simp
  have "decrypt_raw sample_crates [1] [] n [] = Inl aead_failed" for n
    by (simp add: decrypt_raw_def sample_crates_def s_decrypt_def)
  then have "fst (receiver_open sample_crates [] [1] ?r) = Inl aead_failed"
    using seq_nonce_ok [OF l, of 3] by (auto simp: receiver_open_def)
  then obtain r' where run: "receiver_open sample_crates [] [1] ?r = (Inl aead_failed, r')" by (metis prod.collapse)
  show ?thesis
    using run receiver_fails_closed [OF l, where cr = sample_crates and aad = "[]" and ct = "[1]" and cts = "[([], [2])]"]
    by auto
qed

end
