(* ===== verification/Json.thy ===== *)
theory Json
  imports ByteTypes "HOL-Library.Multiset"
begin

text \<open>
  JSON documents with secret contents (\<^verbatim>\<open>src/src/secrets/json.rs\<close>).  A value is the tree of
  \<open>serde_json::Value\<close>; an object is the association list of its fields.  Parsing and the reading of
  numbers are \<open>serde_json\<close>'s and stay parameters: \<open>'n\<close> is its number type and \<open>'f\<close> the floating
  point type.  An operation on \<open>&mut self\<close> returns the value it leaves; wiping returns, besides,
  the last content of every heap buffer it gives back, in the order of giving back.

  \<^item> reading and taking: \<open>json_take_is_get_then_remove\<close> (the taking operations are the reading ones
    followed by the removal of the field, and leave the document alone on every error);
  \<^item> wiping: \<open>json_drop_wipes_everything\<close>.
\<close>

section \<open>Values\<close>

type_synonym i64 = "64 word"

datatype 'n json_value =
    JNull
  | JBool bool
  | JNumber 'n
  | JString string
  | JArray "'n json_value list"
  | JObject "(string \<times> 'n json_value) list"

record ('n, 'f) serde_json =
  json_from_str :: "string \<Rightarrow> string + 'n json_value"
  json_from_slice :: "bytes \<Rightarrow> string + 'n json_value"
  number_as_i64 :: "'n \<Rightarrow> i64 option"
  number_as_u64 :: "'n \<Rightarrow> u64 option"
  number_as_f64 :: "'n \<Rightarrow> 'f option"

fun ty_name :: "'n json_value \<Rightarrow> string" where
  "ty_name JNull = ''null''"
| "ty_name (JBool _) = ''bool''"
| "ty_name (JNumber _) = ''number''"
| "ty_name (JString _) = ''string''"
| "ty_name (JArray _) = ''array''"
| "ty_name (JObject _) = ''object''"

text \<open>The accessors of \<open>Value\<close> the code calls.\<close>

fun as_object :: "'n json_value \<Rightarrow> (string \<times> 'n json_value) list option" where
  "as_object (JObject o') = Some o'"
| "as_object _ = None"

fun as_array :: "'n json_value \<Rightarrow> 'n json_value list option" where
  "as_array (JArray a) = Some a"
| "as_array _ = None"

fun as_str :: "'n json_value \<Rightarrow> string option" where
  "as_str (JString s) = Some s"
| "as_str _ = None"

fun as_bool :: "'n json_value \<Rightarrow> bool option" where
  "as_bool (JBool b) = Some b"
| "as_bool _ = None"

fun as_number :: "('n \<Rightarrow> 'a option) \<Rightarrow> 'n json_value \<Rightarrow> 'a option" where
  "as_number f (JNumber n) = f n"
| "as_number f _ = None"

definition remove_field :: "string \<Rightarrow> (string \<times> 'n json_value) list \<Rightarrow> (string \<times> 'n json_value) list" where
  "remove_field k o' = filter (\<lambda>(k', v). k' \<noteq> k) o'"

section \<open>Parsing\<close>

definition json_err :: "string \<Rightarrow> lithium_error" where
  "json_err text = json_parse (OtherSource text)"

definition json_new_from_str :: "('n, 'f) serde_json \<Rightarrow> string \<Rightarrow> 'n json_value result" where
  "json_new_from_str sj s = map_err json_err (json_from_str sj s)"

text \<open>The variants that own their input also return what they leave in its buffer.\<close>

definition json_new_from_string :: "('n, 'f) serde_json \<Rightarrow> string \<Rightarrow> 'n json_value result \<times> bytes" where
  "json_new_from_string sj s = (case json_from_str sj s of
     Inr v \<Rightarrow> (Inr v, zeroize (as_bytes s))
   | Inl e \<Rightarrow> (Inl (json_err e), zeroize (as_bytes s)))"

definition str_from_utf8 :: "bytes \<Rightarrow> string result" where
  "str_from_utf8 bs = (case utf8_error 0 bs of
     Some e \<Rightarrow> Inl (with_source string_policy (OtherSource (utf8_error_text e)))
   | None \<Rightarrow> Inr (map (\<lambda>b. char_of (unat b)) bs))"

definition json_new_from_bytes :: "('n, 'f) serde_json \<Rightarrow> bytes \<Rightarrow> 'n json_value result" where
  "json_new_from_bytes sj bs = rbind (str_from_utf8 bs) (json_new_from_str sj)"

definition json_new_from_vec :: "('n, 'f) serde_json \<Rightarrow> bytes \<Rightarrow> 'n json_value result \<times> bytes" where
  "json_new_from_vec sj bs = (case str_from_utf8 bs of
     Inl e \<Rightarrow> (Inl e, zeroize bs)
   | Inr s \<Rightarrow> json_new_from_string sj s)"

text \<open>A \<open>Zeroizing\<close> input is wiped by its own destructor when the function returns.\<close>

definition json_new_from_zeroizing_vec :: "('n, 'f) serde_json \<Rightarrow> bytes \<Rightarrow> 'n json_value result \<times> bytes" where
  "json_new_from_zeroizing_vec sj bs = (rbind (str_from_utf8 bs) (json_new_from_str sj), zeroize bs)"

definition json_new_from_zeroizing_vec_no_raw ::
    "('n, 'f) serde_json \<Rightarrow> bytes \<Rightarrow> 'n json_value result \<times> bytes" where
  "json_new_from_zeroizing_vec_no_raw sj bs = (map_err json_err (json_from_slice sj bs), zeroize bs)"

section \<open>Reading\<close>

definition json_obj :: "'n json_value \<Rightarrow> (string \<times> 'n json_value) list result" where
  "json_obj v = ok_or json_not_object (as_object v)"

definition json_get_string :: "string \<Rightarrow> 'n json_value \<Rightarrow> string result" where
  "json_get_string key v =
     rbind (json_obj v) (\<lambda>o'.
     rbind (ok_or (json_missing_field key) (map_of o' key)) (\<lambda>x. case x of
       JString s \<Rightarrow> Inr s
     | other \<Rightarrow> Inl (json_type_mismatch key (ty_name other))))"

definition json_get_integer :: "('n, 'f) serde_json \<Rightarrow> string \<Rightarrow> 'n json_value \<Rightarrow> i64 result" where
  "json_get_integer sj key v =
     rbind (json_obj v) (\<lambda>o'.
     rbind (ok_or (json_missing_field key) (map_of o' key)) (\<lambda>x. case as_number (number_as_i64 sj) x of
       Some i \<Rightarrow> Inr i
     | None \<Rightarrow> Inl (json_type_mismatch key (ty_name x))))"

definition json_get_bool :: "string \<Rightarrow> 'n json_value \<Rightarrow> bool result" where
  "json_get_bool key v =
     rbind (json_obj v) (\<lambda>o'.
     rbind (ok_or (json_missing_field key) (map_of o' key)) (\<lambda>x.
     ok_or (json_type_mismatch key (ty_name x)) (as_bool x)))"

definition json_get_array :: "string \<Rightarrow> 'n json_value \<Rightarrow> 'n json_value list result" where
  "json_get_array key v =
     rbind (json_obj v) (\<lambda>o'.
     rbind (ok_or (json_missing_field key) (map_of o' key)) (\<lambda>x. case as_array x of
       Some a \<Rightarrow> Inr a
     | None \<Rightarrow> Inl (json_type_mismatch key (ty_name x))))"

definition json_get_object :: "string \<Rightarrow> 'n json_value \<Rightarrow> 'n json_value result" where
  "json_get_object key v =
     rbind (json_obj v) (\<lambda>o'.
     rbind (ok_or (json_missing_field key) (map_of o' key)) (\<lambda>x. case as_object x of
       Some o'' \<Rightarrow> Inr (JObject o'')
     | None \<Rightarrow> Inl (json_type_mismatch key (ty_name x))))"

section \<open>Taking\<close>

definition ensure_takeable :: "string \<Rightarrow> ('n json_value \<Rightarrow> bool) \<Rightarrow> 'n json_value \<Rightarrow> unit result" where
  "ensure_takeable key matches v =
     rbind (json_obj v) (\<lambda>o'. case map_of o' key of
       Some x \<Rightarrow> if matches x then Inr () else Inl (json_type_mismatch key (ty_name x))
     | None \<Rightarrow> Inl (json_missing_field key))"

text \<open>\<open>self.obj_mut()?.remove(key)\<close>: the removed value, if any, and the document left.\<close>

definition obj_remove :: "string \<Rightarrow> 'n json_value \<Rightarrow> 'n json_value option result \<times> 'n json_value" where
  "obj_remove key v = (case json_obj v of
     Inl e \<Rightarrow> (Inl e, v)
   | Inr o' \<Rightarrow> (Inr (map_of o' key), JObject (remove_field key o')))"

definition json_take_string :: "string \<Rightarrow> 'n json_value \<Rightarrow> string result \<times> 'n json_value" where
  "json_take_string key v = (case ensure_takeable key (\<lambda>x. as_str x \<noteq> None) v of
     Inl e \<Rightarrow> (Inl e, v)
   | Inr _ \<Rightarrow> (case obj_remove key v of
       (Inl e, v') \<Rightarrow> (Inl e, v')
     | (Inr (Some (JString s)), v') \<Rightarrow> (Inr s, v')
     | (Inr _, v') \<Rightarrow> (Inl (json_missing_field key), v')))"

definition json_take_bool :: "string \<Rightarrow> 'n json_value \<Rightarrow> bool result \<times> 'n json_value" where
  "json_take_bool key v = (case ensure_takeable key (\<lambda>x. as_bool x \<noteq> None) v of
     Inl e \<Rightarrow> (Inl e, v)
   | Inr _ \<Rightarrow> (case obj_remove key v of
       (Inl e, v') \<Rightarrow> (Inl e, v')
     | (Inr (Some (JBool b)), v') \<Rightarrow> (Inr b, v')
     | (Inr _, v') \<Rightarrow> (Inl (json_missing_field key), v')))"

text \<open>The three number takers share their shape; \<open>f\<close> is the accessor of the number.\<close>

definition json_take_number :: "('n \<Rightarrow> 'a option) \<Rightarrow> string \<Rightarrow> 'n json_value \<Rightarrow> 'a result \<times> 'n json_value" where
  "json_take_number f key v = (case ensure_takeable key (\<lambda>x. as_number f x \<noteq> None) v of
     Inl e \<Rightarrow> (Inl e, v)
   | Inr _ \<Rightarrow> (case obj_remove key v of
       (Inl e, v') \<Rightarrow> (Inl e, v')
     | (Inr (Some (JNumber n)), v') \<Rightarrow> (ok_or (json_type_mismatch key ''number'') (f n), v')
     | (Inr _, v') \<Rightarrow> (Inl (json_missing_field key), v')))"

definition json_take_i64 :: "('n, 'f) serde_json \<Rightarrow> string \<Rightarrow> 'n json_value \<Rightarrow> i64 result \<times> 'n json_value" where
  "json_take_i64 sj = json_take_number (number_as_i64 sj)"

definition json_take_u64 :: "('n, 'f) serde_json \<Rightarrow> string \<Rightarrow> 'n json_value \<Rightarrow> u64 result \<times> 'n json_value" where
  "json_take_u64 sj = json_take_number (number_as_u64 sj)"

definition json_take_f64 :: "('n, 'f) serde_json \<Rightarrow> string \<Rightarrow> 'n json_value \<Rightarrow> 'f result \<times> 'n json_value" where
  "json_take_f64 sj = json_take_number (number_as_f64 sj)"

definition json_take_array :: "string \<Rightarrow> 'n json_value \<Rightarrow> 'n json_value list result \<times> 'n json_value" where
  "json_take_array key v = (case ensure_takeable key (\<lambda>x. as_array x \<noteq> None) v of
     Inl e \<Rightarrow> (Inl e, v)
   | Inr _ \<Rightarrow> (case obj_remove key v of
       (Inl e, v') \<Rightarrow> (Inl e, v')
     | (Inr (Some (JArray a)), v') \<Rightarrow> (Inr a, v')
     | (Inr _, v') \<Rightarrow> (Inl (json_missing_field key), v')))"

definition json_take_object :: "string \<Rightarrow> 'n json_value \<Rightarrow> 'n json_value result \<times> 'n json_value" where
  "json_take_object key v = (case ensure_takeable key (\<lambda>x. as_object x \<noteq> None) v of
     Inl e \<Rightarrow> (Inl e, v)
   | Inr _ \<Rightarrow> (case obj_remove key v of
       (Inl e, v') \<Rightarrow> (Inl e, v')
     | (Inr (Some (JObject o')), v') \<Rightarrow> (Inr (JObject o'), v')
     | (Inr _, v') \<Rightarrow> (Inl (json_missing_field key), v')))"

section \<open>Wiping\<close>

text \<open>The buffers a plain drop of the value gives back: the text of every string and key in it.\<close>

definition give_back :: "bytes \<Rightarrow> bytes list" where
  "give_back bs = (if bs = [] then [] else [bs])"

fun drop_value :: "'n json_value \<Rightarrow> bytes list" where
  "drop_value (JString s) = give_back (as_bytes s)"
| "drop_value (JArray arr) = concat (map drop_value arr)"
| "drop_value (JObject o') = concat (map (\<lambda>kv. give_back (as_bytes (fst kv)) @ drop_value (snd kv)) o')"
| "drop_value _ = []"

text \<open>
  \<open>zeroize_value\<close>: what is left of the value, and the buffers given back.  A string is overwritten
  with zeros before its buffer goes.  The elements of an array are wiped in place, then dropped; of an
  object, the fields are moved out and each value is wiped and dropped before its key is wiped.
\<close>

fun zeroize_value :: "'n json_value \<Rightarrow> 'n json_value \<times> bytes list" where
  "zeroize_value (JString s) = (JString [], give_back (zeroize (as_bytes s)))"
| "zeroize_value (JArray arr) =
     (let wiped = map zeroize_value arr in
      (JArray [], concat (map snd wiped) @ concat (map (drop_value \<circ> fst) wiped)))"
| "zeroize_value (JObject o') =
     (JObject [], concat (map (\<lambda>kv. case zeroize_value (snd kv) of (v, bufs) \<Rightarrow>
        bufs @ drop_value v @ give_back (zeroize (as_bytes (fst kv)))) o'))"
| "zeroize_value (JNumber _) = (JNull, [])"
| "zeroize_value (JBool b) = (JBool b, [])"
| "zeroize_value JNull = (JNull, [])"

text \<open>The destructor of \<open>SecretJson\<close>: the wipe, then the drop of what it leaves.\<close>

definition secret_json_drop :: "'n json_value \<Rightarrow> bytes list" where
  "secret_json_drop v = (case zeroize_value v of (v', bufs) \<Rightarrow> bufs @ drop_value v')"

definition json_display :: "'n json_value \<Rightarrow> string" where
  "json_display v = ''<redacted>''"

definition json_debug :: "'n json_value \<Rightarrow> string" where
  "json_debug v = ''SecretJson(<redacted>)''"

section \<open>The contract of a field\<close>

lemma remove_field_same [simp]: "map_of (remove_field k o') k = None"
  by (auto simp: remove_field_def map_of_eq_None_iff)

lemma remove_field_other: "k \<noteq> j \<Longrightarrow> map_of (remove_field k o') j = map_of o' j"
  by (induction o') (auto simp: remove_field_def)

lemma remove_field_commute: "remove_field k (remove_field j o') = remove_field j (remove_field k o')"
  by (auto simp: remove_field_def intro: filter_cong)

text \<open>
  One kind of field: the selector \<open>sel\<close> reads the Rust value out of a JSON value of the right kind,
  \<open>take\<close> moves a field out of a document.
\<close>

locale json_field =
  fixes sel :: "'n json_value \<Rightarrow> 'a option"
    and taken :: "string \<Rightarrow> 'n json_value \<Rightarrow> 'a result \<times> 'n json_value"
  assumes taken_spec: "taken key v = (case as_object v of
      None \<Rightarrow> (Inl json_not_object, v)
    | Some o' \<Rightarrow> (case map_of o' key of
        None \<Rightarrow> (Inl (json_missing_field key), v)
      | Some x \<Rightarrow> (case sel x of
          None \<Rightarrow> (Inl (json_type_mismatch key (ty_name x)), v)
        | Some a \<Rightarrow> (Inr a, JObject (remove_field key o')))))"
begin

lemma error_leaves_document: "taken key v = (Inl e, v') \<Longrightarrow> v' = v"
  by (auto simp: taken_spec split: option.splits)

lemma taken_once: "taken key v = (Inr a, v') \<Longrightarrow> taken key v' = (Inl (json_missing_field key), v')"
  by (auto simp: taken_spec split: option.splits)

lemma takes_of_two_fields_commute:
  assumes "k \<noteq> k'" and "taken k v = (Inr a, v1)" and "taken k' v = (Inr b, v2)"
  shows "\<exists>v3. taken k' v1 = (Inr b, v3) \<and> taken k v2 = (Inr a, v3)"
  using assms by (auto simp: taken_spec remove_field_other remove_field_commute split: option.splits)

end

lemmas json_take_defs = json_take_string_def json_take_bool_def json_take_number_def json_take_array_def
  json_take_object_def ensure_takeable_def obj_remove_def json_obj_def

lemma as_number_Some: "as_number f x = Some a \<longleftrightarrow> (\<exists>n. x = JNumber n \<and> f n = Some a)"
  by (cases x) auto

lemma as_object_Some [simp]: "as_object v = Some o' \<longleftrightarrow> v = JObject o'"
  by (cases v) auto

interpretation str_field: json_field as_str json_take_string
  by unfold_locales (auto simp: json_take_defs split: option.splits json_value.splits)

interpretation bool_field: json_field as_bool json_take_bool
  by unfold_locales (auto simp: json_take_defs split: option.splits json_value.splits)

interpretation num_field: json_field "as_number f" "json_take_number f" for f
  by unfold_locales (auto simp: json_take_defs as_number_Some split: option.splits json_value.splits)

interpretation arr_field: json_field as_array json_take_array
  by unfold_locales (auto simp: json_take_defs split: option.splits json_value.splits)

interpretation obj_field: json_field "\<lambda>x. map_option JObject (as_object x)" json_take_object
  by unfold_locales (auto simp: json_take_defs split: option.splits json_value.splits)

section \<open>Properties\<close>

text \<open>The document without the field.\<close>

fun without_field :: "string \<Rightarrow> 'n json_value \<Rightarrow> 'n json_value" where
  "without_field key (JObject o') = JObject (remove_field key o')"
| "without_field key v = v"

definition then_remove :: "string \<Rightarrow> 'n json_value \<Rightarrow> 'a result \<Rightarrow> 'a result \<times> 'n json_value" where
  "then_remove key v r = (r, case r of Inl e \<Rightarrow> v | Inr a \<Rightarrow> without_field key v)"

lemmas json_get_defs = json_get_string_def json_get_integer_def json_get_bool_def json_get_array_def
  json_get_object_def json_obj_def then_remove_def

text \<open>C34. Taking a field is reading it and, when that succeeds, removing it: both give the same value or
  the same error (not an object, missing field, other kind), a document is unchanged by every error,
  and a field that was taken is missing afterwards while the others still read the same.\<close>

theorem json_take_is_get_then_remove:
  "json_take_string key v = then_remove key v (json_get_string key v)
   \<and> json_take_bool key v = then_remove key v (json_get_bool key v)
   \<and> json_take_i64 sj key v = then_remove key v (json_get_integer sj key v)
   \<and> json_take_array key v = then_remove key v (json_get_array key v)
   \<and> json_take_object key v = then_remove key v (json_get_object key v)
   \<and> json_get_string key (without_field key v) =
       (case v of JObject _ \<Rightarrow> Inl (json_missing_field key) | _ \<Rightarrow> Inl json_not_object)
   \<and> (key \<noteq> other \<longrightarrow> json_get_string other (without_field key v) = json_get_string other v
       \<and> json_get_object other (without_field key v) = json_get_object other v)"
  unfolding json_take_i64_def str_field.taken_spec bool_field.taken_spec num_field.taken_spec
    arr_field.taken_spec obj_field.taken_spec
  by (cases v) (auto simp: json_get_defs remove_field_other split: option.splits json_value.splits)

definition nat_serde :: "(nat, unit) serde_json" where
  "nat_serde = \<lparr>json_from_str = (\<lambda>s. Inl ''no parser''), json_from_slice = (\<lambda>s. Inl ''no parser''),
     number_as_i64 = (\<lambda>n. if n < 2 ^ 63 then Some (of_nat n) else None),
     number_as_u64 = (\<lambda>n. if n < 2 ^ 64 then Some (of_nat n) else None), number_as_f64 = (\<lambda>n. Some ())\<rparr>"

theorem json_take_is_get_then_remove_witness:
  "json_take_string ''pw'' (JObject [(''user'', JBool True), (''pw'', JString ''x'')])
     = (Inr ''x'', JObject [(''user'', JBool True)] :: nat json_value)
   \<and> json_get_string ''n'' (without_field ''pw'' (JObject [(''n'', JString ''y''), (''pw'', JString ''x'' :: nat json_value)])) = Inr ''y''"
  using json_take_is_get_then_remove [where key = "''pw''" and other = "''n''" and sj = nat_serde
      and v = "JObject [(''n'', JString ''y''), (''pw'', JString ''x'' :: nat json_value)]"]
    json_take_is_get_then_remove [where key = "''pw''" and other = "''n''" and sj = nat_serde
      and v = "JObject [(''user'', JBool True), (''pw'', JString ''x'' :: nat json_value)]"]
  by (simp add: json_get_defs remove_field_def)

lemma give_back_zeroize: "image_mset length (mset (give_back (zeroize bs))) = image_mset length (mset (give_back bs))"
  "b \<in> set (give_back (zeroize bs)) \<Longrightarrow> set b \<subseteq> {0}"
  by (auto simp: give_back_def zeroize_def split: if_splits)

text \<open>C29. When a secret document is dropped, every buffer that held text in it, keys included and at
  any depth, goes back to the allocator as zeros, each of them exactly once, and nothing that is
  left of the value holds text.\<close>

theorem json_drop_wipes_everything:
  "(\<forall>b\<in>set (secret_json_drop v). set b \<subseteq> {0})
   \<and> mset (map length (secret_json_drop v)) = mset (map length (drop_value v))
   \<and> drop_value (fst (zeroize_value v)) = []"
proof -
  have empty: "drop_value (fst (zeroize_value v)) = []" for v :: "'a json_value"
    by (cases v) (simp_all add: give_back_def Let_def)
  have zero: "\<forall>b\<in>set (snd (zeroize_value v)). set b \<subseteq> {0}"
    by (induction v rule: zeroize_value.induct)
       (fastforce simp: Let_def empty case_prod_beta dest: give_back_zeroize(2))+
  have count: "mset (map length (snd (zeroize_value v))) = mset (map length (drop_value v))"
  proof (induction v rule: zeroize_value.induct)
    case (2 arr)
    then show ?case by (induction arr) (simp_all add: Let_def empty comp_def)
  next
    case (3 o')
    then show ?case by (induction o') (simp_all add: case_prod_beta empty give_back_zeroize)
  qed (simp_all add: give_back_zeroize)
  show ?thesis using zero count by (simp add: secret_json_drop_def case_prod_beta empty)
qed

theorem json_drop_wipes_everything_witness:
  "secret_json_drop (JObject [(''ab'', JArray [JString ''xyz'', JNumber (7::nat)])]) = [[0, 0, 0], [0, 0]]
   \<and> set (secret_json_drop (JObject [(''ab'', JString ''xyz''), (''c'', JNumber (7::nat))])) \<subseteq> {b. set b \<subseteq> {0}}"
  using json_drop_wipes_everything [of "JObject [(''ab'', JString ''xyz''), (''c'', JNumber (7::nat))]"]
  by (auto simp: secret_json_drop_def give_back_def zeroize_def as_bytes_def)

end
