(* ===== verification/Opaque.thy ===== *)
theory Opaque
  imports Primitives
begin

text \<open>
  Password-authenticated key exchange (\<^verbatim>\<open>src/src/opaque\<close>) and the data-encryption key wrapped under
  its export key (\<^verbatim>\<open>src/src/opaque/dek.rs\<close>, \<^verbatim>\<open>src/src/passwords/passwords.rs\<close>).  The protocol is the
  \<open>opaque-ke\<close> package's and stays a parameter, as do its values: \<open>'v\<close> is the type of messages, states,
  records and keys.  The bytes the package draws from the operating system are the argument
  \<open>coins\<close>.  Modelled are the crate's own steps: parsing of every message, identifiers, the key-stretching
  parameters, the size of the export key, the mapping of errors, and the wrapping.

  \<^item> \<open>dek_wrap_roundtrip\<close>: wrapping and unwrapping;
  \<^item> \<open>opaque_login_recovers_dek\<close>: registration, wrapping, login and unwrapping together.
\<close>

section \<open>Wrapping a key under the export key\<close>

definition DEK_WRAP_VER :: u8 where
  "DEK_WRAP_VER = 1"

definition generate_dek :: "('p world, bytes) leff" where
  "generate_dek = random_fixed 32"

definition dek_ctx :: "string result" where
  "dek_ctx = rbind (ctx_base ''lithium'') (\<lambda>c. rbind (ctx_add c ''opaque'') (\<lambda>c. ctx_add c ''dek-wrap''))"

definition wrap_key :: "crates \<Rightarrow> bytes \<Rightarrow> bytes \<Rightarrow> bytes result" where
  "wrap_key cr export_key aad = rbind dek_ctx (\<lambda>c. derive32 cr export_key None c aad)"

definition wrap_dek_under_export_key :: "crates \<Rightarrow> bytes \<Rightarrow> bytes \<Rightarrow> bytes \<Rightarrow> ('p world, string) leff" where
  "wrap_dek_under_export_key cr dek export_key aad =
     bindM (liftR (wrap_key cr export_key aad)) (\<lambda>key.
     bindM (liftR dek_ctx) (\<lambda>c.
     bindM (aead_encrypt cr dek key c aad) (\<lambda>blob.
     ret (hex_encode cr (DEK_WRAP_VER # blob)))))"

text \<open>\<open>str::trim\<close>: the white space of Unicode, as the UTF-8 sequences of a \<open>str\<close>.\<close>

definition white_space :: "string list" where
  "white_space = [
     [CHR 0x09], [CHR 0x0A], [CHR 0x0B], [CHR 0x0C], [CHR 0x0D], [CHR 0x20], [CHR 0xC2, CHR 0x85], [CHR 0xC2,
     CHR 0xA0], [CHR 0xE1, CHR 0x9A, CHR 0x80], [CHR 0xE2, CHR 0x80, CHR 0x80], [CHR 0xE2, CHR 0x80, CHR
     0x81], [CHR 0xE2, CHR 0x80, CHR 0x82], [CHR 0xE2, CHR 0x80, CHR 0x83], [CHR 0xE2, CHR 0x80, CHR 0x84],
     [CHR 0xE2, CHR 0x80, CHR 0x85], [CHR 0xE2, CHR 0x80, CHR 0x86], [CHR 0xE2, CHR 0x80, CHR 0x87], [CHR
     0xE2, CHR 0x80, CHR 0x88], [CHR 0xE2, CHR 0x80, CHR 0x89], [CHR 0xE2, CHR 0x80, CHR 0x8A], [CHR 0xE2, CHR
     0x80, CHR 0xA8], [CHR 0xE2, CHR 0x80, CHR 0xA9], [CHR 0xE2, CHR 0x80, CHR 0xAF], [CHR 0xE2, CHR 0x81, CHR
     0x9F], [CHR 0xE3, CHR 0x80, CHR 0x80]]"

function strip_seqs :: "string list \<Rightarrow> string \<Rightarrow> string" where
  "strip_seqs qs s = (case find (\<lambda>q. q \<noteq> [] \<and> starts_with s q) qs of
     None \<Rightarrow> s
   | Some q \<Rightarrow> strip_seqs qs (drop (length q) s))"
  by pat_completeness auto
termination
proof (relation "measure (\<lambda>(qs, s). length s)")
  fix qs :: "string list" and s q
  assume "find (\<lambda>q. q \<noteq> [] \<and> starts_with s q) qs = Some q"
  then have "q \<noteq> []" and "starts_with s q" by (auto simp: find_Some_iff)
  then have "s \<noteq> []" by (cases q) auto
  with \<open>q \<noteq> []\<close> show "((qs, drop (length q) s), qs, s) \<in> measure (\<lambda>(qs, s). length s)" by simp
qed simp

declare strip_seqs.simps [simp del]

definition str_trim :: "string \<Rightarrow> string" where
  "str_trim s = rev (strip_seqs (map rev white_space) (rev (strip_seqs white_space s)))"

definition unwrap_dek_under_export_key :: "crates \<Rightarrow> string \<Rightarrow> bytes \<Rightarrow> bytes \<Rightarrow> bytes result" where
  "unwrap_dek_under_export_key cr blob_hex export_key aad =
     rbind (sec_bytes_from_hex cr (str_trim blob_hex)) (\<lambda>blob.
     if length blob < 1 + 1 + 12 + 16 then Inl (invalid_credentials ''bad_dek_blob'')
     else if blob ! 0 \<noteq> DEK_WRAP_VER then Inl (invalid_credentials ''bad_dek_blob'')
     else rbind (wrap_key cr export_key aad) (\<lambda>key.
       rbind dek_ctx (\<lambda>c.
       rbind (aead_decrypt cr (drop 1 blob) key c aad) (sec_fixed_from_slice 32))))"

section \<open>The package\<close>

datatype wire_kind = RegistrationRequest | RegistrationResponse | RegistrationUpload | CredentialRequest
  | CredentialResponse | CredentialFinalization | RegistrationRecord | ServerLoginState | ServerSetupValue

type_synonym identifiers = "bytes option \<times> bytes option"

record 'v opaque_ke =
  serialize :: "wire_kind \<Rightarrow> 'v \<Rightarrow> bytes"
  deserialize :: "wire_kind \<Rightarrow> bytes \<Rightarrow> 'v option"
  ke_registration_start :: "bytes \<Rightarrow> bytes \<Rightarrow> ('v \<times> 'v) option"
  ke_registration_finish :: "'v \<Rightarrow> bytes \<Rightarrow> bytes \<Rightarrow> 'v \<Rightarrow> identifiers \<Rightarrow> argon2_params \<Rightarrow> ('v \<times> bytes) option"
  ke_login_start :: "bytes \<Rightarrow> bytes \<Rightarrow> ('v \<times> 'v) option"
  ke_login_finish :: "'v \<Rightarrow> bytes \<Rightarrow> bytes \<Rightarrow> 'v \<Rightarrow> bytes option \<Rightarrow> identifiers \<Rightarrow> argon2_params \<Rightarrow> ('v \<times> bytes) option"
  ke_setup_new :: "bytes \<Rightarrow> 'v"
  ke_server_registration_start :: "'v \<Rightarrow> 'v \<Rightarrow> bytes \<Rightarrow> 'v option"
  ke_server_registration_finish :: "'v \<Rightarrow> 'v"
  ke_server_login_start :: "bytes \<Rightarrow> 'v \<Rightarrow> 'v option \<Rightarrow> 'v \<Rightarrow> bytes \<Rightarrow> bytes option \<Rightarrow> identifiers \<Rightarrow> ('v \<times> 'v) option"
  ke_server_login_finish :: "'v \<Rightarrow> 'v \<Rightarrow> bytes option \<Rightarrow> identifiers \<Rightarrow> bool"

text \<open>
  What is relied on: a value survives its encoding, and in an honest login, with the password,
  identifiers, credential identifier and stretching parameters of the registration, the client
  finishes with the export key of the registration, of 64 bytes, and the server accepts.
\<close>

definition opaque_ok :: "'v opaque_ke \<Rightarrow> bool" where
  "opaque_ok k \<longleftrightarrow>
     (\<forall>kind v. deserialize k kind (serialize k kind v) = Some v)
   \<and> (\<forall>r1 r2 r3 r4 r5 pw setup cid ids ksf ctx req rst resp up ek creq lst cresp sst.
        ke_registration_start k r1 pw = Some (req, rst)
      \<and> ke_server_registration_start k setup req cid = Some resp
      \<and> ke_registration_finish k rst r2 pw resp ids ksf = Some (up, ek)
      \<and> ke_login_start k r3 pw = Some (creq, lst)
      \<and> ke_server_login_start k r4 setup (Some (ke_server_registration_finish k up)) creq cid ctx ids = Some (cresp, sst)
      \<longrightarrow> length ek = 64 \<and> (\<exists>fin. ke_login_finish k lst r5 pw cresp ctx ids ksf = Some (fin, ek)
            \<and> ke_server_login_finish k sst fin ctx ids))"

section \<open>The client\<close>

definition opaque_ids :: "bytes \<Rightarrow> bytes \<Rightarrow> identifiers" where
  "opaque_ids handler server_id = (Some handler, Some server_id)"

definition opaque_ksf :: "crates \<Rightarrow> argon2_params \<Rightarrow> argon2_params result" where
  "opaque_ksf cr params = argon2_to_params cr params None"

definition client_registration_start :: "'v opaque_ke \<Rightarrow> bytes \<Rightarrow> string \<Rightarrow> (bytes \<times> 'v) result" where
  "client_registration_start k coins password =
     rbind (ok_or (internal_error ''opaque_registration_start'') (ke_registration_start k coins (as_bytes password)))
       (\<lambda>(message, state). Inr (serialize k RegistrationRequest message, state))"

definition client_registration_finish ::
    "crates \<Rightarrow> 'v opaque_ke \<Rightarrow> 'v \<Rightarrow> bytes \<Rightarrow> bytes \<Rightarrow> string \<Rightarrow> bytes \<Rightarrow> bytes \<Rightarrow> argon2_params \<Rightarrow> (bytes \<times> bytes) result" where
  "client_registration_finish cr k state coins response_bytes password handler server_id ksf_params =
     rbind (ok_or (invalid_credentials ''bad_opaque_message'') (deserialize k RegistrationResponse response_bytes)) (\<lambda>response.
     rbind (opaque_ksf cr ksf_params) (\<lambda>ksf.
     rbind (ok_or (opaque_protocol ''opaque_registration_finish'')
         (ke_registration_finish k state coins (as_bytes password) response (opaque_ids handler server_id) ksf)) (\<lambda>(message, export_key).
     rbind (sec_fixed_from_slice 64 export_key) (\<lambda>export_key.
     Inr (serialize k RegistrationUpload message, export_key)))))"

definition client_login_start :: "'v opaque_ke \<Rightarrow> bytes \<Rightarrow> string \<Rightarrow> (bytes \<times> 'v) result" where
  "client_login_start k coins password =
     rbind (ok_or (internal_error ''opaque_login_start'') (ke_login_start k coins (as_bytes password)))
       (\<lambda>(message, state). Inr (serialize k CredentialRequest message, state))"

definition client_login_finish ::
    "crates \<Rightarrow> 'v opaque_ke \<Rightarrow> 'v \<Rightarrow> bytes \<Rightarrow> bytes \<Rightarrow> string \<Rightarrow> bytes \<Rightarrow> bytes \<Rightarrow> bytes option \<Rightarrow> argon2_params
     \<Rightarrow> (bytes \<times> bytes) result" where
  "client_login_finish cr k state coins response_bytes password handler server_id ctx ksf_params =
     rbind (ok_or (invalid_credentials ''bad_opaque_message'') (deserialize k CredentialResponse response_bytes)) (\<lambda>response.
     rbind (opaque_ksf cr ksf_params) (\<lambda>ksf.
     rbind (ok_or (invalid_credentials ''opaque_login_failed'')
         (ke_login_finish k state coins (as_bytes password) response ctx (opaque_ids handler server_id) ksf)) (\<lambda>(message, export_key).
     rbind (sec_fixed_from_slice 64 export_key) (\<lambda>export_key.
     Inr (serialize k CredentialFinalization message, export_key)))))"

section \<open>The server\<close>

definition setup_generate :: "'v opaque_ke \<Rightarrow> bytes \<Rightarrow> 'v" where
  "setup_generate k coins = ke_setup_new k coins"

definition setup_serialize :: "'v opaque_ke \<Rightarrow> 'v \<Rightarrow> bytes" where
  "setup_serialize k setup = serialize k ServerSetupValue setup"

definition setup_deserialize :: "'v opaque_ke \<Rightarrow> bytes \<Rightarrow> 'v result" where
  "setup_deserialize k bs = ok_or (malformed_input ''opaque_server_setup'') (deserialize k ServerSetupValue bs)"

definition bad_message :: lithium_error where
  "bad_message = invalid_credentials ''bad_opaque_message''"

definition server_registration_start :: "'v opaque_ke \<Rightarrow> 'v \<Rightarrow> bytes \<Rightarrow> bytes \<Rightarrow> bytes result" where
  "server_registration_start k setup request_bytes credential_identifier =
     rbind (ok_or bad_message (deserialize k RegistrationRequest request_bytes)) (\<lambda>request.
     rbind (ok_or (opaque_protocol ''opaque_registration_start'')
         (ke_server_registration_start k setup request credential_identifier)) (\<lambda>message.
     Inr (serialize k RegistrationResponse message)))"

definition server_registration_finish :: "'v opaque_ke \<Rightarrow> bytes \<Rightarrow> bytes result" where
  "server_registration_finish k upload_bytes =
     rbind (ok_or bad_message (deserialize k RegistrationUpload upload_bytes)) (\<lambda>upload.
     Inr (serialize k RegistrationRecord (ke_server_registration_finish k upload)))"

definition server_login_start ::
    "'v opaque_ke \<Rightarrow> bytes \<Rightarrow> 'v \<Rightarrow> bytes option \<Rightarrow> bytes \<Rightarrow> bytes \<Rightarrow> bytes \<Rightarrow> bytes \<Rightarrow> bytes option \<Rightarrow> (bytes \<times> bytes) result" where
  "server_login_start k coins setup record_bytes request_bytes credential_identifier handler server_id ctx =
     rbind (case record_bytes of
         Some bs \<Rightarrow> map_err (\<lambda>_. malformed_input ''opaque_record'')
             (rbind (ok_or () (deserialize k RegistrationRecord bs)) (\<lambda>r. Inr (Some r)))
       | None \<Rightarrow> Inr None) (\<lambda>rec.
     rbind (ok_or bad_message (deserialize k CredentialRequest request_bytes)) (\<lambda>request.
     rbind (ok_or (opaque_protocol ''opaque_login_start'')
         (ke_server_login_start k coins setup rec request credential_identifier ctx (opaque_ids handler server_id)))
       (\<lambda>(message, state).
     Inr (serialize k CredentialResponse message, serialize k ServerLoginState state))))"

definition server_login_finish ::
    "'v opaque_ke \<Rightarrow> bytes \<Rightarrow> bytes \<Rightarrow> bytes \<Rightarrow> bytes \<Rightarrow> bytes option \<Rightarrow> unit result" where
  "server_login_finish k state_bytes finalization_bytes handler server_id ctx =
     rbind (ok_or (malformed_input ''opaque_login_state'') (deserialize k ServerLoginState state_bytes)) (\<lambda>state.
     rbind (ok_or bad_message (deserialize k CredentialFinalization finalization_bytes)) (\<lambda>finalization.
     if ke_server_login_finish k state finalization ctx (opaque_ids handler server_id) then Inr ()
     else Inl (invalid_credentials ''opaque_login_failed'')))"

section \<open>Trimming\<close>

lemma starts_with_prefix [simp]: "starts_with s p \<longleftrightarrow> prefix p s"
  by (induction s p rule: starts_with.induct) auto

lemma strip_seqs_stops: "\<forall>q\<in>set qs. \<not> prefix q s \<Longrightarrow> strip_seqs qs s = s"
  by (subst strip_seqs.simps) (auto simp: find_None_iff split: option.splits dest: find_Some_iff [THEN iffD1])

lemma strip_seqs_all:
  assumes "\<forall>q\<in>set qs. \<forall>r\<in>set qs. prefix q r \<longrightarrow> q = r" and "[] \<notin> set qs"
    and "\<forall>q\<in>set qs. \<not> prefix q s" and "set ps \<subseteq> set qs"
  shows "strip_seqs qs (concat ps @ s) = s"
  using assms(4)
proof (induction ps)
  case Nil
  then show ?case using strip_seqs_stops [OF assms(3)] by simp
next
  case (Cons p ps)
  let ?t = "p @ concat ps @ s"
  have p: "p \<in> set qs" "p \<noteq> []" using Cons.prems assms(2) by auto
  obtain q where q: "find (\<lambda>q. q \<noteq> [] \<and> prefix q ?t) qs = Some q"
    using p by (cases "find (\<lambda>q. q \<noteq> [] \<and> prefix q ?t) qs") (auto simp: find_None_iff)
  then have "q \<in> set qs" "prefix q ?t" by (auto simp: find_Some_iff)
  then have "q = p" using prefix_same_cases [of q ?t p] assms(1) p(1) by auto
  then show ?case using Cons q by (simp add: strip_seqs.simps [of qs ?t])
qed

lemma prefix_hd: "prefix q t \<Longrightarrow> q \<noteq> [] \<Longrightarrow> hd t = hd q"
  by (cases q) (auto simp: prefix_def)

lemma trim_padded:
  assumes "\<forall>q\<in>set qs. \<forall>r\<in>set qs. prefix q r \<longrightarrow> q = r"
    and "\<forall>q\<in>set qs. \<forall>r\<in>set qs. prefix (rev q) (rev r) \<longrightarrow> q = r"
    and "\<forall>q\<in>set qs. q \<noteq> [] \<and> hd q \<notin> D \<and> last q \<notin> D"
    and "set s \<subseteq> D" and "s \<noteq> []" and "set pre \<subseteq> set qs" and "set post \<subseteq> set qs"
  shows "rev (strip_seqs (map rev qs) (rev (strip_seqs qs (concat pre @ s @ concat post)))) = s"
proof -
  have digit: "hd s \<in> D" "hd (rev s) \<in> D" using assms(4,5) by (auto simp: hd_rev)
  have no: "[] \<notin> set qs" using assms(3) by blast
  have front: "strip_seqs qs (concat pre @ s @ concat post) = s @ concat post"
  proof (rule strip_seqs_all [OF assms(1) no _ assms(6)], intro ballI notI)
    fix q assume "q \<in> set qs" "prefix q (s @ concat post)"
    then show False using prefix_hd [of q "s @ concat post"] assms(3,5) digit(1) by simp
  qed
  have rear: "strip_seqs (map rev qs) (concat (map rev (rev post)) @ rev s) = rev s"
  proof (rule strip_seqs_all)
    show "\<forall>q\<in>set (map rev qs). \<forall>r\<in>set (map rev qs). prefix q r \<longrightarrow> q = r" using assms(2) by simp
    show "[] \<notin> set (map rev qs)" using no by auto
    show "set (map rev (rev post)) \<subseteq> set (map rev qs)" using assms(7) by auto
    have "\<not> prefix (rev q) (rev s)" if "q \<in> set qs" for q
      using that prefix_hd [of "rev q" "rev s"] assms(3) digit(2) by (auto simp: hd_rev)
    then show "\<forall>q\<in>set (map rev qs). \<not> prefix q (rev s)" by simp
  qed
  show ?thesis using front rear by (simp add: rev_concat rev_map)
qed

text \<open>No sequence of white space begins or ends another one: the length can be read off either end.\<close>

definition seq_len :: "string \<Rightarrow> nat" where
  "seq_len q = (if (of_char (hd q) :: nat) < 128 then 1 else if hd q = CHR 0xC2 then 2 else 3)"

definition rev_len :: "string \<Rightarrow> nat" where
  "rev_len q = (if (of_char (last q) :: nat) < 128 then 1 else if rev q ! 1 = CHR 0xC2 then 2 else 3)"

lemma white_space_checks:
  "\<forall>q\<in>set white_space. q \<noteq> [] \<and> hd q \<notin> set lower_hex_digits \<and> last q \<notin> set lower_hex_digits
     \<and> length q = seq_len q \<and> length q = rev_len q"
  by (simp add: white_space_def lower_hex_digits_def seq_len_def rev_len_def)

lemma front_len_free:
  assumes "q \<noteq> []" and "length q = seq_len q" and "length r = seq_len r" and "prefix q r"
  shows "q = r"
proof -
  have "seq_len q = seq_len r" using prefix_hd [OF assms(4,1)] by (simp add: seq_len_def)
  then show ?thesis using assms by (auto simp: prefix_def)
qed

lemma rear_len_free:
  assumes "q \<noteq> []" and "length q = rev_len q" and "length r = rev_len r" and "prefix (rev q) (rev r)"
  shows "q = r"
proof -
  obtain zs where zs: "rev r = rev q @ zs" using assms(4) by (auto simp only: prefix_def)
  have same: "last q = last r"
  proof -
    have "hd (rev r) = hd (rev q)" unfolding zs using assms(1) by (simp only: hd_append rev_is_Nil_conv if_False)
    then show ?thesis by (simp only: hd_rev)
  qed
  have "rev_len q = rev_len r"
  proof (cases "length q = 1")
    case True
    then have "rev_len q = 1" using assms(2) by (simp only:)
    then have "of_char (last q) < (128 :: nat)" unfolding rev_len_def by (simp only: split: if_splits)
    then have "rev_len r = 1" unfolding rev_len_def same by (simp only: if_True)
    with \<open>rev_len q = 1\<close> show ?thesis by (simp only:)
  next
    case False
    then have "1 < length (rev q)" using assms(1) by (cases q) auto
    then have "rev r ! 1 = rev q ! 1" unfolding zs by (simp only: nth_append if_True)
    then show ?thesis using same by (simp only: rev_len_def)
  qed
  then have "length (rev r) = length (rev q)" using assms(2,3) by simp
  then have "zs = []" unfolding zs by simp
  then show ?thesis using zs by simp
qed

lemma str_trim_padded:
  assumes "set s \<subseteq> set lower_hex_digits" and "s \<noteq> []" and "set pre \<subseteq> set white_space" and "set post \<subseteq> set white_space"
  shows "str_trim (concat pre @ s @ concat post) = s"
proof -
  note ws = white_space_checks [THEN bspec]
  show ?thesis
    unfolding str_trim_def
  proof (rule trim_padded [where D = "set lower_hex_digits", OF _ _ _ assms])
    show "\<forall>q\<in>set white_space. \<forall>r\<in>set white_space. prefix q r \<longrightarrow> q = r"
      by (intro ballI impI, rule front_len_free) (use ws in iprover)+
    show "\<forall>q\<in>set white_space. \<forall>r\<in>set white_space. prefix (rev q) (rev r) \<longrightarrow> q = r"
      by (intro ballI impI, rule rear_len_free) (use ws in iprover)+
    show "\<forall>q\<in>set white_space. q \<noteq> [] \<and> hd q \<notin> set lower_hex_digits \<and> last q \<notin> set lower_hex_digits"
      by (intro ballI) (use ws in iprover)
  qed
qed

section \<open>Properties\<close>

lemma dek_ctx_ok: "\<exists>c. dek_ctx = Inr c"
  by (simp add: dek_ctx_def ctx_base_def ctx_add_iff rbind_Inr_iff ctx_base_iff segment_def segment_byte_def MAX_CONTEXT_LEN_def)

lemma wrapped_dek_opens:
  assumes "hex_ok cr" and "aead_ok cr" and "hkdf_ok cr" and "length dek = 32"
    and "wrap_dek_under_export_key cr dek export_key aad w = (Done s, w')"
    and "set pre \<subseteq> set white_space" and "set post \<subseteq> set white_space"
  shows "unwrap_dek_under_export_key cr (concat pre @ s @ concat post) export_key aad = Inr dek \<and> length s = 124"
proof -
  obtain key c blob where key: "wrap_key cr export_key aad = Inr key" and c: "dek_ctx = Inr c"
      and enc: "aead_encrypt cr dek key c aad w = (Done blob, w')" and s: "s = hex_encode cr (DEK_WRAP_VER # blob)"
    using assms(5) by (auto simp: wrap_dek_under_export_key_def bindM_Done_iff liftR_Done_iff ret_Done_iff)
  obtain out where "derive32_raw cr export_key None (bind_aad c aad) = Inr out" "length out = 32"
    by (rule derive32_raw_total [OF assms(3)])
  then have "length key = 32" using key unfolding wrap_key_def derive32_def c by simp
  then have blob: "aead_decrypt cr blob key c aad = Inr dek" "length blob = 61"
    using decrypt_framed [OF assms(2) _ length_rng_draw aead_encrypt_Done [OF enc]] assms(4) by simp_all
  have len: "length s = 124" using s blob hex_encode_length [OF assms(1)] by simp
  have "str_trim (concat pre @ s @ concat post) = s"
    by (rule str_trim_padded [OF _ _ assms(6,7)]) (use s len hex_encode_digits [OF assms(1)] in auto)
  then show ?thesis
    using s blob key len decode_vec_encode [OF assms(1), of "DEK_WRAP_VER # blob"] assms(4)
    unfolding unwrap_dek_under_export_key_def c by (simp add: sec_bytes_from_hex_def)
qed

text \<open>C31. A data-encryption key wrapped under an export key is unwrapped by the same export key and
  associated data, also when the text came back with white space around it; the text is 124
  hexadecimal digits.\<close>

theorem dek_wrap_roundtrip:
  assumes "hex_ok cr" and "aead_ok cr" and "hkdf_ok cr" and "length dek = 32"
    and "wrap_dek_under_export_key cr dek export_key aad w = (Done s, w')"
    and "set pre \<subseteq> set white_space" and "set post \<subseteq> set white_space"
  shows "unwrap_dek_under_export_key cr (concat pre @ s @ concat post) export_key aad = Inr dek \<and> length s = 124"
  using assms by (rule wrapped_dek_opens)

lemma wrap_dek_sample:
  "\<exists>s w'. wrap_dek_under_export_key sample_crates dek ek aad (clean_world []) = (Done s, w')"
proof -
  obtain c where c: "dek_ctx = Inr c" using dek_ctx_ok by blast
  obtain key where "derive32_raw sample_crates ek None (bind_aad c aad) = Inr key"
    by (rule derive32_raw_total [OF sample_hkdf_ok])
  then have key: "wrap_key sample_crates ek aad = Inr key" unfolding wrap_key_def derive32_def c by simp
  have enc: "encrypt_framed sample_crates dek key n c aad \<noteq> Inl e" for n e
    by (simp add: encrypt_framed_def encrypt_raw_def sample_crates_def)
  show ?thesis
    unfolding wrap_dek_under_export_key_def key c aead_encrypt_def
    using enc by (auto simp: random_fixed_live bindM_def ret_def liftR_def split: sum.splits)
qed

theorem dek_wrap_roundtrip_witness:
  "\<exists>s w'. wrap_dek_under_export_key sample_crates (replicate 32 5) (replicate 64 7) [1] (clean_world []) = (Done s, w')
    \<and> unwrap_dek_under_export_key sample_crates (concat [[CHR 0x20], [CHR 0xC2, CHR 0xA0]] @ s @ concat [[CHR 0x0A]]) (replicate 64 7) [1]
        = Inr (replicate 32 5)"
proof -
  obtain s and w' :: "unit world" where run:
      "wrap_dek_under_export_key sample_crates (replicate 32 5) (replicate 64 7) [1] (clean_world []) = (Done s, w')"
    using wrap_dek_sample by blast
  have "set [[CHR 0x20], [CHR 0xC2, CHR 0xA0]] \<subseteq> set white_space" "set [[CHR 0x0A]] \<subseteq> set white_space"
    by (simp_all add: white_space_def)
  then show ?thesis
    using run dek_wrap_roundtrip [OF sample_hex_ok sample_aead_ok sample_hkdf_ok _ run,
        of "[[CHR 0x20], [CHR 0xC2, CHR 0xA0]]" "[[CHR 0x0A]]"]
    by (metis length_replicate)
qed

text \<open>C30. Over a protocol that is correct for honest parties, the crate's calls compose: a key
  wrapped under the export key at registration is recovered after a login with the same password,
  identifiers, credential identifier and stretching parameters, and the server accepts that login.
  Every message passes through its bytes, and the server keeps the record and its login state as bytes
  only.\<close>

theorem opaque_login_recovers_dek:
  assumes "opaque_ok k" and "hex_ok cr" and "aead_ok cr" and "hkdf_ok cr" and "length dek = 32"
    and "client_registration_start k r1 pw = Inr (m1, rst)"
    and "server_registration_start k setup m1 cid = Inr m2"
    and "client_registration_finish cr k rst r2 m2 pw handler sid ksf = Inr (m3, export_key)"
    and "server_registration_finish k m3 = Inr rec"
    and "wrap_dek_under_export_key cr dek export_key aad w = (Done blob, w')"
    and "client_login_start k r3 pw = Inr (m4, lst)"
    and "server_login_start k r4 setup (Some rec) m4 cid handler sid ctx = Inr (m5, sst)"
  shows "\<exists>m6. client_login_finish cr k lst r5 m5 pw handler sid ctx ksf = Inr (m6, export_key)
    \<and> server_login_finish k sst m6 handler sid ctx = Inr ()
    \<and> unwrap_dek_under_export_key cr blob export_key aad = Inr dek"
proof -
  have de: "deserialize k kind (serialize k kind v) = Some v" for kind v
    using assms(1) by (simp add: opaque_ok_def)
  obtain req where req: "ke_registration_start k r1 (as_bytes pw) = Some (req, rst)" "m1 = serialize k RegistrationRequest req"
    using assms(6) by (auto simp: client_registration_start_def rbind_Inr_iff)
  obtain resp where resp: "ke_server_registration_start k setup req cid = Some resp" "m2 = serialize k RegistrationResponse resp"
    using assms(7) by (auto simp: server_registration_start_def rbind_Inr_iff req de)
  obtain up where ksf: "opaque_ksf cr ksf = Inr ksf"
      and up: "ke_registration_finish k rst r2 (as_bytes pw) resp (opaque_ids handler sid) ksf = Some (up, export_key)"
        "m3 = serialize k RegistrationUpload up" "length export_key = 64"
    using assms(8) by (auto simp: client_registration_finish_def rbind_Inr_iff resp de opaque_ksf_def argon2_to_params_def split: if_splits)
  have rec: "rec = serialize k RegistrationRecord (ke_server_registration_finish k up)"
    using assms(9) by (simp add: server_registration_finish_def up de)
  obtain creq where creq: "ke_login_start k r3 (as_bytes pw) = Some (creq, lst)" "m4 = serialize k CredentialRequest creq"
    using assms(11) by (auto simp: client_login_start_def rbind_Inr_iff)
  obtain cresp st where st: "ke_server_login_start k r4 setup (Some (ke_server_registration_finish k up)) creq cid ctx
        (opaque_ids handler sid) = Some (cresp, st)"
      "m5 = serialize k CredentialResponse cresp" "sst = serialize k ServerLoginState st"
    using assms(12) by (auto simp: server_login_start_def rbind_Inr_iff rec creq de)
  obtain fin where fin: "ke_login_finish k lst r5 (as_bytes pw) cresp ctx (opaque_ids handler sid) ksf = Some (fin, export_key)"
      "ke_server_login_finish k st fin ctx (opaque_ids handler sid)"
    using assms(1) req(1) resp(1) up(1) creq(1) st(1) unfolding opaque_ok_def by meson
  have "client_login_finish cr k lst r5 m5 pw handler sid ctx ksf = Inr (serialize k CredentialFinalization fin, export_key)"
    by (simp add: client_login_finish_def st(2) de ksf fin up(3) sec_fixed_from_slice_def)
  moreover have "server_login_finish k sst (serialize k CredentialFinalization fin) handler sid ctx = Inr ()"
    by (simp add: server_login_finish_def st(3) de fin)
  moreover have "unwrap_dek_under_export_key cr blob export_key aad = Inr dek"
    using wrapped_dek_opens [OF assms(2-5,10), of "[]" "[]"] by simp
  ultimately show ?thesis by blast
qed

text \<open>A protocol with the documented law: the password itself travels and the record is compared.\<close>

definition sample_opaque :: "bytes opaque_ke" where
  "sample_opaque = \<lparr>
     serialize = (\<lambda>kind v. v), deserialize = (\<lambda>kind bs. Some bs),
     ke_registration_start = (\<lambda>coins pw. Some (coins, pw)),
     ke_registration_finish = (\<lambda>state coins pw response ids ksf. Some (pw, pad_to 64 pw)),
     ke_login_start = (\<lambda>coins pw. Some (coins, pw)),
     ke_login_finish = (\<lambda>state coins pw response ctx ids ksf. Some (pw, pad_to 64 pw)),
     ke_setup_new = (\<lambda>coins. coins),
     ke_server_registration_start = (\<lambda>setup request cid. Some request),
     ke_server_registration_finish = (\<lambda>upload. upload),
     ke_server_login_start = (\<lambda>coins setup rec request cid ctx ids. Some (coins, case rec of Some r \<Rightarrow> r | None \<Rightarrow> coins)),
     ke_server_login_finish = (\<lambda>state finalization ctx ids. state = finalization) \<rparr>"

lemma sample_opaque_ok: "opaque_ok sample_opaque"
  by (simp add: opaque_ok_def sample_opaque_def)

theorem opaque_login_recovers_dek_witness:
  "\<exists>blob w' m6. wrap_dek_under_export_key sample_crates (replicate 32 5) (pad_to 64 (as_bytes ''pw'')) [] (clean_world []) = (Done blob, w')
    \<and> client_login_finish sample_crates sample_opaque (as_bytes ''pw'') [4] [3] ''pw'' [1] [2] None OWASP_DEFAULT
        = Inr (m6, pad_to 64 (as_bytes ''pw''))
    \<and> server_login_finish sample_opaque (as_bytes ''pw'') m6 [1] [2] None = Inr ()
    \<and> unwrap_dek_under_export_key sample_crates blob (pad_to 64 (as_bytes ''pw'')) [] = Inr (replicate 32 5)"
proof -
  let ?pw = "as_bytes ''pw''"
  obtain blob and w' :: "unit world" where run:
      "wrap_dek_under_export_key sample_crates (replicate 32 5) (pad_to 64 ?pw) [] (clean_world []) = (Done blob, w')"
    using wrap_dek_sample by blast
  have len: "length (replicate 32 (5 :: u8)) = 32" by simp
  have reg: "client_registration_start sample_opaque [9] ''pw'' = Inr ([9], ?pw)"
      "server_registration_start sample_opaque [8] [9] [7] = Inr [9]"
      "server_registration_finish sample_opaque ?pw = Inr ?pw"
      "client_login_start sample_opaque [6] ''pw'' = Inr ([6], ?pw)"
      "server_login_start sample_opaque [3] [8] (Some ?pw) [6] [7] [1] [2] None = Inr ([3], ?pw)"
    by (simp_all add: client_registration_start_def server_registration_start_def server_registration_finish_def
        client_login_start_def server_login_start_def sample_opaque_def)
  have fin: "client_registration_finish sample_crates sample_opaque ?pw [5] [9] ''pw'' [1] [2] OWASP_DEFAULT = Inr (?pw, pad_to 64 ?pw)"
    by (simp add: client_registration_finish_def sample_opaque_def opaque_ksf_def argon2_to_params_def sample_crates_def
        OWASP_DEFAULT_def sec_fixed_from_slice_def)
  show ?thesis
    using run opaque_login_recovers_dek [OF sample_opaque_ok sample_hex_ok sample_aead_ok sample_hkdf_ok len
        reg(1,2) fin reg(3) run reg(4,5), where ?r5.0 = "[4]"] by blast
qed

end
