(* ===== verification/Trees.thy ===== *)
theory Trees
  imports KeyFile
begin

text \<open>
  Well-formed directory trees: every node but those of the first level lies in a directory, and no
  temporary name is a directory.  The keyfile writers and the removal of a directory keep the tree
  well-formed, at every point where they can fail or die; in a well-formed tree the walk to a node
  that exists succeeds, and nothing lies below a node that does not.
\<close>

section \<open>Definition and consequences\<close>

definition tree_wf :: "(path \<rightharpoonup> node) \<Rightarrow> bool" where
  "tree_wf B \<longleftrightarrow> (\<forall>q. q \<noteq> [] \<longrightarrow> B q \<noteq> None \<longrightarrow> butlast q = [] \<or> is_dir_node (B (butlast q)))
     \<and> (\<forall>q. is_tmp q \<longrightarrow> \<not> is_dir_node (B q))"

abbreviation wf_nodes :: "nodes \<Rightarrow> bool" where
  "wf_nodes ns \<equiv> tree_wf (map_of ns)"

lemma is_dir_node_iff: "is_dir_node n \<longleftrightarrow> (\<exists>m. n = Some (Dir m))"
  by (cases n rule: is_dir_node.cases) auto

lemma tree_wf_parent: "tree_wf B \<Longrightarrow> B q \<noteq> None \<Longrightarrow> q \<noteq> [] \<Longrightarrow> butlast q \<noteq> [] \<Longrightarrow> is_dir_node (B (butlast q))"
  by (auto simp: tree_wf_def)

lemma tree_wf_above:
  assumes "tree_wf B"
  shows "B p \<noteq> None \<Longrightarrow> strict_prefix q p \<Longrightarrow> q \<noteq> [] \<Longrightarrow> is_dir_node (B q)"
proof (induction p rule: rev_induct)
  case (snoc x xs)
  have q: "prefix q xs" using snoc.prems(2) by (auto simp: strict_prefix_def prefix_snoc)
  then have "xs \<noteq> []" using snoc.prems(3) by auto
  then have xs: "is_dir_node (B xs)" using tree_wf_parent [OF assms snoc.prems(1)] by simp
  then have "B xs \<noteq> None" by (auto simp: is_dir_node_iff)
  with xs q snoc.IH snoc.prems(3) show ?case by (cases "q = xs") (auto simp: strict_prefix_def)
qed simp

lemma tree_wf_below: "tree_wf B \<Longrightarrow> B q = None \<Longrightarrow> prefix q p \<Longrightarrow> q \<noteq> [] \<Longrightarrow> B p = None"
  using tree_wf_above [of B p q] by (cases "q = p"; cases "B p") (auto simp: strict_prefix_def)

lemma wf_walk: "wf_nodes ns \<Longrightarrow> map_of ns p \<noteq> None \<Longrightarrow> walk_err ns p = None"
  unfolding walk_err_None_iff
proof
  fix i
  assume a: "wf_nodes ns" "map_of ns p \<noteq> None" "i \<in> {1..<length p}"
  have "strict_prefix (take i p) p" using a(3) by (auto simp: strict_prefix_def take_is_prefix dest: arg_cong [of _ _ length])
  moreover have "take i p \<noteq> []" using a(3) by auto
  ultimately show "is_dir_node (map_of ns (take i p))" using tree_wf_above [OF a(1,2)] by blast
qed

lemma wf_lookup:
  assumes "wf_nodes ns" and "p \<noteq> []"
  shows "lookup_node ns p = Inr n \<longleftrightarrow> map_of ns p = Some n"
  using wf_walk [OF assms(1), of p] by (auto simp: lookup_node_iff [OF assms(2)])

lemma wf_follow:
  assumes "wf_nodes ns" and "p \<noteq> []" and "\<And>q. map_of ns p \<noteq> Some (Symlink q)"
  shows "follow_links ns p = Inr n \<longleftrightarrow> map_of ns p = Some n"
proof -
  have "lookup_node ns p \<noteq> Inr (Symlink q)" for q using wf_lookup [OF assms(1,2)] assms(3) by simp
  then have "follow_links ns p = lookup_node ns p"
    by (auto simp: follow_links_def eval_nat_numeral split: sum.splits node.splits)
  then show ?thesis using wf_lookup [OF assms(1,2)] by simp
qed

lemma wf_exists:
  assumes "wf_nodes ns" and "p \<noteq> []" and "\<And>q. map_of ns p \<noteq> Some (Symlink q)"
  shows "is_ok (follow_links ns p) \<longleftrightarrow> map_of ns p \<noteq> None"
  using wf_follow [OF assms] by (auto simp: is_ok_iff)

section \<open>Changes that keep the tree well-formed\<close>

lemma walk_parent:
  assumes "walk_err ns p = None" and "p \<noteq> []"
  shows "butlast p = [] \<or> is_dir_node (map_of ns (butlast p))"
proof (cases "butlast p = []")
  case False
  then have "length (butlast p) \<noteq> 0" by (simp only: length_0_conv not_False_eq_True)
  then have "length p - 1 \<in> {1..<length p}" by (simp, arith)
  then show ?thesis using assms(1) by (auto simp: walk_err_None_iff butlast_conv_take)
qed simp

lemma wf_update:
  assumes "tree_wf B" and "p \<noteq> []" and "butlast p = [] \<or> is_dir_node (B (butlast p))"
    and "\<not> is_dir_node (B p)" and "is_tmp p \<Longrightarrow> \<not> is_dir_node (Some n)"
  shows "tree_wf (B(p \<mapsto> n))"
proof -
  have "butlast q \<noteq> p" if "q \<noteq> []" "B q \<noteq> None" for q
    using assms(1,2,4) that by (auto simp: tree_wf_def)
  moreover have "butlast p \<noteq> p" using assms(2) by (metis append_butlast_last_id append_self_conv not_Cons_self2)
  ultimately show ?thesis
    using assms(1,3,5) by (auto simp: tree_wf_def)
qed

lemma wf_same_kind:
  assumes "tree_wf B" and "B p = Some n" and "\<not> is_dir_node (B p)" and "\<not> is_dir_node (Some n')"
  shows "tree_wf (B(p \<mapsto> n'))"
proof (cases "p = []")
  case True
  then show ?thesis using assms(1,4) by (auto simp: tree_wf_def)
next
  case False
  then show ?thesis using wf_update [OF assms(1) False] assms by (simp add: tree_wf_def)
qed

lemma wf_delete:
  assumes "tree_wf B" and "p \<noteq> []" and "\<And>q. q \<noteq> [] \<Longrightarrow> butlast q = p \<Longrightarrow> B q = None"
  shows "tree_wf (B(p := None))"
  using assms by (auto simp: tree_wf_def)

lemma wf_delete_leaf: "tree_wf B \<Longrightarrow> p \<noteq> [] \<Longrightarrow> \<not> is_dir_node (B p) \<Longrightarrow> tree_wf (B(p := None))"
  by (rule wf_delete) (auto simp: tree_wf_def)

section \<open>The operations\<close>

text \<open>A condition on the configuration of the world, which no operation here changes.\<close>

definition conf :: "('p world \<Rightarrow> bool) \<Rightarrow> bool" where
  "conf C \<longleftrightarrow> tick_free C \<and> (\<forall>w ns. C w \<longrightarrow> C (w\<lparr>nodes := ns\<rparr>))"

abbreviation keeps_wf :: "('p world \<Rightarrow> bool) \<Rightarrow> ('p world, 'e, 'a) eff \<Rightarrow> bool" where
  "keeps_wf C m \<equiv> keeps (\<lambda>w. C w \<and> wf_nodes (nodes w)) m"

lemma conf_tick_free: "conf C \<Longrightarrow> tick_free (\<lambda>w. C w \<and> A (nodes w))"
  by (auto simp: conf_def tick_free_def)

lemma keeps_wf_update:
  assumes "conf C" and "\<And>ns ns'. wf_nodes ns \<Longrightarrow> f ns = Inr ns' \<Longrightarrow> wf_nodes ns'"
  shows "keeps_wf C (update_fs op f)"
  by (rule triple_conseq [OF triple_update_fs [OF conf_tick_free [OF assms(1)], where Q = "\<lambda>w. C w \<and> wf_nodes (nodes w)"]])
     (use assms in \<open>auto simp: conf_def\<close>)

lemma keeps_wf_query: "conf C \<Longrightarrow> keeps_wf C (query op f)"
  by (rule keeps_query [OF conf_tick_free])

lemma keeps_wf_create_new: "conf C \<Longrightarrow> keeps_wf C (create_new p m)"
  unfolding create_new_def
  by (erule keeps_wf_update) (auto simp: parent_err_None_iff split: option.splits intro!: wf_update dest: walk_parent)

lemma keeps_wf_write_all:
  assumes "conf C"
  shows "keeps_wf C (write_all p data)"
proof -
  have "wf_nodes (append_file p d ns)" if "wf_nodes ns" for d ns
    using that by (auto simp: append_file_def intro!: wf_same_kind split: option.splits node.splits)
  then show ?thesis
    using assms by (auto simp: triple_def write_all_def Let_def conf_def tick_free_def split: option.splits fault.splits)
qed

lemma keeps_wf_remove_file:
  assumes "conf C" and "p \<noteq> []"
  shows "keeps_wf C (remove_file p)"
  unfolding remove_file_def
proof (rule keeps_wf_update [OF assms(1)])
  fix ns ns'
  assume wf: "wf_nodes ns" and "(case lookup_node ns p of Inl k \<Rightarrow> Inl k | Inr (Dir m) \<Rightarrow> Inl IsADirectory
      | Inr n \<Rightarrow> Inr (AList.delete p ns)) = Inr ns'"
  then obtain n where n: "lookup_node ns p = Inr n" "\<not> is_dir_node (Some n)" and ns': "ns' = AList.delete p ns"
    by (auto split: sum.splits node.splits)
  show "wf_nodes ns'"
    unfolding ns' map_of_alist by (rule wf_delete_leaf [OF wf assms(2)]) (use lookup_node_SomeD [OF n(1) assms(2)] n(2) in simp)
qed

lemma keeps_wf_rmdir:
  assumes "conf C" and "p \<noteq> []"
  shows "keeps_wf C (rmdir p)"
  unfolding rmdir_def
proof (rule keeps_wf_update [OF assms(1)])
  fix ns ns'
  assume wf: "wf_nodes ns" and "(case lookup_node ns p of Inl k \<Rightarrow> Inl k
      | Inr (Dir m) \<Rightarrow> if \<exists>q\<in>set (map fst ns). q \<noteq> [] \<and> butlast q = p then Inl (OtherIo 39) else Inr (AList.delete p ns)
      | Inr n \<Rightarrow> Inl NotADirectory) = Inr ns'"
  then have ns': "ns' = AList.delete p ns" and no: "\<forall>q\<in>set (map fst ns). \<not> (q \<noteq> [] \<and> butlast q = p)"
    by (auto split: sum.splits node.splits if_splits)
  have "map_of ns q = None" if "q \<noteq> []" "butlast q = p" for q
    using no that by (auto simp: map_of_eq_None_iff)
  then show "wf_nodes ns'" unfolding ns' map_of_alist by (rule wf_delete [OF wf assms(2)])
qed

lemma keeps_wf_mkdir:
  assumes "conf C" and "\<not> is_tmp p"
  shows "keeps_wf C (mkdir m p)"
  unfolding mkdir_def
  by (rule keeps_wf_update [OF assms(1)])
     (use assms(2) in \<open>auto simp: parent_err_None_iff split: option.splits intro!: wf_update dest: walk_parent\<close>)

lemma keeps_wf_rename_tmp:
  assumes "conf C" and "is_tmp t" and "t \<noteq> p"
  shows "keeps_wf C (rename_file t p)"
  unfolding rename_file_def
proof (rule keeps_wf_update [OF assms(1)])
  fix ns ns'
  assume wf: "wf_nodes ns" and "(case lookup_node ns t of Inl k \<Rightarrow> Inl k | Inr n \<Rightarrow> (case parent_err ns p of
      Some k \<Rightarrow> Inl k | None \<Rightarrow> (case map_of ns p of Some (Dir m) \<Rightarrow> Inl IsADirectory
        | _ \<Rightarrow> Inr (AList.update p n (AList.delete t ns))))) = Inr ns'"
  then obtain n where n: "lookup_node ns t = Inr n" and pe: "p \<noteq> []" "walk_err ns p = None"
      and p: "\<not> is_dir_node (map_of ns p)" and ns': "ns' = AList.update p n (AList.delete t ns)"
    by (auto simp: parent_err_None_iff is_dir_node_iff split: sum.splits option.splits node.splits)
  have t: "t \<noteq> []" using assms(2) by (auto simp: is_tmp_def extension_def)
  have nd: "\<not> is_dir_node (map_of ns t)" using wf assms(2) by (simp add: tree_wf_def)
  then have "\<not> is_dir_node (Some n)" using lookup_node_SomeD [OF n t] by simp
  moreover have "butlast p \<noteq> t \<or> butlast p = []"
    using walk_parent [OF pe(2,1)] nd by auto
  ultimately show "wf_nodes ns'"
    unfolding ns' map_of_alist
    using walk_parent [OF pe(2,1)] p
    by (intro wf_update [OF wf_delete_leaf [OF wf t nd] pe(1)]) auto
qed

lemma keeps_wf_ensure_private_dir:
  assumes "conf C" and "\<And>q. prefix q d \<Longrightarrow> \<not> is_tmp q"
  shows "keeps_wf C (ensure_private_dir d)"
proof -
  have "keeps_wf C (create_dir_all 0x1c0 d)"
  proof (rule keeps_create_dir_all [OF conf_tick_free [OF assms(1)]])
    fix w d'
    assume a: "C w \<and> wf_nodes (nodes w)" "prefix d' d" "d' \<noteq> []" "walk_err (nodes w) d' = None" "map_of (nodes w) d' = None"
    then have "wf_nodes (AList.update d' (Dir 0x1c0) (nodes w))"
      unfolding map_of_alist using assms(2) walk_parent [OF a(4,3)] by (intro wf_update) auto
    then show "C (w\<lparr>nodes := AList.update d' (Dir 0x1c0) (nodes w)\<rparr>)
        \<and> wf_nodes (nodes (w\<lparr>nodes := AList.update d' (Dir 0x1c0) (nodes w)\<rparr>))"
      using a(1) assms(1) by (simp add: conf_def)
  qed
  then show ?thesis
    unfolding ensure_private_dir_def symlink_metadata_def
    by (intro keeps_bind keeps_tryM keeps_wf_query [OF assms(1)])
       (auto split: sum.split node.split intro!: keeps_leaf keeps_mapM_err)
qed

text \<open>Attempts at a temporary file: what they return is a temporary name.\<close>

lemma tmp_attempts_wf:
  assumes "conf C" and "hex_ok cr" and "target_path p"
  shows "triple (\<lambda>w. C w \<and> wf_nodes (nodes w)) (tmp_attempts cr n p)
    (\<lambda>t w. (C w \<and> wf_nodes (nodes w)) \<and> is_tmp t) (\<lambda>_ w. C w \<and> wf_nodes (nodes w)) (\<lambda>w. C w \<and> wf_nodes (nodes w))"
    (is "triple ?W _ ?T (\<lambda>_. ?W) ?W")
proof (induction n)
  case 0
  show ?case by (simp add: triple_fail)
next
  case (Suc n)
  have p: "p \<noteq> []" "last p \<noteq> []" using assms(3) by (simp_all add: target_path_def)
  have tf: "tick_free ?W" by (rule conf_tick_free [OF assms(1)])
  have "triple ?W (case r of Inr u \<Rightarrow> ret t | Inl e \<Rightarrow> if fst e = AlreadyExists then tmp_attempts cr n p else fail (lithium_io e))
      ?T (\<lambda>_. ?W) ?W" if "is_tmp t" for r :: "io_err + unit" and t
    using Suc that by (cases r) (auto intro: triple_ret triple_fail)
  then show ?case
    unfolding tmp_attempts.simps Let_def
    by (intro triple_bind [OF keeps_random_fixed] triple_bind [OF keeps_fetch_tmp_seq]
        triple_bind [OF keeps_get_pid] tf triple_bind [OF keeps_tryM [OF keeps_wf_create_new [OF assms(1)]]])
       (use tmp_path_is_tmp(1) [OF assms(2) p] in blast)
qed

lemma keeps_wf_write_secure:
  assumes "conf C" and "hex_ok cr" and "target_path p" and "\<And>q. prefix q p \<Longrightarrow> \<not> is_tmp q"
  shows "keeps_wf C (write_secure cr p data)"
proof -
  let ?W = "\<lambda>w. C w \<and> wf_nodes (nodes w)"
  have tf: "tick_free ?W" by (rule conf_tick_free [OF assms(1)])
  have p: "p \<noteq> []" using assms(3) by (simp add: target_path_def)
  have par: "keeps ?W (ensure_parent p)"
    unfolding ensure_parent_def parent_of_def using p assms(4)
    by (auto intro!: keeps_wf_ensure_private_dir [OF assms(1)] dest: prefix_order.trans [OF _ prefixeq_butlast])
  have fill: "keeps ?W (fill_tmp t data)" if "is_tmp t" for t
  proof -
    have t: "t \<noteq> []" using that by (auto simp: is_tmp_def extension_def)
    show ?thesis
      unfolding fill_tmp_def sync_all_def
      by (intro keeps_bind keeps_tryM keeps_mapM_err keeps_wf_write_all keeps_wf_query assms(1))
         (auto split: sum.split intro!: keeps_leaf keeps_bind keeps_ignoreM keeps_wf_remove_file [OF assms(1) t])
  qed
  have "triple (\<lambda>w. ?W w \<and> is_tmp t) (bindM (fill_tmp t data) (\<lambda>_. bindM (mapM_err lithium_io (rename_file t p))
      (\<lambda>_. sync_parent_best_effort p))) (\<lambda>_. ?W) (\<lambda>_. ?W) ?W" for t
  proof (cases "is_tmp t")
    case True
    then have "t \<noteq> p" using assms(3) by (auto simp: target_path_def)
    then have "keeps ?W (bindM (fill_tmp t data) (\<lambda>_. bindM (mapM_err lithium_io (rename_file t p))
        (\<lambda>_. sync_parent_best_effort p)))"
      by (intro keeps_bind fill [OF True] keeps_mapM_err keeps_wf_rename_tmp [OF assms(1) True] keeps_sync_parent tf)
    then show ?thesis by (rule triple_pre) simp
  qed (simp add: triple_def)
  then show ?thesis
    unfolding write_secure_def create_private_tmp_def
    by (rule triple_bind [OF par triple_bind [OF tmp_attempts_wf [OF assms(1-3)]]])
qed

end
