(* ===== verification/Site.thy ===== *)
theory Site
  imports Manager Trees
begin

text \<open>
  The on-disk site of a key manager and the rules for assertions about it.  A site is a directory
  with the private keys, the label secrets and the rotation area; an assertion looks at the nodes
  below it and at the master key that the provider holds.  The contract of a master-key provider is
  the locale \<open>mk_store\<close>, discharged for the plaintext provider of
  \<^verbatim>\<open>src/src/keys/manager.rs\<close>.  The rules say what the writers, the directory operations and the
  scans of the manager do to an assertion, whatever system call other than \<open>stat\<close> fails and wherever
  the process dies.
\<close>

section \<open>Layout\<close>

definition priv_of :: "path \<Rightarrow> path" where "priv_of root = join root PRIV_DIR"
definition secrets_of :: "path \<Rightarrow> path" where "secrets_of root = join root SECRETS_DIR"
definition rot_of :: "path \<Rightarrow> path" where "rot_of root = join root ROTATE_DIR"
definition ready_of :: "path \<Rightarrow> path" where "ready_of root = join (rot_of root) ROTATE_READY_FILE"
definition next_old_of :: "path \<Rightarrow> path" where "next_old_of root = join (rot_of root) ROTATE_NEXT_OLD_FILE"
definition next_new_of :: "path \<Rightarrow> path" where "next_new_of root = join (rot_of root) ROTATE_NEXT_NEW_FILE"

definition staged_of :: "path \<Rightarrow> path \<Rightarrow> path" where
  "staged_of root q = stage_target_path (rot_of root) (drop (length root) q)"

lemmas layout_defs = priv_of_def secrets_of_def rot_of_def ready_of_def next_old_of_def next_new_of_def
  join_def PRIV_DIR_def SECRETS_DIR_def ROTATE_DIR_def ROTATE_READY_FILE_def ROTATE_NEXT_OLD_FILE_def
  ROTATE_NEXT_NEW_FILE_def

definition fixed_paths :: "path \<Rightarrow> path set" where
  "fixed_paths root = {join (priv_of root) ED_PRIV, join (priv_of root) DILI_PRIV}"

definition secret_path :: "path \<Rightarrow> path \<Rightarrow> bool" where
  "secret_path root q \<longleftrightarrow> q \<noteq> [] \<and> butlast q = secrets_of root \<and> extension q = Some ''keyf''"

text \<open>The keyfiles of the site: the two private keys and the label secrets.\<close>

definition live_paths :: "path \<Rightarrow> (path \<rightharpoonup> node) \<Rightarrow> path set" where
  "live_paths root B = {q. q \<in> fixed_paths root \<and> B q \<noteq> None}
     \<union> {q. secret_path root q \<and> (\<exists>m d. B q = Some (File m d))}"

definition kt_of :: "path \<Rightarrow> path \<Rightarrow> string" where
  "kt_of root q = (if q = join (priv_of root) ED_PRIV then KT_ED_SEED
     else if q = join (priv_of root) DILI_PRIV then KT_DILI_SEED
     else label_key_type_from_hex (fst (split_ext (last q))))"

definition target_of :: "path \<Rightarrow> path \<Rightarrow> rewrap_target" where
  "target_of root q = \<lparr>live_path = q, relative_path = drop (length root) q, key_type = kt_of root q\<rparr>"

definition key_path :: "path \<Rightarrow> path \<Rightarrow> bool" where
  "key_path root q \<longleftrightarrow> q \<in> fixed_paths root \<or> secret_path root q"

lemma live_key_path: "q \<in> live_paths root B \<Longrightarrow> key_path root q"
  by (auto simp: live_paths_def key_path_def)

lemma keyf_not_tmp: "extension q = Some ''keyf'' \<Longrightarrow> \<not> is_tmp q"
  by (simp add: is_tmp_def)

lemma fixed_names: "extension (p @ [ED_PRIV]) = Some ''keyf''" "extension (p @ [DILI_PRIV]) = Some ''keyf''"
  by (simp_all add: extension_def split_ext_def ED_PRIV_def DILI_PRIV_def Let_def)

text \<open>A key path lies one level below one of the two key directories.\<close>

lemma key_pathE:
  assumes "key_path root q"
  obtains x where "q = priv_of root @ [x] \<or> q = secrets_of root @ [x]" and "extension q = Some ''keyf''" and "x \<noteq> []"
proof -
  have ext: "extension q = Some ''keyf''"
    using assms by (auto simp: key_path_def fixed_paths_def secret_path_def join_def fixed_names)
  have q: "q \<noteq> []" "butlast q = priv_of root \<or> butlast q = secrets_of root"
    using assms by (auto simp: key_path_def fixed_paths_def secret_path_def join_def)
  have "last q \<noteq> []" using ext q(1) by (auto simp: extension_def split_ext_def Let_def)
  moreover have "q = priv_of root @ [last q] \<or> q = secrets_of root @ [last q]"
    using q by (metis append_butlast_last_id)
  ultimately show thesis using that ext by blast
qed

lemma staged_under: "key_path root q \<Longrightarrow> \<exists>x d. x \<noteq> [] \<and> extension (staged_of root q) = Some ''keyf''
    \<and> (d = PRIV_DIR \<or> d = SECRETS_DIR) \<and> staged_of root q = rot_of root @ [ROTATE_STAGE_DIR, d, x] \<and> q = root @ [d, x]"
  by (erule key_pathE)
     (auto simp: staged_of_def stage_target_path_def priv_of_def secrets_of_def join_def extension_def)

lemma staged_inject: "key_path root q \<Longrightarrow> key_path root q' \<Longrightarrow> staged_of root q = staged_of root q' \<Longrightarrow> q = q'"
  using staged_under [of root q] staged_under [of root q'] by auto

section \<open>Assertions\<close>

text \<open>What every assertion includes: the directories are there, and there are no symbolic links among
  the keyfiles and in the rotation area.\<close>

definition dirs_ok :: "path \<Rightarrow> (path \<rightharpoonup> node) \<Rightarrow> bool" where
  "dirs_ok root B \<longleftrightarrow> is_dir_node (B root) \<and> is_dir_node (B (priv_of root)) \<and> is_dir_node (B (secrets_of root))
     \<and> (\<forall>q x. prefix (rot_of root) q \<or> butlast q \<in> {priv_of root, secrets_of root} \<longrightarrow> B q \<noteq> Some (Symlink x))"

type_synonym 'p current = "(path \<rightharpoonup> node) \<Rightarrow> 'p \<Rightarrow> bytes option"
type_synonym assertion = "(path \<rightharpoonup> node) \<Rightarrow> bytes option \<Rightarrow> bool"

definition site :: "'p current \<Rightarrow> (nat \<Rightarrow> u8) \<Rightarrow> path \<Rightarrow> assertion \<Rightarrow> 'p world \<Rightarrow> bool" where
  "site cur tp root J w \<longleftrightarrow> (\<forall>n. faults w OpStat n = None) \<and> rng_tape w = tp \<and> wf_nodes (nodes w)
     \<and> dirs_ok root (map_of (nodes w)) \<and> J (map_of (nodes w)) (cur (map_of (nodes w)) (pstate w))"

definition stat_conf :: "(nat \<Rightarrow> u8) \<Rightarrow> 'p \<Rightarrow> 'p world \<Rightarrow> bool" where
  "stat_conf tp s w \<longleftrightarrow> (\<forall>n. faults w OpStat n = None) \<and> rng_tape w = tp \<and> pstate w = s"

lemma conf_stat: "conf (stat_conf tp s)"
  by (simp add: conf_def tick_free_def stat_conf_def)

lemma site_tick_free [simp]: "tick_free (site cur tp root J)"
  by (simp add: tick_free_def site_def)

lemma site_mono: "site cur tp root J w \<Longrightarrow> (\<And>B c. J B c \<Longrightarrow> K B c) \<Longrightarrow> site cur tp root K w"
  by (auto simp: site_def)

lemma site_conj: "site cur tp root (\<lambda>B c. J B c \<and> K B c) w \<longleftrightarrow> site cur tp root J w \<and> site cur tp root K w"
  by (auto simp: site_def)

section \<open>The provider\<close>

text \<open>A condition on the tree that only looks below the site.\<close>

definition below :: "path \<Rightarrow> ((path \<rightharpoonup> node) \<Rightarrow> bool) \<Rightarrow> bool" where
  "below root R \<longleftrightarrow> (\<forall>B B'. (\<forall>q. prefix root q \<longrightarrow> B q = B' q) \<longrightarrow> R B \<longrightarrow> R B')"

definition base :: "(nat \<Rightarrow> u8) \<Rightarrow> ((path \<rightharpoonup> node) \<Rightarrow> bool) \<Rightarrow> 'p world \<Rightarrow> bool" where
  "base tp R w \<longleftrightarrow> (\<forall>n. faults w OpStat n = None) \<and> rng_tape w = tp \<and> wf_nodes (nodes w) \<and> R (map_of (nodes w))"

text \<open>
  The contract of \<open>MkProvider\<close>: \<open>cur\<close> is the master key stored, a function of the provider's state and
  of the tree outside the site.  Loading returns it and changes nothing; storing replaces it at once or
  not at all, and does not touch the site.
\<close>

locale mk_store =
  fixes prov :: "'p mk_provider" and cur :: "'p current" and root :: path
  assumes cur_outside: "(\<And>q. q \<noteq> [] \<Longrightarrow> \<not> prefix root q \<Longrightarrow> B q = B' q) \<Longrightarrow> cur B s = cur B' s"
    and load_law: "tick_free P \<Longrightarrow> (\<And>w. P w \<Longrightarrow> wf_nodes (nodes w)) \<Longrightarrow> triple P (load_mk prov)
      (\<lambda>mk w. P w \<and> cur (map_of (nodes w)) (pstate w) = Some mk \<and> length mk = 32) (\<lambda>_. P) P"
    and store_law: "below root R \<Longrightarrow> length mk = 32 \<Longrightarrow>
      triple (\<lambda>w. base tp R w \<and> cur (map_of (nodes w)) (pstate w) = c) (store_mk prov mk)
        (\<lambda>_ w. base tp R w \<and> cur (map_of (nodes w)) (pstate w) = Some mk)
        (\<lambda>_ w. base tp R w \<and> cur (map_of (nodes w)) (pstate w) \<in> {c, Some mk})
        (\<lambda>w. base tp R w \<and> cur (map_of (nodes w)) (pstate w) \<in> {c, Some mk})"

section \<open>What a writer does to the site\<close>

text \<open>The tree after a writer of \<open>p\<close>, besides \<open>p\<close> itself: new directories of the rotation area above it
  and new temporary files beside it.\<close>

definition near :: "path \<Rightarrow> path \<Rightarrow> (path \<rightharpoonup> node) \<Rightarrow> (path \<rightharpoonup> node) \<Rightarrow> bool" where
  "near root p B B' \<longleftrightarrow> (\<forall>q. q \<noteq> [] \<longrightarrow> q \<noteq> p \<longrightarrow> B' q = B q \<or> B q = None
     \<and> (prefix (rot_of root) q \<and> strict_prefix q p \<and> B' q = Some (Dir 0x1c0)
        \<or> is_tmp q \<and> butlast q = butlast p \<and> (\<exists>d. B' q = Some (File 0x180 d))))"

definition site_path :: "path \<Rightarrow> path \<Rightarrow> bool" where
  "site_path root p \<longleftrightarrow> key_path root p \<or> (\<exists>s. s \<noteq> [] \<and> p = rot_of root @ s)"

lemma dirs_okD:
  assumes "dirs_ok root B"
  shows "B root \<noteq> None" and "B (priv_of root) \<noteq> None" and "B (secrets_of root) \<noteq> None"
  using assms by (auto simp: dirs_ok_def is_dir_node_iff simp del: imp_conjL)

lemma near_same: "near root p B B' \<Longrightarrow> q \<noteq> [] \<Longrightarrow> q \<noteq> p \<Longrightarrow> B q \<noteq> None \<Longrightarrow> B' q = B q"
  by (auto simp: near_def)

lemma near_kept: "near root p B B' \<Longrightarrow> q \<noteq> [] \<Longrightarrow> q \<noteq> p \<Longrightarrow> \<not> is_tmp q \<Longrightarrow>
    \<not> (prefix (rot_of root) q \<and> strict_prefix q p) \<Longrightarrow> B' q = B q"
  by (auto simp: near_def)

lemma site_path_under: "site_path root p \<Longrightarrow> prefix root (butlast p) \<and> p \<noteq> []"
  by (auto simp: site_path_def priv_of_def secrets_of_def rot_of_def join_def butlast_append elim!: key_pathE)

lemma near_outside:
  assumes "near root p B B'" and "site_path root p" and "q \<noteq> []" and "\<not> prefix root q"
  shows "B' q = B q"
proof -
  have "q \<noteq> p" using site_path_under [OF assms(2)] assms(4) prefixeq_butlast prefix_order.trans by metis
  moreover have "\<not> prefix (rot_of root) q" using assms(4) by (auto simp: rot_of_def join_def prefix_def)
  moreover have "butlast q \<noteq> butlast p"
    using site_path_under [OF assms(2)] assms(4) prefixeq_butlast prefix_order.trans by metis
  ultimately show ?thesis using assms(1,3) by (auto simp: near_def)
qed

lemma near_of_frame:
  assumes "tree_wf B" and "dirs_ok root B" and "frame B p ns" and "site_path root p" and "root \<noteq> []"
  shows "near root p B (map_of ns)"
  unfolding near_def
proof (intro allI impI)
  fix q
  assume q: "q \<noteq> []" "q \<noteq> p"
  have al: "allowed B p q (map_of ns q)" using assms(3) q(2) by (simp add: frame_def)
  note dirs = dirs_okD [OF assms(2)]
  have "prefix (rot_of root) q" if sp: "strict_prefix q p" and none: "B q = None"
  proof -
    have no: "\<not> prefix q r" if "B r \<noteq> None" for r
      using tree_wf_below [OF assms(1) none _ q(1), of r] that by iprover
    consider "key_path root p" | s where "p = rot_of root @ s" using assms(4) by (auto simp only: site_path_def)
    then show ?thesis
    proof cases
      case 1
      then obtain x where "p = priv_of root @ [x] \<or> p = secrets_of root @ [x]" by (rule key_pathE)
      then have "prefix q (priv_of root) \<or> prefix q (secrets_of root)" using sp by (auto simp: strict_prefix_def)
      then show ?thesis using no [OF dirs(2)] no [OF dirs(3)] by iprover
    next
      case 2
      then have "prefix q (rot_of root @ s)" using sp by (simp add: strict_prefix_def)
      then have "prefix q (rot_of root) \<or> prefix (rot_of root) q" by (auto simp: prefix_append)
      then show ?thesis using no [OF dirs(1)] by (auto simp: rot_of_def join_def)
    qed
  qed
  then show "map_of ns q = B q \<or> B q = None \<and> (prefix (rot_of root) q \<and> strict_prefix q p \<and> map_of ns q = Some (Dir 0x1c0)
      \<or> is_tmp q \<and> butlast q = butlast p \<and> (\<exists>d. map_of ns q = Some (File 0x180 d)))"
    using al by (auto simp: allowed_def split: option.splits)
qed

lemma near_dirs:
  assumes "near root p B B'" and "dirs_ok root B" and "site_path root p" and "B' p = B p \<or> B' p = Some (File m d)" and "root \<noteq> []"
  shows "dirs_ok root B'"
proof -
  have len: "length (rot_of root) = Suc (length root)" "length (priv_of root) = Suc (length root)" "length (secrets_of root) = Suc (length root)"
    by (simp_all add: layout_defs)
  have "length p > Suc (length root)"
    using assms(3) by (auto simp: site_path_def len elim!: key_pathE)
  then have "p \<noteq> root" "p \<noteq> priv_of root" "p \<noteq> secrets_of root" using len by auto
  moreover have "priv_of root \<noteq> []" "secrets_of root \<noteq> []" by (simp_all add: layout_defs)
  ultimately have "B' root = B root" "B' (priv_of root) = B (priv_of root)" "B' (secrets_of root) = B (secrets_of root)"
    using near_same [OF assms(1)] dirs_okD [OF assms(2)] assms(5) by simp_all
  moreover have "B' q \<noteq> Some (Symlink x)" if "prefix (rot_of root) q \<or> butlast q \<in> {priv_of root, secrets_of root}" for q x
  proof (cases "q = p")
    case False
    moreover have "q \<noteq> []" using that by (auto simp: layout_defs)
    ultimately show ?thesis using assms(1,2) that by (auto simp: near_def dirs_ok_def)
  qed (use assms(2,4) that in \<open>auto simp: dirs_ok_def\<close>)
  ultimately show ?thesis using assms(2) by (auto simp: dirs_ok_def)
qed

lemma near_live:
  assumes "near root p B B'" and "site_path root p"
    and "B' p = B p \<or> (\<exists>m d m' d'. B p = Some (File m d) \<and> B' p = Some (File m' d')) \<or> prefix (rot_of root) p"
  shows "live_paths root B' = live_paths root B"
proof -
  have "B' q = B q \<or> (\<exists>m d m' d'. B q = Some (File m d) \<and> B' q = Some (File m' d'))" if kp: "key_path root q" for q
  proof -
    obtain x where x: "q = priv_of root @ [x] \<or> q = secrets_of root @ [x]" "extension q = Some ''keyf''" "x \<noteq> []"
      by (rule key_pathE [OF kp])
    have "\<not> prefix (rot_of root) q" "q \<noteq> []" using x(1) by (auto simp: layout_defs prefix_def)
    then show ?thesis
      using near_kept [OF assms(1), of q] keyf_not_tmp [OF x(2)] assms(3) by (cases "q = p") auto
  qed
  then have "q \<in> live_paths root B' \<longleftrightarrow> q \<in> live_paths root B" for q
    by (cases "key_path root q") (fastforce simp: live_paths_def key_path_def)+
  then show ?thesis by blast
qed

section \<open>Rules\<close>

lemma triple_point:
  assumes "\<And>s0. P s0 \<Longrightarrow> triple (\<lambda>s. s = s0) m Q F C"
  shows "triple P m Q F C"
  using assms by (auto simp: triple_def)

lemma triple_ex:
  assumes "\<And>x. triple (P x) m Q F C"
  shows "triple (\<lambda>s. \<exists>x. P x s) m Q F C"
  by (rule triple_point) (auto intro: triple_pre [OF assms])

lemma triple_or: "triple P m Q F C \<Longrightarrow> triple P' m Q F C \<Longrightarrow> triple (\<lambda>s. P s \<or> P' s) m Q F C"
  by (auto simp: triple_def)

lemma triple_fact:
  assumes "keeps P m" and "\<And>s a s'. P s \<Longrightarrow> m s = (Done a, s') \<Longrightarrow> A a"
  shows "triple P m (\<lambda>a s. P s \<and> A a) (\<lambda>_. P) P"
  by (rule tripleI) (auto intro: assms(2) triple_DoneD [OF assms(1)] triple_FailD [OF assms(1)] triple_CrashD [OF assms(1)])

locale site_rules = mk_store prov cur root for prov :: "'p mk_provider" and cur :: "'p current" and root :: path +
  fixes cr :: crates and tp :: "nat \<Rightarrow> u8"
  assumes hex: "hex_ok cr" and root_ne: "root \<noteq> []" and root_tmp: "prefix q root \<Longrightarrow> \<not> is_tmp q"
begin

lemma near_cur: "near root p B B' \<Longrightarrow> site_path root p \<Longrightarrow> cur B' s = cur B s"
  by (rule cur_outside) (rule near_outside)

lemma write_site:
  assumes p: "site_path root p" "target_path p" and tmp: "\<And>q. prefix q p \<Longrightarrow> \<not> is_tmp q"
    and st: "\<And>B B' c. J B c \<Longrightarrow> dirs_ok root B \<Longrightarrow> near root p B B' \<Longrightarrow> B' p = B p \<Longrightarrow> J B' c"
    and ch: "\<And>B B' c. J B c \<Longrightarrow> dirs_ok root B \<Longrightarrow> near root p B B' \<Longrightarrow> B' p = Some (File 0x180 data) \<Longrightarrow> K B' c"
  shows "triple (site cur tp root J) (write_secure cr p data) (\<lambda>_. site cur tp root K) (\<lambda>_. site cur tp root J)
    (\<lambda>w. site cur tp root J w \<or> site cur tp root K w)"
proof (rule triple_point)
  fix w
  assume S: "site cur tp root J w"
  let ?B = "map_of (nodes w)" and ?s = "pstate w"
  have pn: "p \<noteq> []" using p(2) by (simp add: target_path_def)
  have J: "J ?B (cur ?B ?s)" and wf: "wf_nodes (nodes w)" and dirs: "dirs_ok root ?B" using S by (simp_all add: site_def)
  have fin: "site cur tp root H v"
    if f: "frame ?B p (nodes v)" and c: "stat_conf tp ?s v \<and> wf_nodes (nodes v)"
      and pv: "map_of (nodes v) p = ?B p \<or> map_of (nodes v) p = Some (File 0x180 data)"
      and H: "near root p ?B (map_of (nodes v)) \<Longrightarrow> H (map_of (nodes v)) (cur ?B ?s)" for H v
  proof -
    have near: "near root p ?B (map_of (nodes v))" by (rule near_of_frame [OF wf dirs f p(1) root_ne])
    show ?thesis
      using c H [OF near] near_dirs [OF near dirs p(1) pv root_ne] near_cur [OF near p(1), of ?s]
      by (simp add: site_def stat_conf_def)
  qed
  have spec: "triple (\<lambda>v. untouched ?B p (nodes v) \<and> stat_conf tp ?s v \<and> wf_nodes (nodes v)) (write_secure cr p data)
      (\<lambda>_ v. replaced ?B p data (nodes v) \<and> stat_conf tp ?s v \<and> wf_nodes (nodes v))
      (\<lambda>_ v. untouched ?B p (nodes v) \<and> stat_conf tp ?s v \<and> wf_nodes (nodes v))
      (\<lambda>v. (frame ?B p (nodes v) \<and> map_of (nodes v) p \<in> {?B p, Some (File 0x180 data)}) \<and> stat_conf tp ?s v \<and> wf_nodes (nodes v))"
    by (rule triple_conj [OF write_secure_spec [OF hex p(2)] keeps_wf_write_secure [OF conf_stat hex p(2) tmp]])
  show "triple (\<lambda>v. v = w) (write_secure cr p data) (\<lambda>_. site cur tp root K) (\<lambda>_. site cur tp root J)
      (\<lambda>w. site cur tp root J w \<or> site cur tp root K w)"
  proof (rule triple_conseq [OF spec])
    fix v assume "v = w"
    then show "untouched ?B p (nodes v) \<and> stat_conf tp ?s v \<and> wf_nodes (nodes v)"
      using S by (auto simp: untouched_def frame_def allowed_def site_def stat_conf_def split: option.splits)
  next
    fix v assume v: "replaced ?B p data (nodes v) \<and> stat_conf tp ?s v \<and> wf_nodes (nodes v)"
    then have d: "map_of (nodes v) p = Some (File 0x180 data)" using replaced_map pn by blast
    show "site cur tp root K v" by (rule fin) (use v d ch [OF J dirs, of "map_of (nodes v)"] in \<open>auto simp: replaced_def\<close>)
  next
    fix v assume v: "untouched ?B p (nodes v) \<and> stat_conf tp ?s v \<and> wf_nodes (nodes v)"
    then have d: "map_of (nodes v) p = ?B p" by (simp add: untouched_def)
    show "site cur tp root J v" by (rule fin) (use v d st [OF J dirs, of "map_of (nodes v)"] in \<open>auto simp: untouched_def\<close>)
  next
    fix v assume v: "(frame ?B p (nodes v) \<and> map_of (nodes v) p \<in> {?B p, Some (File 0x180 data)}) \<and> stat_conf tp ?s v \<and> wf_nodes (nodes v)"
    then consider "map_of (nodes v) p = ?B p" | "map_of (nodes v) p = Some (File 0x180 data)" by blast
    then show "site cur tp root J v \<or> site cur tp root K v"
    proof cases
      case 1
      have "site cur tp root J v" by (rule fin) (use v 1 st [OF J dirs, of "map_of (nodes v)"] in auto)
      then show ?thesis ..
    next
      case 2
      have "site cur tp root K v" by (rule fin) (use v 2 ch [OF J dirs, of "map_of (nodes v)"] in auto)
      then show ?thesis ..
    qed
  qed
qed


text \<open>Tests of existence are exact here: \<open>stat\<close> does not fail and meets no symbolic link.\<close>

definition plain_path :: "path \<Rightarrow> bool" where
  "plain_path q \<longleftrightarrow> prefix (rot_of root) q \<or> butlast q \<in> {priv_of root, secrets_of root} \<or> q = secrets_of root"

lemma plain_follow:
  assumes "site cur tp root J w" and "plain_path q"
  shows "follow_links (nodes w) q = Inr n \<longleftrightarrow> map_of (nodes w) q = Some n"
proof (rule wf_follow)
  show "wf_nodes (nodes w)" using assms(1) by (simp add: site_def)
  show "q \<noteq> []" using assms(2) by (auto simp: plain_path_def layout_defs)
  show "map_of (nodes w) q \<noteq> Some (Symlink x)" for x
    using assms by (auto simp: site_def dirs_ok_def plain_path_def is_dir_node_iff)
qed

lemma stat_site:
  assumes "site cur tp root J w"
  shows "stat_follow q w = (case follow_links (nodes w) q of
      Inl k \<Rightarrow> (Fail (k, os_text k), w\<lparr>ticks := ticks w + 1\<rparr>) | Inr n \<Rightarrow> (Done n, w\<lparr>ticks := ticks w + 1\<rparr>))"
  using assms by (simp add: stat_follow_def query_def syscall_def site_def Let_def split: sum.splits)

lemma path_exists_site:
  assumes "plain_path q"
  shows "triple (site cur tp root J) (path_exists q) (\<lambda>b. site cur tp root (\<lambda>B c. J B c \<and> (b \<longleftrightarrow> B q \<noteq> None))) F C"
proof (rule tripleI)
  fix w b w'
  assume S: "site cur tp root J w" and run: "path_exists q w = (Done b, w')"
  then have w': "w' = w\<lparr>ticks := ticks w + 1\<rparr>" and b: "b = is_ok (follow_links (nodes w) q)"
    by (auto simp: path_exists_def bindM_def tryM_def stat_site ret_def split: sum.splits)
  have "b \<longleftrightarrow> map_of (nodes w) q \<noteq> None" unfolding b using plain_follow [OF S assms] by (auto simp: is_ok_iff)
  then show "site cur tp root (\<lambda>B c. J B c \<and> (b \<longleftrightarrow> B q \<noteq> None)) w'" using S w' by (simp add: site_def)
qed (auto simp: path_exists_def bindM_def tryM_def stat_site ret_def split: sum.splits)

lemma path_is_file_site:
  assumes "plain_path q"
  shows "triple (site cur tp root J) (path_is_file q)
    (\<lambda>b. site cur tp root (\<lambda>B c. J B c \<and> (b \<longleftrightarrow> (\<exists>m d. B q = Some (File m d))))) F C"
proof (rule tripleI)
  fix w b w'
  assume S: "site cur tp root J w" and run: "path_is_file q w = (Done b, w')"
  then have w': "w' = w\<lparr>ticks := ticks w + 1\<rparr>" and b: "b = (\<exists>m d. follow_links (nodes w) q = Inr (File m d))"
    by (auto simp: path_is_file_def bindM_def tryM_def stat_site ret_def split: sum.splits node.splits)
  then show "site cur tp root (\<lambda>B c. J B c \<and> (b \<longleftrightarrow> (\<exists>m d. B q = Some (File m d)))) w'"
    using S plain_follow [OF S assms] by (simp add: site_def)
qed (auto simp: path_is_file_def bindM_def tryM_def stat_site ret_def split: sum.splits)

lemma keeps_site:
  "keeps (site cur tp root J) (query op f)" "keeps (site cur tp root J) (sync_dir p)" "keeps (site cur tp root J) (sync_parent p)"
  "keeps (site cur tp root J) (random_fixed n)" "keeps (site cur tp root J) (read_keyfile_bytes p)"
proof -
  show q: "keeps (site cur tp root J) (query op f)" for op f by (rule keeps_query) simp
  show sd: "keeps (site cur tp root J) (sync_dir p)" for p
    unfolding sync_dir_def open_dir_def sync_all_def
    by (intro keeps_bind keeps_path_test(1)) (auto intro!: keeps_leaf keeps_bind keeps_mapM_err q)
  show "keeps (site cur tp root J) (sync_parent p)"
    unfolding sync_parent_def by (auto split: option.split intro: keeps_leaf sd)
qed (auto intro: keeps_random_fixed keeps_read_keyfile_bytes)

lemma read_site:
  assumes "q \<noteq> []"
  shows "triple (site cur tp root J) (read_keyfile_bytes q)
    (\<lambda>d. site cur tp root (\<lambda>B c. J B c \<and> (\<exists>m. B q = Some (File m d) \<and> m AND 0x3f = 0 \<and> length d \<le> MAX_KEYFILE_SIZE)))
    (\<lambda>_. site cur tp root J) (site cur tp root J)"
  by (rule triple_conseq [OF read_keyfile_bytes_spec [OF site_tick_free]])
     (auto simp: site_def wf_lookup [OF _ assms])

lemma load_site:
  "triple (site cur tp root J) (load_mk prov) (\<lambda>mk. site cur tp root (\<lambda>B c. J B c \<and> c = Some mk \<and> length mk = 32))
    (\<lambda>_. site cur tp root J) (site cur tp root J)"
  by (rule triple_conseq [OF load_law [OF site_tick_free]]) (auto simp: site_def)

lemma dirs_below: "below root (dirs_ok root)"
proof -
  have sub: "prefix root q" if "prefix (rot_of root) q \<or> butlast q \<in> {priv_of root, secrets_of root}" for q
    using that prefixeq_butlast [of q] by (auto simp: layout_defs prefix_def)
  show ?thesis
    unfolding below_def
  proof (intro allI impI)
    fix B B' :: "path \<rightharpoonup> node"
    assume eq: "\<forall>q. prefix root q \<longrightarrow> B q = B' q" and d: "dirs_ok root B"
    have "prefix root root" "prefix root (priv_of root)" "prefix root (secrets_of root)" by (simp_all add: layout_defs)
    then show "dirs_ok root B'" using d eq sub unfolding dirs_ok_def by metis
  qed
qed

lemma store_site:
  assumes "length mk = 32" and "\<And>c. below root (\<lambda>B. J B c)"
    and "\<And>B c. J B c \<Longrightarrow> K B (Some mk)"
  shows "triple (site cur tp root J) (store_mk prov mk) (\<lambda>_. site cur tp root K)
    (\<lambda>_ w. site cur tp root J w \<or> site cur tp root K w) (\<lambda>w. site cur tp root J w \<or> site cur tp root K w)"
proof (rule triple_point)
  fix w
  assume S: "site cur tp root J w"
  let ?c = "cur (map_of (nodes w)) (pstate w)"
  have R: "below root (\<lambda>B. dirs_ok root B \<and> J B ?c)"
    using dirs_below assms(2) [of ?c] unfolding below_def by blast
  show "triple (\<lambda>v. v = w) (store_mk prov mk) (\<lambda>_. site cur tp root K)
      (\<lambda>_ w. site cur tp root J w \<or> site cur tp root K w) (\<lambda>w. site cur tp root J w \<or> site cur tp root K w)"
    by (rule triple_conseq [OF store_law [OF R assms(1), of tp ?c]])
       (use S assms(3) in \<open>auto simp: base_def site_def\<close>)
qed

end

end
