(* ===== verification/SiteOps.thy ===== *)
theory SiteOps
  imports Site
begin

text \<open>
  The rules for directories and scans of a key-manager site: making and removing the rotation area,
  and the list of keyfiles to rewrap.
\<close>

section \<open>Lists and sets of paths\<close>

definition keyfiles_in :: "path list \<Rightarrow> (path \<rightharpoonup> node) \<Rightarrow> path set" where
  "keyfiles_in qs B = {p \<in> set qs. extension p = Some ''keyf'' \<and> (\<exists>m d. B p = Some (File m d))}"

lemma triple_eq: "triple P (f q) Q F C \<Longrightarrow> triple (\<lambda>w. P w \<and> p = q) (f p) Q F C"
  by (cases "p = q") (simp_all add: triple_def)

definition named_targets :: "path \<Rightarrow> (path \<times> string) list \<Rightarrow> (path \<rightharpoonup> node) \<Rightarrow> rewrap_target set" where
  "named_targets root cs B =
     {\<lparr>live_path = p, relative_path = drop (length root) p, key_type = kt\<rparr> | p kt. (p, kt) \<in> set cs \<and> B p \<noteq> None}"

lemma post_order_prefix: "q \<in> set (post_order k ns rk p) \<Longrightarrow> prefix p q"
proof (induction k arbitrary: p)
  case (Suc k)
  have "prefix p c" if "c \<in> set (children ns rk p)" for c
    using that prefixeq_butlast [of c] by (auto simp: children_def)
  then show ?case using Suc by (auto split: if_splits dest: prefix_order.trans)
qed simp

lemma children_set: "set (children ns rk p) = {q. q \<noteq> [] \<and> butlast q = p \<and> map_of ns q \<noteq> None}"
  by (auto simp: children_def map_of_eq_None_iff simp del: not_None_eq)

section \<open>Rules\<close>

context site_rules
begin

text \<open>Changes of one node in the rotation area.\<close>

lemma site_under:
  assumes "site cur tp root J w" and "prefix (rot_of root) q" and "wf_nodes ns" and "map_of ns = (map_of (nodes w))(q := v)"
    and "\<And>x. v \<noteq> Some (Symlink x)" and "\<And>B c. J B c \<Longrightarrow> B = map_of (nodes w) \<Longrightarrow> K (B(q := v)) c"
  shows "site cur tp root K (w\<lparr>nodes := ns\<rparr>)"
proof -
  have q: "q \<noteq> root" "q \<noteq> priv_of root" "q \<noteq> secrets_of root" "prefix root q"
    using assms(2) by (auto simp: layout_defs prefix_def)
  have "dirs_ok root (map_of ns)" using assms(1,5) q unfolding assms(4) by (auto simp: site_def dirs_ok_def)
  moreover have "cur (map_of ns) s = cur (map_of (nodes w)) s" for s
    unfolding assms(4) by (rule cur_outside) (use q(4) in auto)
  ultimately show ?thesis using assms(1,3,6) by (simp add: site_def assms(4))
qed

lemma ensure_site:
  assumes d: "prefix (rot_of root) d" "\<And>q. prefix q d \<Longrightarrow> \<not> is_tmp q"
    and J: "\<And>B c q. J B c \<Longrightarrow> prefix (rot_of root) q \<Longrightarrow> prefix q d \<Longrightarrow> B q = None \<Longrightarrow> J (B(q \<mapsto> Dir 0x1c0)) c"
  shows "keeps (site cur tp root J) (ensure_private_dir d)"
proof -
  have "keeps (site cur tp root J) (create_dir_all 0x1c0 d)"
  proof (rule keeps_create_dir_all [OF site_tick_free])
    fix w d'
    assume S: "site cur tp root J w" and d': "prefix d' d" "d' \<noteq> []" and walk: "walk_err (nodes w) d' = None"
      and none: "map_of (nodes w) d' = None"
    have wf: "wf_nodes (nodes w)" and root: "map_of (nodes w) root \<noteq> None"
      using S dirs_okD(1) [of root "map_of (nodes w)"] by (simp_all add: site_def)
    have "prefix (rot_of root) d' \<or> prefix d' root"
      using prefix_same_cases [OF d(1) d'(1)] by (auto simp: rot_of_def join_def)
    then have rot: "prefix (rot_of root) d'" using tree_wf_below [OF wf none _ d'(2), of root] root by iprover
    show "site cur tp root J (w\<lparr>nodes := AList.update d' (Dir 0x1c0) (nodes w)\<rparr>)"
    proof (rule site_under [OF S rot])
      show "wf_nodes (AList.update d' (Dir 0x1c0) (nodes w))"
        unfolding map_of_alist using d(2) [OF d'(1)] walk_parent [OF walk d'(2)] none d'(2) by (intro wf_update [OF wf]) auto
      show "J (B(d' \<mapsto> Dir 0x1c0)) c" if "J B c" "B = map_of (nodes w)" for B c
        using that none by (intro J [OF _ rot d'(1)]) auto
    qed simp_all
  qed
  then show ?thesis
    unfolding ensure_private_dir_def symlink_metadata_def
    by (intro keeps_bind keeps_tryM keeps_site(1))
       (auto split: sum.split node.split intro!: keeps_leaf keeps_mapM_err)
qed

lemma remove_site:
  assumes q: "prefix (rot_of root) q" and J: "\<And>B c. J B c \<Longrightarrow> J (B(q := None)) c"
  shows "triple (site cur tp root J) (rmdir q) (\<lambda>_. site cur tp root (\<lambda>B c. J B c \<and> B q = None)) (\<lambda>_. site cur tp root J) (site cur tp root J)"
    and "triple (site cur tp root J) (remove_file q) (\<lambda>_. site cur tp root (\<lambda>B c. J B c \<and> B q = None)) (\<lambda>_. site cur tp root J) (site cur tp root J)"
proof -
  have ne: "q \<noteq> []" using q by (auto simp: layout_defs prefix_def)
  have fin: "site cur tp root (\<lambda>B c. J B c \<and> B q = None) (w\<lparr>nodes := AList.delete q (nodes w)\<rparr>)"
    if "site cur tp root J w" "wf_nodes (AList.delete q (nodes w))" for w
    by (rule site_under [OF that(1) q that(2), where v = None]) (auto intro: J)
  show "triple (site cur tp root J) (rmdir q) (\<lambda>_. site cur tp root (\<lambda>B c. J B c \<and> B q = None)) (\<lambda>_. site cur tp root J) (site cur tp root J)"
    unfolding rmdir_def
  proof (rule triple_update_fs [OF site_tick_free])
    fix w ns
    assume S: "site cur tp root J w" and "(case lookup_node (nodes w) q of Inl k \<Rightarrow> Inl k
        | Inr (Dir m) \<Rightarrow> if \<exists>p\<in>set (map fst (nodes w)). p \<noteq> [] \<and> butlast p = q then Inl (OtherIo 39) else Inr (AList.delete q (nodes w))
        | Inr n \<Rightarrow> Inl NotADirectory) = Inr ns"
    then have ns: "ns = AList.delete q (nodes w)" and no: "\<forall>p\<in>set (map fst (nodes w)). \<not> (p \<noteq> [] \<and> butlast p = q)"
      by (auto split: sum.splits node.splits if_splits)
    have "map_of (nodes w) p = None" if "p \<noteq> []" "butlast p = q" for p using no that by (auto simp: map_of_eq_None_iff)
    then have "wf_nodes ns" unfolding ns map_of_alist using S by (intro wf_delete [OF _ ne]) (auto simp: site_def)
    then show "site cur tp root (\<lambda>B c. J B c \<and> B q = None) (w\<lparr>nodes := ns\<rparr>)" using fin [OF S] ns by simp
  qed
  show "triple (site cur tp root J) (remove_file q) (\<lambda>_. site cur tp root (\<lambda>B c. J B c \<and> B q = None)) (\<lambda>_. site cur tp root J) (site cur tp root J)"
    unfolding remove_file_def
  proof (rule triple_update_fs [OF site_tick_free])
    fix w ns
    assume S: "site cur tp root J w" and "(case lookup_node (nodes w) q of Inl k \<Rightarrow> Inl k | Inr (Dir m) \<Rightarrow> Inl IsADirectory
        | Inr n \<Rightarrow> Inr (AList.delete q (nodes w))) = Inr ns"
    then obtain n where n: "lookup_node (nodes w) q = Inr n" "\<not> is_dir_node (Some n)" and ns: "ns = AList.delete q (nodes w)"
      by (auto split: sum.splits node.splits)
    then have "wf_nodes ns" unfolding ns map_of_alist
      using S lookup_node_SomeD [OF n(1) ne] by (intro wf_delete_leaf [OF _ ne]) (auto simp: site_def)
    then show "site cur tp root (\<lambda>B c. J B c \<and> B q = None) (w\<lparr>nodes := ns\<rparr>)" using fin [OF S] ns by simp
  qed
qed


lemma remove_entry_site:
  assumes "prefix (rot_of root) q" and "\<And>B c. J B c \<Longrightarrow> J (B(q := None)) c"
  shows "keeps (site cur tp root J) (remove_child q)"
proof -
  have "keeps (site cur tp root J) (remove_entry q)"
  proof (rule triple_point)
    fix w assume "site cur tp root J w"
    then show "triple (\<lambda>v. v = w) (remove_entry q) (\<lambda>_. site cur tp root J) (\<lambda>_. site cur tp root J) (site cur tp root J)"
      using tripleD [OF remove_site(1) [of q J, OF assms], of w] tripleD [OF remove_site(2) [of q J, OF assms], of w]
      by (auto simp: triple_def remove_entry_def site_conj split: prod.splits outcome.splits)
  qed
  then show ?thesis
    unfolding remove_child_def by (intro keeps_bind keeps_tryM) (auto split: sum.split intro: keeps_leaf)
qed

lemma remove_dir_all_site:
  assumes J: "\<And>B c q. J B c \<Longrightarrow> prefix (rot_of root) q \<Longrightarrow> J (B(q := None)) c"
  shows "triple (site cur tp root J) (remove_dir_all (rot_of root))
    (\<lambda>_. site cur tp root (\<lambda>B c. J B c \<and> B (rot_of root) = None)) (\<lambda>_. site cur tp root J) (site cur tp root J)"
  unfolding remove_dir_all_def symlink_metadata_def
proof (rule triple_bind [OF keeps_site(1)], rule triple_point)
  fix n w
  assume S: "site cur tp root J w"
  let ?Q = "\<lambda>_. site cur tp root (\<lambda>B c. J B c \<and> B (rot_of root) = None)"
  let ?l = "butlast (post_order (tree_depth (nodes w)) (nodes w) (rank w) (rot_of root))"
  have "keeps (site cur tp root J) (forM ?l remove_child)"
    by (rule triple_forM) (auto intro: remove_entry_site J dest: in_set_butlastD post_order_prefix)
  then have "triple (site cur tp root J) (bindM (forM ?l remove_child) (\<lambda>_. rmdir (rot_of root))) ?Q
      (\<lambda>_. site cur tp root J) (site cur tp root J)"
    by (rule triple_bind) (rule remove_site(1), simp_all add: J)
  then show "triple (\<lambda>v. v = w) (\<lambda>w. case n of
        Dir m \<Rightarrow> bindM (forM (butlast (post_order (tree_depth (nodes w)) (nodes w) (rank w) (rot_of root))) remove_child)
          (\<lambda>_. rmdir (rot_of root)) w
      | Symlink q \<Rightarrow> remove_file (rot_of root) w | _ \<Rightarrow> (Fail (NotADirectory, os_text NotADirectory), w))
      ?Q (\<lambda>_. site cur tp root J) (site cur tp root J)"
    using S tripleD [OF remove_site(2) [of "rot_of root" J], OF _ _ S] J
    by (cases n) (auto simp: triple_def)
qed

lemma cleanup_site:
  assumes "\<And>B c q. J B c \<Longrightarrow> prefix (rot_of root) q \<Longrightarrow> J (B(q := None)) c"
  shows "triple (site cur tp root J) (cleanup_rotation_dir (rot_of root))
    (\<lambda>_. site cur tp root (\<lambda>B c. J B c \<and> B (rot_of root) = None)) (\<lambda>_. site cur tp root J) (site cur tp root J)"
  unfolding cleanup_rotation_dir_def
proof (rule triple_bind [OF path_exists_site])
  let ?D = "site cur tp root (\<lambda>B c. J B c \<and> B (rot_of root) = None)"
  fix ex
  have "triple ?D (sync_parent (rot_of root)) (\<lambda>_. ?D) (\<lambda>_. site cur tp root J) (site cur tp root J)"
    by (rule triple_conseq [OF keeps_site(3) [where J = "\<lambda>B c. J B c \<and> B (rot_of root) = None"]]) (auto simp: site_conj)
  moreover have "triple (site cur tp root J) (mapM_err lithium_io (remove_dir_all (rot_of root))) (\<lambda>_. ?D)
      (\<lambda>_. site cur tp root J) (site cur tp root J)"
    by (rule triple_mapM_err, rule remove_dir_all_site, rule assms)
  ultimately have "triple (site cur tp root J) (bindM (mapM_err lithium_io (remove_dir_all (rot_of root))) (\<lambda>_. sync_parent (rot_of root)))
      (\<lambda>_. ?D) (\<lambda>_. site cur tp root J) (site cur tp root J)"
    by (intro triple_bind [where R = "\<lambda>_. ?D"])
  then have "triple (site cur tp root (\<lambda>B c. J B c \<and> ex = (B (rot_of root) \<noteq> None)))
      (bindM (mapM_err lithium_io (remove_dir_all (rot_of root))) (\<lambda>_. sync_parent (rot_of root)))
      (\<lambda>_. ?D) (\<lambda>_. site cur tp root J) (site cur tp root J)"
    by (rule triple_pre) (simp add: site_conj)
  then show "triple (site cur tp root (\<lambda>B c. J B c \<and> ex = (B (rot_of root) \<noteq> None)))
      (if ex then bindM (mapM_err lithium_io (remove_dir_all (rot_of root))) (\<lambda>_. sync_parent (rot_of root)) else ret ())
      (\<lambda>_. ?D) (\<lambda>_. site cur tp root J) (site cur tp root J)"
    by (auto intro: triple_ret elim: site_mono)
qed (simp add: plain_path_def)


text \<open>The list of keyfiles to rewrap.\<close>

lemma scan_site:
  assumes "\<And>q. q \<in> set qs \<Longrightarrow> plain_path q"
  shows "triple (site cur tp root J) (scan_entries qs out)
    (\<lambda>r. site cur tp root (\<lambda>B c. J B c \<and> set r = set out \<union> keyfiles_in qs B)) (\<lambda>_. site cur tp root J) (site cur tp root J)"
  using assms
proof (induction qs arbitrary: out J)
  case Nil
  then show ?case by (auto intro!: triple_ret simp: keyfiles_in_def)
next
  case (Cons q qs)
  let ?file = "\<lambda>B. \<exists>m d. B q = Some (File m d)" and ?S = "site cur tp root"
  have "triple (?S J) (next_entry q) (\<lambda>p w. ?S J w \<and> p = q) (\<lambda>_. ?S J) (?S J)"
    unfolding next_entry_def by (rule triple_conseq [OF triple_query [OF site_tick_free]]) auto
  moreover have "triple (?S J) (bindM (path_is_file q) (\<lambda>f.
        if f \<and> extension q = Some ''keyf'' then scan_entries qs (out @ [q]) else scan_entries qs out))
      (\<lambda>r. ?S (\<lambda>B c. J B c \<and> set r = set out \<union> keyfiles_in (q # qs) B)) (\<lambda>_. ?S J) (?S J)"
  proof (rule triple_bind [OF path_is_file_site])
    fix f
    let ?o = "if f \<and> extension q = Some ''keyf'' then out @ [q] else out"
    have IH: "triple (?S (\<lambda>B c. J B c \<and> f = ?file B)) (scan_entries qs ?o)
        (\<lambda>r. ?S (\<lambda>B c. (J B c \<and> f = ?file B) \<and> set r = set ?o \<union> keyfiles_in qs B))
        (\<lambda>_. ?S (\<lambda>B c. J B c \<and> f = ?file B)) (?S (\<lambda>B c. J B c \<and> f = ?file B))"
      by (rule Cons.IH) (use Cons.prems in simp)
    have step: "set ?o \<union> keyfiles_in qs B = set out \<union> keyfiles_in (q # qs) B" if "f = ?file B" for B
      using that by (cases "extension q = Some ''keyf''"; cases f) (auto simp: keyfiles_in_def)
    have prog: "(if f \<and> extension q = Some ''keyf'' then scan_entries qs (out @ [q]) else scan_entries qs out) = scan_entries qs ?o"
      by simp
    show "triple (?S (\<lambda>B c. J B c \<and> f = ?file B))
        (if f \<and> extension q = Some ''keyf'' then scan_entries qs (out @ [q]) else scan_entries qs out)
        (\<lambda>r. ?S (\<lambda>B c. J B c \<and> set r = set out \<union> keyfiles_in (q # qs) B)) (\<lambda>_. ?S J) (?S J)"
      unfolding prog by (rule triple_conseq [OF IH]; (assumption | (erule site_mono, blast) | (erule site_mono, metis step)))
  qed (use Cons.prems in simp)
  ultimately show ?case
    unfolding scan_entries.simps by (intro triple_bind [OF triple_mapM_err triple_eq])
qed

lemma read_dir_site:
  "triple (site cur tp root J) (read_dir p) (\<lambda>es. site cur tp root (\<lambda>B c. J B c \<and> set es = {q. q \<noteq> [] \<and> butlast q = p \<and> B q \<noteq> None}))
    (\<lambda>_. site cur tp root J) (site cur tp root J)"
  unfolding read_dir_def
  by (rule triple_syscall [OF site_tick_free])
     (auto simp: children_set site_def split: sum.splits node.splits)

lemma list_site:
  "triple (site cur tp root J) (list_dir_keyfiles (secrets_of root))
    (\<lambda>ps. site cur tp root (\<lambda>B c. J B c \<and> set ps = {q. secret_path root q \<and> (\<exists>m d. B q = Some (File m d))}))
    (\<lambda>_. site cur tp root J) (site cur tp root J)"
  unfolding list_dir_keyfiles_def
proof (rule triple_bind [OF path_exists_site])
  fix ex
  let ?E = "\<lambda>es B. set es = {q. q \<noteq> [] \<and> butlast q = secrets_of root \<and> B q \<noteq> None}"
  let ?P = "\<lambda>ps. site cur tp root (\<lambda>B c. J B c \<and> set ps = {q. secret_path root q \<and> (\<exists>m d. B q = Some (File m d))})"
  have scan: "triple (site cur tp root (\<lambda>B c. J B c \<and> ?E es B)) (bindM (scan_entries es []) (\<lambda>out. ret (sort out))) ?P
      (\<lambda>_. site cur tp root J) (site cur tp root J)" for es
  proof (rule triple_point)
    fix w assume w: "site cur tp root (\<lambda>B c. J B c \<and> ?E es B) w"
    then have "\<And>q. q \<in> set es \<Longrightarrow> plain_path q" by (auto simp: site_def plain_path_def)
    then have "triple (\<lambda>v. v = w) (scan_entries es []) ?P (\<lambda>_. site cur tp root J) (site cur tp root J)"
      by (rule triple_conseq [OF scan_site [where J = "\<lambda>B c. J B c \<and> ?E es B"]])
         (use w in \<open>auto simp: secret_path_def keyfiles_in_def elim!: site_mono\<close>)
    then show "triple (\<lambda>v. v = w) (bindM (scan_entries es []) (\<lambda>out. ret (sort out))) ?P (\<lambda>_. site cur tp root J) (site cur tp root J)"
      by (rule triple_bind) (auto intro!: triple_ret)
  qed
  have "triple (site cur tp root J) (bindM (mapM_err lithium_io (read_dir (secrets_of root))) (\<lambda>ents.
      bindM (scan_entries ents []) (\<lambda>out. ret (sort out)))) ?P (\<lambda>_. site cur tp root J) (site cur tp root J)"
    by (rule triple_bind [OF triple_mapM_err scan], rule read_dir_site)
  moreover have "\<not> site cur tp root (\<lambda>B c. J B c \<and> False = (B (secrets_of root) \<noteq> None)) w" for w
    by (auto simp: site_def dirs_okD(3))
  ultimately show "triple (site cur tp root (\<lambda>B c. J B c \<and> ex = (B (secrets_of root) \<noteq> None)))
      (if \<not> ex then ret [] else bindM (mapM_err lithium_io (read_dir (secrets_of root))) (\<lambda>ents.
        bindM (scan_entries ents []) (\<lambda>out. ret (sort out)))) ?P (\<lambda>_. site cur tp root J) (site cur tp root J)"
    by (cases ex) (auto intro!: triple_ret elim!: triple_pre simp: site_conj)
qed (simp add: plain_path_def)


lemma make_target_under: "prefix root p \<Longrightarrow> make_target root p kt = Inr \<lparr>live_path = p, relative_path = drop (length root) p, key_type = kt\<rparr>"
  by (auto simp: make_target_def strip_prefix_def ok_or_def prefix_def)

lemma fixed_site:
  assumes "\<And>p kt. (p, kt) \<in> set cs \<Longrightarrow> plain_path p \<and> prefix root p"
  shows "triple (site cur tp root J) (fixed_targets root cs out)
    (\<lambda>ts. site cur tp root (\<lambda>B c. J B c \<and> set ts = set out \<union> named_targets root cs B)) (\<lambda>_. site cur tp root J) (site cur tp root J)"
  using assms
proof (induction cs arbitrary: out J)
  case Nil
  then show ?case by (auto intro!: triple_ret simp: named_targets_def)
next
  case (Cons pk cs)
  obtain q k where pk: "pk = (q, k)" by fastforce
  let ?S = "site cur tp root" and ?t = "\<lparr>live_path = q, relative_path = drop (length root) q, key_type = k\<rparr>"
  have q: "plain_path q" "prefix root q" using Cons.prems [of q k] pk by auto
  have "triple (?S J) (bindM (path_exists q) (\<lambda>ex. if ex then fixed_targets root cs (out @ [?t]) else fixed_targets root cs out))
      (\<lambda>ts. ?S (\<lambda>B c. J B c \<and> set ts = set out \<union> named_targets root (pk # cs) B)) (\<lambda>_. ?S J) (?S J)"
  proof (rule triple_bind [OF path_exists_site [OF q(1)]])
    fix ex
    let ?o = "if ex then out @ [?t] else out"
    have IH: "triple (?S (\<lambda>B c. J B c \<and> ex = (B q \<noteq> None))) (fixed_targets root cs ?o)
        (\<lambda>ts. ?S (\<lambda>B c. (J B c \<and> ex = (B q \<noteq> None)) \<and> set ts = set ?o \<union> named_targets root cs B))
        (\<lambda>_. ?S (\<lambda>B c. J B c \<and> ex = (B q \<noteq> None))) (?S (\<lambda>B c. J B c \<and> ex = (B q \<noteq> None)))"
      by (rule Cons.IH) (use Cons.prems in auto)
    have step: "set ?o \<union> named_targets root cs B = set out \<union> named_targets root (pk # cs) B" if "ex = (B q \<noteq> None)" for B
      using that unfolding pk named_targets_def by (cases ex) auto
    have prog: "(if ex then fixed_targets root cs (out @ [?t]) else fixed_targets root cs out) = fixed_targets root cs ?o"
      by simp
    show "triple (?S (\<lambda>B c. J B c \<and> ex = (B q \<noteq> None)))
        (if ex then fixed_targets root cs (out @ [?t]) else fixed_targets root cs out)
        (\<lambda>ts. ?S (\<lambda>B c. J B c \<and> set ts = set out \<union> named_targets root (pk # cs) B)) (\<lambda>_. ?S J) (?S J)"
      unfolding prog by (rule triple_conseq [OF IH]; (assumption | (erule site_mono, blast) | (erule site_mono, metis step)))
  qed
  moreover have prog: "fixed_targets root (pk # cs) out
      = bindM (path_exists q) (\<lambda>ex. if ex then fixed_targets root cs (out @ [?t]) else fixed_targets root cs out)"
    by (rule ext) (simp add: pk make_target_under [OF q(2)] liftR_def bindM_def ret_def split: prod.splits outcome.splits)
  ultimately show ?case unfolding prog by blast
qed

lemma secret_targets_map:
  assumes "secret_targets root ps = Inr ts" and "\<And>p. p \<in> set ps \<Longrightarrow> p \<noteq> [] \<and> prefix root p"
  shows "set ts = (\<lambda>p. \<lparr>live_path = p, relative_path = drop (length root) p, key_type = label_key_type_from_hex (fst (split_ext (last p)))\<rparr>) ` set ps"
  using assms
proof (induction ps arbitrary: ts)
  case (Cons p ps)
  then show ?case by (auto simp: make_target_under file_stem_def ok_or_def rbind_Inr_iff)
qed simp

lemma targets_of_live:
  "target_of root ` live_paths root B
   = named_targets root [(join (priv_of root) ED_PRIV, KT_ED_SEED), (join (priv_of root) DILI_PRIV, KT_DILI_SEED)] B
     \<union> (\<lambda>p. \<lparr>live_path = p, relative_path = drop (length root) p, key_type = label_key_type_from_hex (fst (split_ext (last p)))\<rparr>)
        ` {q. secret_path root q \<and> (\<exists>m d. B q = Some (File m d))}" (is "_ = ?F \<union> ?G")
proof -
  have "kt_of root q = label_key_type_from_hex (fst (split_ext (last q)))" if "secret_path root q" for q
    using that by (auto simp: kt_of_def secret_path_def layout_defs butlast_append)
  then have "target_of root ` {q. secret_path root q \<and> (\<exists>m d. B q = Some (File m d))} = ?G"
    by (intro image_cong) (simp_all add: target_of_def)
  moreover have "ED_PRIV \<noteq> DILI_PRIV" by (simp add: ED_PRIV_def DILI_PRIV_def)
  then have "target_of root ` {q. q \<in> fixed_paths root \<and> B q \<noteq> None} = ?F"
    by (auto simp: fixed_paths_def target_of_def kt_of_def join_def image_iff named_targets_def)
  ultimately show ?thesis by (simp only: live_paths_def image_Un)
qed

lemma collect_site:
  "triple (site cur tp root J) (collect_rewrap_targets root (priv_of root) (secrets_of root))
    (\<lambda>ts. site cur tp root (\<lambda>B c. J B c \<and> set ts = target_of root ` live_paths root B)) (\<lambda>_. site cur tp root J) (site cur tp root J)"
  unfolding collect_rewrap_targets_def
proof -
  let ?S = "site cur tp root"
  let ?cs = "[(join (priv_of root) ED_PRIV, KT_ED_SEED), (join (priv_of root) DILI_PRIV, KT_DILI_SEED)]"
  have cs: "plain_path p \<and> prefix root p" if "(p, kt) \<in> set ?cs" for p kt
    using that by (auto simp: plain_path_def join_def priv_of_def butlast_append)
  let ?K = "\<lambda>fixed B c. J B c \<and> set fixed = named_targets root ?cs B"
  have fixed: "triple (?S J) (fixed_targets root ?cs []) (\<lambda>fixed. ?S (?K fixed)) (\<lambda>_. ?S J) (?S J)"
    by (rule triple_conseq [OF fixed_site [where J = J and cs = ?cs and out = "[]", OF cs]]) (auto elim: site_mono)
  let ?L = "\<lambda>fixed ps B c. ?K fixed B c \<and> set ps = {q. secret_path root q \<and> (\<exists>m d. B q = Some (File m d))}"
  have "triple (?S (?L fixed ps)) (bindM (liftR (secret_targets root ps)) (\<lambda>secs. ret (sort_key relative_path (fixed @ secs))))
      (\<lambda>ts. ?S (\<lambda>B c. J B c \<and> set ts = target_of root ` live_paths root B)) (\<lambda>_. ?S J) (?S J)" for fixed ps
  proof (rule triple_bind [where R = "\<lambda>secs w. ?S (?L fixed ps) w \<and> secret_targets root ps = Inr secs"])
    show "triple (?S (?L fixed ps)) (liftR (secret_targets root ps)) (\<lambda>secs w. ?S (?L fixed ps) w \<and> secret_targets root ps = Inr secs)
        (\<lambda>_. ?S J) (?S J)"
      by (rule triple_liftR) (auto elim: site_mono)
    fix secs
    show "triple (\<lambda>w. ?S (?L fixed ps) w \<and> secret_targets root ps = Inr secs) (ret (sort_key relative_path (fixed @ secs)))
        (\<lambda>ts. ?S (\<lambda>B c. J B c \<and> set ts = target_of root ` live_paths root B)) (\<lambda>_. ?S J) (?S J)"
    proof (rule triple_ret)
      fix w assume w: "?S (?L fixed ps) w \<and> secret_targets root ps = Inr secs"
      have "p \<noteq> [] \<and> prefix root p" if "p \<in> set ps" for p
        using that w prefixeq_butlast [of p] by (auto simp: site_def secret_path_def secrets_of_def join_def prefix_def)
      then show "?S (\<lambda>B c. J B c \<and> set (sort_key relative_path (fixed @ secs)) = target_of root ` live_paths root B) w"
        using w secret_targets_map [of ps secs] by (auto simp only: targets_of_live set_append set_sort site_def)
    qed
  qed
  moreover have "triple (?S (?K fixed)) (list_dir_keyfiles (secrets_of root)) (\<lambda>ps. ?S (?L fixed ps)) (\<lambda>_. ?S J) (?S J)" for fixed
    by (rule triple_conseq [OF list_site [where J = "?K fixed"]]) (auto elim: site_mono)
  ultimately have "triple (?S (?K fixed)) (bindM (list_dir_keyfiles (secrets_of root)) (\<lambda>paths.
      bindM (liftR (secret_targets root paths)) (\<lambda>secs. ret (sort_key relative_path (fixed @ secs)))))
      (\<lambda>ts. ?S (\<lambda>B c. J B c \<and> set ts = target_of root ` live_paths root B)) (\<lambda>_. ?S J) (?S J)" for fixed
    by (intro triple_bind [where R = "\<lambda>ps. ?S (?L fixed ps)"])
  with fixed show "triple (?S J) (bindM (fixed_targets root ?cs []) (\<lambda>fixed.
      bindM (list_dir_keyfiles (secrets_of root)) (\<lambda>paths.
      bindM (liftR (secret_targets root paths)) (\<lambda>secs. ret (sort_key relative_path (fixed @ secs))))))
      (\<lambda>ts. ?S (\<lambda>B c. J B c \<and> set ts = target_of root ` live_paths root B)) (\<lambda>_. ?S J) (?S J)"
    by (rule triple_bind)
qed

end

end
