(* ===== verification/Phases.thy ===== *)
theory Phases
  imports SiteOps
begin

text \<open>
  The phases of a master-key rotation as assertions about a site.  Outside a rotation the site is
  \<open>quiet\<close>: every keyfile opens under the stored master key.  From the ready marker to the switch of the
  provider it is \<open>pending\<close>: the staged copies open under the new key, the live files under the old or the
  new one, and the rotation area tells the one from the other.  After the switch it is \<open>settled\<close> until the
  rotation area is gone.  A phase depends only on a few paths, its spots, and the rules of the
  previous theories are specialized to assertions of that kind.
\<close>

section \<open>Keyfiles under a key\<close>

definition holds :: "crates \<Rightarrow> bytes \<Rightarrow> string \<Rightarrow> bytes \<Rightarrow> node option \<Rightarrow> bool" where
  "holds cr mk kt x n \<longleftrightarrow> (\<exists>m d. n = Some (File m d) \<and> m AND 0x3f = 0 \<and> length d \<le> MAX_KEYFILE_SIZE
     \<and> open_bytes cr mk kt d = Inr x)"

definition only_gives :: "crates \<Rightarrow> bytes \<Rightarrow> string \<Rightarrow> bytes \<Rightarrow> node option \<Rightarrow> bool" where
  "only_gives cr mk kt x n \<longleftrightarrow> (\<forall>m d y. n = Some (File m d) \<and> open_secret32 cr mk kt d = Inr y \<longrightarrow> y = x)"

definition refuses :: "crates \<Rightarrow> bytes \<Rightarrow> string \<Rightarrow> node option \<Rightarrow> bool" where
  "refuses cr mk kt n \<longleftrightarrow> (\<forall>m d y. n = Some (File m d) \<longrightarrow> open_secret32 cr mk kt d \<noteq> Inr y)"

text \<open>Two master keys that the generator keeps apart: a data key wrapped under one, with salt and nonce from
  the tape, does not unwrap under the other.\<close>

definition keys_apart :: "crates \<Rightarrow> (nat \<Rightarrow> u8) \<Rightarrow> bytes \<Rightarrow> bytes \<Rightarrow> bool" where
  "keys_apart cr tp a b \<longleftrightarrow> (\<forall>r kt dek e. drawn tp 32 dek \<and> drawn tp 32 (kf_salt r) \<and> drawn tp 12 (kf_nonce_wrap r)
     \<and> kf_version r = KEYFILE_VERSION \<and> record_dek cr r a kt = Inr dek \<longrightarrow> record_dek cr r b kt \<noteq> Inr e)"

definition sealed_under :: "crates \<Rightarrow> (nat \<Rightarrow> u8) \<Rightarrow> bytes \<Rightarrow> string \<Rightarrow> bytes \<Rightarrow> bytes \<Rightarrow> bool" where
  "sealed_under cr tp mk kt x d \<longleftrightarrow> length d \<le> MAX_KEYFILE_SIZE \<and> open_bytes cr mk kt d = Inr x
     \<and> (\<forall>b y. keys_apart cr tp mk b \<longrightarrow> open_secret32 cr b kt d \<noteq> Inr y)"

lemma encode_sealed:
  assumes "aead_ok cr" and "hkdf_ok cr" and "length x = 32" and "encode_encrypted cr mk x kt w = (Done d, w')"
  shows "sealed_under cr (rng_tape w) mk kt x d"
proof -
  have len: "length x + 16 < 2 ^ 32" using assms(3) by simp
  obtain r dek where r: "d = build_record r" "keyfile_wf r" "check_header r = Inr ()" "kf_version r = KEYFILE_VERSION"
      "record_dek cr r mk kt = Inr dek" "drawn (rng_tape w) 32 dek" "drawn (rng_tape w) 32 (kf_salt r)"
      "drawn (rng_tape w) 12 (kf_nonce_wrap r)"
    by (rule encode_encryptedE [OF assms(1,2) len assms(4)])
  have "open_secret32 cr b kt d \<noteq> Inr y" if apart: "keys_apart cr (rng_tape w) mk b" for b y
  proof -
    have "record_dek cr r b kt \<noteq> Inr e" for e using apart r unfolding keys_apart_def by blast
    then show ?thesis by (cases "record_dek cr r b kt") (auto simp: open_secret32_bytes r(1) open_bytes_record [OF r(2,3)])
  qed
  then show ?thesis
    using encode_encrypted_opens [OF assms(1,2) len assms(4)] assms(3) by (simp add: sealed_under_def MAX_KEYFILE_SIZE_def)
qed

lemma open_secret32_of_bytes: "length x = 32 \<Longrightarrow> open_bytes cr mk kt d = Inr x \<Longrightarrow> open_secret32 cr mk kt d = Inr x"
  by (simp add: open_secret32_bytes sec_fixed_from_slice_def)

section \<open>Spots\<close>

definition leaf :: "path \<Rightarrow> path \<Rightarrow> bool" where
  "leaf root q \<longleftrightarrow> q \<in> {ready_of root, next_old_of root, next_new_of root} \<or> (\<exists>k. key_path root k \<and> q = staged_of root k)"

definition spot :: "path \<Rightarrow> path \<Rightarrow> bool" where
  "spot root q \<longleftrightarrow> leaf root q \<or> key_path root q"

definition spotwise :: "path \<Rightarrow> assertion \<Rightarrow> bool" where
  "spotwise root J \<longleftrightarrow> (\<forall>B B' c. (\<forall>q. spot root q \<longrightarrow> B' q = B q) \<longrightarrow> J B c \<longrightarrow> J B' c)"

lemma rot_names:
  "extension (p @ [ROTATE_READY_FILE]) = None" "extension (p @ [ROTATE_NEXT_OLD_FILE]) = Some ''keyf''"
  "extension (p @ [ROTATE_NEXT_NEW_FILE]) = Some ''keyf''"
  by (simp_all add: extension_def split_ext_def ROTATE_READY_FILE_def ROTATE_NEXT_OLD_FILE_def ROTATE_NEXT_NEW_FILE_def Let_def)

lemma rot_names_apart:
  "ROTATE_READY_FILE \<noteq> ROTATE_STAGE_DIR" "ROTATE_NEXT_OLD_FILE \<noteq> ROTATE_STAGE_DIR" "ROTATE_NEXT_NEW_FILE \<noteq> ROTATE_STAGE_DIR"
  "ROTATE_READY_FILE \<noteq> []" "ROTATE_NEXT_OLD_FILE \<noteq> []" "ROTATE_NEXT_NEW_FILE \<noteq> []"
  "ROTATE_READY_FILE \<noteq> ROTATE_NEXT_OLD_FILE" "ROTATE_READY_FILE \<noteq> ROTATE_NEXT_NEW_FILE" "ROTATE_NEXT_OLD_FILE \<noteq> ROTATE_NEXT_NEW_FILE"
  by (simp_all add: ROTATE_STAGE_DIR_def ROTATE_READY_FILE_def ROTATE_NEXT_OLD_FILE_def ROTATE_NEXT_NEW_FILE_def)

lemma leaf_shape:
  assumes "leaf root q"
  shows "\<exists>x. x \<noteq> [] \<and> (extension q = Some ''keyf'' \<or> extension q = None) \<and>
    (q = rot_of root @ [x] \<and> x \<noteq> ROTATE_STAGE_DIR \<or> (\<exists>d. (d = PRIV_DIR \<or> d = SECRETS_DIR) \<and> q = rot_of root @ [ROTATE_STAGE_DIR, d, x]))"
proof (cases "q \<in> {ready_of root, next_old_of root, next_new_of root}")
  case True
  then obtain x where "q = rot_of root @ [x]" "x \<in> {ROTATE_READY_FILE, ROTATE_NEXT_OLD_FILE, ROTATE_NEXT_NEW_FILE}"
    by (auto simp: ready_of_def next_old_of_def next_new_of_def join_def)
  then show ?thesis using rot_names [of "rot_of root"] rot_names_apart by auto
next
  case False
  then obtain k where "key_path root k" "q = staged_of root k" using assms by (auto simp: leaf_def)
  then show ?thesis using staged_under [of root k] by iprover
qed

lemma key_path_shape: "key_path root q \<Longrightarrow> \<exists>x d. x \<noteq> [] \<and> extension q = Some ''keyf'' \<and> (d = PRIV_DIR \<or> d = SECRETS_DIR) \<and> q = root @ [d, x]"
  by (erule key_pathE) (auto simp: priv_of_def secrets_of_def join_def)

lemma names_apart: "ROTATE_DIR \<noteq> PRIV_DIR" "ROTATE_DIR \<noteq> SECRETS_DIR"
  by (simp_all add: ROTATE_DIR_def PRIV_DIR_def SECRETS_DIR_def)

lemma spot_not_above: "spot root q \<Longrightarrow> spot root p \<Longrightarrow> \<not> strict_prefix q p"
  using names_apart leaf_shape [of root q] leaf_shape [of root p] key_path_shape [of root q] key_path_shape [of root p]
  by (auto simp: spot_def rot_of_def join_def strict_prefix_def prefix_def)

lemma spot_target: "spot root p \<Longrightarrow> target_path p \<and> site_path root p \<and> \<not> is_tmp p"
  using leaf_shape [of root p] key_path_shape [of root p]
  by (auto simp: spot_def target_path_def is_tmp_def site_path_def rot_of_def join_def)

lemma leaf_not_key: "leaf root q \<Longrightarrow> \<not> key_path root q"
  using names_apart leaf_shape [of root q] key_path_shape [of root q] by (auto simp: rot_of_def join_def)

lemma leaf_prefix: "leaf root q \<Longrightarrow> prefix (rot_of root) q"
  using leaf_shape [of root q] by (auto simp: prefix_def)

lemma key_path_not_rot: "key_path root q \<Longrightarrow> \<not> prefix (rot_of root) q"
  using names_apart key_path_shape [of root q] by (auto simp: rot_of_def join_def prefix_def)

lemma spot_ne: "spot root q \<Longrightarrow> q \<noteq> []"
  using spot_target by (auto simp: target_path_def)

lemma near_spot: "near root p B B' \<Longrightarrow> spot root p \<Longrightarrow> spot root q \<Longrightarrow> q \<noteq> p \<Longrightarrow> B' q = B q"
  by (rule near_kept [where p = p and root = root]) (auto simp: spot_ne spot_target dest: spot_not_above)

lemma spot_leafs: "leaf root (ready_of root)" "leaf root (next_old_of root)" "leaf root (next_new_of root)"
  "key_path root k \<Longrightarrow> leaf root (staged_of root k)"
  by (auto simp: leaf_def)

section \<open>Phases\<close>

text \<open>\<open>L\<close> are the keyfiles of the site, \<open>PL\<close> their payloads and \<open>K\<close> the master keys in use.\<close>

definition all_hold :: "crates \<Rightarrow> path \<Rightarrow> path set \<Rightarrow> (path \<Rightarrow> bytes) \<Rightarrow> bytes \<Rightarrow> (path \<rightharpoonup> node) \<Rightarrow> bool" where
  "all_hold cr root L PL mk B \<longleftrightarrow> (\<forall>q\<in>L. holds cr mk (kt_of root q) (PL q) (B q))"

definition quiet :: "crates \<Rightarrow> path \<Rightarrow> path set \<Rightarrow> (path \<Rightarrow> bytes) \<Rightarrow> bytes set \<Rightarrow> bytes \<Rightarrow> assertion" where
  "quiet cr root L PL K m B c \<longleftrightarrow> c = Some m \<and> m \<in> K \<and> live_paths root B = L \<and> all_hold cr root L PL m B
     \<and> B (ready_of root) = None"

definition next_old_ok :: "crates \<Rightarrow> path \<Rightarrow> bytes \<Rightarrow> bytes \<Rightarrow> (path \<rightharpoonup> node) \<Rightarrow> bool" where
  "next_old_ok cr root old new B \<longleftrightarrow> holds cr old KT_ROTATE_NEXT_OLD new (B (next_old_of root))
     \<and> only_gives cr new KT_ROTATE_NEXT_OLD new (B (next_old_of root))"

definition next_new_ok :: "crates \<Rightarrow> path \<Rightarrow> bytes \<Rightarrow> bytes \<Rightarrow> (path \<rightharpoonup> node) \<Rightarrow> bool" where
  "next_new_ok cr root old new B \<longleftrightarrow> holds cr new KT_ROTATE_NEXT_NEW new (B (next_new_of root))
     \<and> (old = new \<or> refuses cr old KT_ROTATE_NEXT_NEW (B (next_new_of root)))"

definition staged_ok :: "crates \<Rightarrow> path \<Rightarrow> path set \<Rightarrow> (path \<Rightarrow> bytes) \<Rightarrow> bytes \<Rightarrow> (path \<rightharpoonup> node) \<Rightarrow> bool" where
  "staged_ok cr root L PL new B \<longleftrightarrow> (\<forall>q\<in>L. holds cr new (kt_of root q) (PL q) (B (staged_of root q)))"

definition pending :: "crates \<Rightarrow> path \<Rightarrow> path set \<Rightarrow> (path \<Rightarrow> bytes) \<Rightarrow> bytes set \<Rightarrow> bytes \<Rightarrow> bytes \<Rightarrow> assertion" where
  "pending cr root L PL K old new B c \<longleftrightarrow> c = Some old \<and> old \<in> K \<and> new \<in> K \<and> length new = 32 \<and> live_paths root B = L
     \<and> (\<forall>q\<in>L. holds cr old (kt_of root q) (PL q) (B q) \<or> holds cr new (kt_of root q) (PL q) (B q))
     \<and> staged_ok cr root L PL new B \<and> B (ready_of root) \<noteq> None
     \<and> next_old_ok cr root old new B \<and> next_new_ok cr root old new B"

definition settled :: "crates \<Rightarrow> path \<Rightarrow> path set \<Rightarrow> (path \<Rightarrow> bytes) \<Rightarrow> bytes set \<Rightarrow> bytes \<Rightarrow> assertion" where
  "settled cr root L PL K new B c \<longleftrightarrow> c = Some new \<and> new \<in> K \<and> length new = 32 \<and> live_paths root B = L
     \<and> all_hold cr root L PL new B
     \<and> (\<forall>q\<in>L. B (staged_of root q) = None \<or> holds cr new (kt_of root q) (PL q) (B (staged_of root q)))
     \<and> only_gives cr new KT_ROTATE_NEXT_NEW new (B (next_new_of root))
     \<and> only_gives cr new KT_ROTATE_NEXT_OLD new (B (next_old_of root))"

definition safe :: "crates \<Rightarrow> path \<Rightarrow> path set \<Rightarrow> (path \<Rightarrow> bytes) \<Rightarrow> bytes set \<Rightarrow> assertion" where
  "safe cr root L PL K B c \<longleftrightarrow> (\<exists>m. quiet cr root L PL K m B c) \<or> (\<exists>old new. pending cr root L PL K old new B c)
     \<or> (\<exists>new. settled cr root L PL K new B c)"

lemmas phase_parts = all_hold_def next_old_ok_def next_new_ok_def staged_ok_def

lemma live_spots: "(\<And>q. key_path root q \<Longrightarrow> B' q = B q) \<Longrightarrow> live_paths root B' = live_paths root B"
  by (auto simp: live_paths_def key_path_def)

lemma spotwiseI: "(\<And>B B' c. (\<And>q. spot root q \<Longrightarrow> B' q = B q) \<Longrightarrow> J B c \<Longrightarrow> J B' c) \<Longrightarrow> spotwise root J"
  by (auto simp: spotwise_def)

lemma spotwiseD: "spotwise root J \<Longrightarrow> J B c \<Longrightarrow> (\<And>q. spot root q \<Longrightarrow> B' q = B q) \<Longrightarrow> J B' c"
  by (auto simp: spotwise_def)

lemma spotwise_conj:
  assumes "spotwise root J" and "spotwise root H"
  shows "spotwise root (\<lambda>B c. J B c \<and> H B c)"
  by (rule spotwiseI) (use spotwiseD [OF assms(1)] spotwiseD [OF assms(2)] in meson)

lemma all_hold_spots:
  assumes "live_paths root B = L" and "\<And>q. spot root q \<Longrightarrow> B' q = B q"
  shows "live_paths root B' = L" and "\<And>q. q \<in> L \<Longrightarrow> B' q = B q" and "\<And>q. q \<in> L \<Longrightarrow> B' (staged_of root q) = B (staged_of root q)"
proof -
  show "live_paths root B' = L" using assms live_spots [of root B' B] by (simp add: spot_def)
  show "B' q = B q" if "q \<in> L" for q using that assms live_key_path by (auto simp: spot_def)
  show "B' (staged_of root q) = B (staged_of root q)" if "q \<in> L" for q
    using that assms live_key_path by (auto simp: spot_def spot_leafs)
qed

lemma spotwise_quiet: "spotwise root (quiet cr root L PL K m)"
proof (rule spotwiseI)
  fix B B' c assume eq: "\<And>q. spot root q \<Longrightarrow> B' q = B q" and q: "quiet cr root L PL K m B c"
  then have "live_paths root B = L" by (simp add: quiet_def)
  note same = all_hold_spots [OF this eq]
  show "quiet cr root L PL K m B' c"
    using q same(1,2) eq [of "ready_of root"] by (simp add: quiet_def all_hold_def spot_def spot_leafs)
qed

lemma spotwise_staged: "spotwise root (\<lambda>B c. quiet cr root L PL K m B c \<and> (\<forall>q\<in>L \<inter> A. H q (B (staged_of root q))))"
proof (rule spotwiseI)
  fix B B' c assume eq: "\<And>q. spot root q \<Longrightarrow> B' q = B q"
    and q: "quiet cr root L PL K m B c \<and> (\<forall>q\<in>L \<inter> A. H q (B (staged_of root q)))"
  then have "live_paths root B = L" by (simp add: quiet_def)
  note same = all_hold_spots [OF this eq]
  show "quiet cr root L PL K m B' c \<and> (\<forall>q\<in>L \<inter> A. H q (B' (staged_of root q)))"
    using q same(3) spotwiseD [OF spotwise_quiet, of cr root L PL K m B c B'] eq by auto
qed

lemma spotwise_next: "spotwise root (\<lambda>B c. next_old_ok cr root old new B)" "spotwise root (\<lambda>B c. next_new_ok cr root old new B)"
  by (auto intro!: spotwiseI simp: next_old_ok_def next_new_ok_def spot_def spot_leafs)

lemma spotwise_pending: "spotwise root (pending cr root L PL K old new)"
proof (rule spotwiseI)
  fix B B' c assume eq: "\<And>q. spot root q \<Longrightarrow> B' q = B q" and p: "pending cr root L PL K old new B c"
  then have "live_paths root B = L" by (simp add: pending_def)
  note same = all_hold_spots [OF this eq]
  have "B' (ready_of root) = B (ready_of root)" "B' (next_old_of root) = B (next_old_of root)" "B' (next_new_of root) = B (next_new_of root)"
    by (simp_all add: eq spot_def spot_leafs)
  then show "pending cr root L PL K old new B' c" using p same by (simp add: pending_def phase_parts)
qed

lemma spotwise_settled: "spotwise root (settled cr root L PL K new)"
proof (rule spotwiseI)
  fix B B' c assume eq: "\<And>q. spot root q \<Longrightarrow> B' q = B q" and p: "settled cr root L PL K new B c"
  then have "live_paths root B = L" by (simp add: settled_def)
  note same = all_hold_spots [OF this eq]
  have "B' (next_old_of root) = B (next_old_of root)" "B' (next_new_of root) = B (next_new_of root)"
    by (simp_all add: eq spot_def spot_leafs)
  then show "settled cr root L PL K new B' c" using p same by (simp add: settled_def phase_parts)
qed

section \<open>Rules for spots\<close>

context site_rules
begin

lemma spot_prefix_tmp:
  assumes "spot root p" and "prefix q p"
  shows "\<not> is_tmp q"
proof -
  have dir: "\<not> is_tmp q" if "last q \<in> {ROTATE_DIR, ROTATE_STAGE_DIR, PRIV_DIR, SECRETS_DIR}"
    using that by (auto simp: is_tmp_def extension_def split_ext_def Let_def ROTATE_DIR_def ROTATE_STAGE_DIR_def PRIV_DIR_def SECRETS_DIR_def)
  have "q = p \<or> prefix q root \<or> last q \<in> {ROTATE_DIR, ROTATE_STAGE_DIR, PRIV_DIR, SECRETS_DIR}"
    using assms leaf_shape [of root p] key_path_shape [of root p]
    by (auto simp: spot_def rot_of_def join_def prefix_append prefix_Cons)
  then show ?thesis using spot_target [OF assms(1)] root_tmp dir by blast
qed

lemma write_spot:
  assumes p: "spot root p" and "spotwise root J" and "spotwise root K" and ch: "\<And>B c. J B c \<Longrightarrow> K (B(p \<mapsto> File 0x180 data)) c"
  shows "triple (site cur tp root J) (write_secure cr p data) (\<lambda>_. site cur tp root K) (\<lambda>_. site cur tp root J)
    (\<lambda>w. site cur tp root J w \<or> site cur tp root K w)"
proof (rule write_site)
  show "site_path root p" "target_path p" using spot_target [OF p] by simp_all
  show "\<not> is_tmp q" if "prefix q p" for q by (rule spot_prefix_tmp [OF p that])
  fix B B' c assume J: "J B c" and near: "near root p B B'"
  show "J B' c" if "B' p = B p"
    by (rule spotwiseD [OF assms(2) J]) (use that near_spot [OF near p] in metis)
  show "K B' c" if "B' p = Some (File 0x180 data)"
    by (rule spotwiseD [OF assms(3) ch [OF J]]) (use that near_spot [OF near p] in \<open>metis fun_upd_apply\<close>)
qed

lemma ensure_spot:
  assumes "prefix (rot_of root) d" and "leaf root p" and "strict_prefix d p" and "spotwise root J"
  shows "keeps (site cur tp root J) (ensure_private_dir d)"
proof (rule ensure_site [OF assms(1)])
  have p: "spot root p" using assms(2) by (simp add: spot_def)
  show "\<not> is_tmp q" if "prefix q d" for q
    using spot_prefix_tmp [OF p] that assms(3) by (meson prefix_order.trans strict_prefix_def)
  fix B c q assume J: "J B c" and q: "prefix q d" "B q = None"
  have "strict_prefix q p" using q(1) assms(3) by (meson prefix_order.le_less_trans)
  then have "\<not> spot root q" using spot_not_above p by blast
  then show "J (B(q \<mapsto> Dir 0x1c0)) c" by (intro spotwiseD [OF assms(4) J]) auto
qed

end

end
