(* ===== verification/Rotation.thy ===== *)
theory Rotation
  imports Phases
begin

text \<open>
  Master-key rotation (\<open>rotate_now\<close>, \<open>commit_rotation\<close>, \<open>recover_pending_rotation_if_any\<close> of
  \<^verbatim>\<open>src/src/keys/manager.rs\<close>) moves a site through its phases and never loses a payload, whatever system
  call other than \<open>stat\<close> fails and wherever the process dies.
\<close>

definition reads :: "crates \<Rightarrow> bytes \<Rightarrow> string \<Rightarrow> bytes \<Rightarrow> node option \<Rightarrow> bool" where
  "reads cr mk kt x n \<longleftrightarrow> (\<exists>m d. n = Some (File m d) \<and> open_secret32 cr mk kt d = Inr x)"

lemma site_ex: "site cur tp root (\<lambda>B c. \<exists>x. J x B c) w \<longleftrightarrow> (\<exists>x. site cur tp root (J x) w)"
  by (simp add: site_def)

lemma site_or: "site cur tp root (\<lambda>B c. J B c \<or> H B c) w \<longleftrightarrow> site cur tp root J w \<or> site cur tp root H w"
  by (auto simp: site_def)

lemma spot_under_root: "spot root q \<Longrightarrow> prefix root q"
  using leaf_prefix [of root q] key_path_shape [of root q] by (auto simp: spot_def rot_of_def join_def prefix_def)

lemma spotwise_below: "spotwise root J \<Longrightarrow> below root (\<lambda>B. J B c)"
  unfolding below_def by (metis spotwiseD spot_under_root)

lemma target_of_simps [simp]:
  "live_path (target_of root q) = q" "relative_path (target_of root q) = drop (length root) q" "key_type (target_of root q) = kt_of root q"
  by (simp_all add: target_of_def)

lemma holds_reads: "length x = 32 \<Longrightarrow> holds cr mk kt x n \<Longrightarrow> reads cr mk kt y n \<Longrightarrow> y = x"
  by (auto simp: holds_def reads_def open_secret32_of_bytes)

lemma holds_file: "length d \<le> MAX_KEYFILE_SIZE \<Longrightarrow> open_bytes cr mk kt d = Inr x \<Longrightarrow> holds cr mk kt x (Some (File 0x180 d))"
  by (simp add: holds_def)

lemma triple_assume: "(A \<Longrightarrow> triple P m Q F C) \<Longrightarrow> triple (\<lambda>w. P w \<and> A) m Q F C"
  by (cases A) (simp_all add: triple_def)

section \<open>Phases under single changes\<close>

lemma quiet_remove: "quiet cr root L PL K m B c \<Longrightarrow> prefix (rot_of root) q \<Longrightarrow> quiet cr root L PL K m (B(q := None)) c"
proof -
  assume q: "quiet cr root L PL K m B c" and rot: "prefix (rot_of root) q"
  have same: "(B(q := None)) k = B k" if "key_path root k" for k using key_path_not_rot [OF that] rot by auto
  then have "live_paths root (B(q := None)) = L" using q live_spots [of root "B(q := None)" B] by (simp add: quiet_def)
  moreover have "key_path root k" if "k \<in> L" for k using that q live_key_path by (auto simp: quiet_def)
  ultimately show ?thesis using q same by (simp add: quiet_def all_hold_def)
qed

lemma settled_remove: "settled cr root L PL K m B c \<Longrightarrow> prefix (rot_of root) q \<Longrightarrow> settled cr root L PL K m (B(q := None)) c"
proof -
  assume q: "settled cr root L PL K m B c" and rot: "prefix (rot_of root) q"
  define B' where "B' = B(q := None)"
  have key: "B' k = B k" if "key_path root k" for k using key_path_not_rot [OF that] rot by (auto simp: B'_def)
  have other: "B' k = B k \<or> B' k = None" for k by (simp add: B'_def)
  have "live_paths root B' = L" using q key live_spots [of root B' B] by (simp add: settled_def)
  moreover have "B' k = B k" if "k \<in> L" for k using that q live_key_path by (intro key) (auto simp: settled_def)
  moreover have "only_gives cr a kt b (B k) \<Longrightarrow> only_gives cr a kt b (B' k)" for a kt b k
    using other [of k] by (auto simp: only_gives_def)
  moreover have "B (staged_of root k) = None \<or> H (B (staged_of root k)) \<Longrightarrow> B' (staged_of root k) = None \<or> H (B' (staged_of root k))" for k H
    using other [of "staged_of root k"] by auto
  ultimately show ?thesis using q unfolding B'_def [symmetric] settled_def all_hold_def by simp
qed

text \<open>Replacing a keyfile by its staged copy.\<close>

lemma live_replace:
  assumes "live_paths root B = L" and "q \<in> L" and "holds cr mk kt x (B q) \<or> holds cr mk' kt x (B q)" and "holds cr mk'' kt x n"
  shows "live_paths root (B(q := n)) = L" and "k \<in> L \<Longrightarrow> k \<noteq> q \<Longrightarrow> (B(q := n)) k = B k"
    and "leaf root k \<Longrightarrow> (B(q := n)) k = B k"
proof -
  have kp: "key_path root q" using assms(1,2) live_key_path by auto
  have "\<exists>m d. B q = Some (File m d)" "\<exists>m d. n = Some (File m d)" using assms(3,4) by (auto simp: holds_def)
  then show "live_paths root (B(q := n)) = L" using assms(1,2) kp by (auto simp: live_paths_def key_path_def)
  show "leaf root k \<Longrightarrow> (B(q := n)) k = B k" using kp leaf_not_key by auto
qed simp

definition ripening :: "crates \<Rightarrow> path \<Rightarrow> path set \<Rightarrow> (path \<Rightarrow> bytes) \<Rightarrow> bytes set \<Rightarrow> bytes \<Rightarrow> bytes \<Rightarrow> path set \<Rightarrow> assertion" where
  "ripening cr root L PL K old new A B c \<longleftrightarrow> pending cr root L PL K old new B c
     \<and> (\<forall>q\<in>L \<inter> A. holds cr new (kt_of root q) (PL q) (B q))"

lemma spotwise_ripening: "spotwise root (ripening cr root L PL K old new A)"
proof (rule spotwiseI)
  fix B B' c assume eq: "\<And>q. spot root q \<Longrightarrow> B' q = B q" and r: "ripening cr root L PL K old new A B c"
  then have "live_paths root B = L" by (simp add: ripening_def pending_def)
  note same = all_hold_spots [OF this eq]
  show "ripening cr root L PL K old new A B' c"
    using r same(2) spotwiseD [OF spotwise_pending, of cr root L PL K old new B c B'] eq by (auto simp: ripening_def)
qed

lemma ripening_apply:
  assumes r: "ripening cr root L PL K old new A B c" and q: "q \<in> L" and n: "holds cr new (kt_of root q) (PL q) n"
  shows "ripening cr root L PL K old new (insert q A) (B(q := n)) c"
proof -
  have p: "pending cr root L PL K old new B c" using r by (simp add: ripening_def)
  have live: "live_paths root B = L" and mixed: "holds cr old (kt_of root q) (PL q) (B q) \<or> holds cr new (kt_of root q) (PL q) (B q)"
    using p q by (auto simp: pending_def)
  define B' where "B' = B(q := n)"
  note R = live_replace [OF live q mixed n, folded B'_def]
  have st: "B' (staged_of root k) = B (staged_of root k)" if "k \<in> L" for k
    using that live live_key_path by (intro R(3) spot_leafs) auto
  have "holds cr old (kt_of root k) (PL k) (B' k) \<or> holds cr new (kt_of root k) (PL k) (B' k)" if "k \<in> L" for k
    using that p n R(2) [OF that] by (cases "k = q") (auto simp: pending_def B'_def)
  moreover have "holds cr new (kt_of root k) (PL k) (B' k)" if "k \<in> L \<inter> insert q A" for k
    using that r n R(2) [of k] by (cases "k = q") (auto simp: ripening_def B'_def)
  moreover note R(1) R(3) [OF spot_leafs(1)] R(3) [OF spot_leafs(2)] R(3) [OF spot_leafs(3)]
  ultimately show ?thesis using p st unfolding B'_def [symmetric] ripening_def pending_def phase_parts by simp
qed

lemma ripening_pending: "ripening cr root L PL K old new A B c \<Longrightarrow> pending cr root L PL K old new B c"
  by (simp add: ripening_def)

lemma ripening_staged:
  "ripening cr root L PL K old new A B c \<Longrightarrow> q \<in> L \<Longrightarrow> holds cr new (kt_of root q) (PL q) (B (staged_of root q))"
  by (simp add: ripening_def pending_def staged_ok_def)

lemma settled_staged:
  "settled cr root L PL K new B c \<Longrightarrow> q \<in> L \<Longrightarrow>
    B (staged_of root q) = None \<or> holds cr new (kt_of root q) (PL q) (B (staged_of root q))"
  by (simp add: settled_def)

lemma settled_apply:
  assumes s: "settled cr root L PL K new B c" and q: "q \<in> L" and n: "holds cr new (kt_of root q) (PL q) n"
  shows "settled cr root L PL K new (B(q := n)) c"
proof -
  have live: "live_paths root B = L" and old: "holds cr new (kt_of root q) (PL q) (B q) \<or> holds cr new (kt_of root q) (PL q) (B q)"
    using s q by (auto simp: settled_def all_hold_def)
  define B' where "B' = B(q := n)"
  note R = live_replace [OF live q old n, folded B'_def]
  have st: "B' (staged_of root k) = B (staged_of root k)" if "k \<in> L" for k
    using that live live_key_path by (intro R(3) spot_leafs) auto
  have "holds cr new (kt_of root k) (PL k) (B' k)" if "k \<in> L" for k
    using that s n R(2) [OF that] by (cases "k = q") (auto simp: settled_def all_hold_def B'_def)
  moreover note R(1) R(3) [OF spot_leafs(2)] R(3) [OF spot_leafs(3)]
  ultimately show ?thesis using s st unfolding B'_def [symmetric] settled_def all_hold_def by simp
qed

text \<open>When every live file is under the new key, the switch of the provider settles the rotation.\<close>

lemma ripe_settled:
  assumes "ripening cr root L PL K old new L B c"
  shows "settled cr root L PL K new B (Some new)"
  using assms by (auto simp: ripening_def pending_def settled_def phase_parts only_gives_def holds_def open_secret32_of_bytes)

text \<open>What preparation has reached when the copies of \<open>A\<close> are staged, and what the marker makes of it.\<close>

definition prepared :: "crates \<Rightarrow> path \<Rightarrow> path set \<Rightarrow> (path \<Rightarrow> bytes) \<Rightarrow> bytes set \<Rightarrow> bytes \<Rightarrow> bytes \<Rightarrow> path set \<Rightarrow> assertion" where
  "prepared cr root L PL K old new A B c \<longleftrightarrow> (quiet cr root L PL K old B c
     \<and> (\<forall>q\<in>L \<inter> A. holds cr new (kt_of root q) (PL q) (B (staged_of root q))))
     \<and> next_old_ok cr root old new B \<and> next_new_ok cr root old new B"

lemma spotwise_prepared: "spotwise root (prepared cr root L PL K old new A)"
  unfolding prepared_def by (intro spotwise_conj spotwise_staged spotwise_next)

lemma quiet_leaf:
  assumes "quiet cr root L PL K m B c" and "leaf root p" and "p \<noteq> ready_of root"
  shows "quiet cr root L PL K m (B(p := n)) c"
proof -
  have key: "(B(p := n)) k = B k" if "key_path root k" for k using leaf_not_key [OF assms(2)] that by auto
  then have "live_paths root (B(p := n)) = L" using assms(1) live_spots [of root "B(p := n)" B] by (simp add: quiet_def)
  moreover have "key_path root k" if "k \<in> L" for k using that assms(1) live_key_path by (auto simp: quiet_def)
  ultimately show ?thesis using assms(1,3) key by (simp add: quiet_def all_hold_def)
qed

lemma leafs_apart:
  "next_old_of root \<noteq> ready_of root" "next_new_of root \<noteq> ready_of root" "next_old_of root \<noteq> next_new_of root"
  "key_path root k \<Longrightarrow> staged_of root k \<noteq> ready_of root" "key_path root k \<Longrightarrow> staged_of root k \<noteq> next_old_of root"
  "key_path root k \<Longrightarrow> staged_of root k \<noteq> next_new_of root"
  using rot_names_apart staged_under [of root k] by (auto simp: ready_of_def next_old_of_def next_new_of_def join_def)

lemma prepared_stage:
  assumes p: "prepared cr root L PL K old new A B c" and q: "q \<in> L" and n: "holds cr new (kt_of root q) (PL q) n"
  shows "prepared cr root L PL K old new (insert q A) (B(staged_of root q := n)) c"
proof -
  have kp: "key_path root k" if "k \<in> L" for k using that p live_key_path by (auto simp: prepared_def quiet_def)
  have "quiet cr root L PL K old (B(staged_of root q := n)) c"
    using p kp [OF q] by (intro quiet_leaf) (auto simp: prepared_def spot_leafs leafs_apart)
  moreover have "holds cr new (kt_of root k) (PL k) ((B(staged_of root q := n)) (staged_of root k))" if "k \<in> L \<inter> insert q A" for k
    using that p n staged_inject [of root k q] kp q by (auto simp: prepared_def)
  ultimately show ?thesis
    using p leafs_apart(5,6) [OF kp [OF q]] by (simp add: prepared_def next_old_ok_def next_new_ok_def)
qed

lemma prepared_marked:
  assumes p: "prepared cr root L PL K old new L B c" and "new \<in> K" and "length new = 32"
  shows "pending cr root L PL K old new (B(ready_of root \<mapsto> n)) c \<and> all_hold cr root L PL old (B(ready_of root \<mapsto> n))"
proof -
  define B' where "B' = B(ready_of root \<mapsto> n)"
  have kp: "key_path root k" if "k \<in> L" for k using that p live_key_path by (auto simp: prepared_def quiet_def)
  have same: "B' k = B k" if "spot root k" "k \<noteq> ready_of root" for k using that by (simp add: B'_def)
  have key: "B' k = B k" if "key_path root k" for k
    using that leaf_not_key [OF spot_leafs(1)] by (intro same) (auto simp: spot_def)
  then have "live_paths root B' = L" using p live_spots [of root B' B] by (simp add: prepared_def quiet_def)
  moreover have "B' (staged_of root k) = B (staged_of root k)" if "k \<in> L" for k
    using kp [OF that] by (intro same) (auto simp: spot_def spot_leafs leafs_apart)
  moreover have "B' (next_old_of root) = B (next_old_of root)" "B' (next_new_of root) = B (next_new_of root)"
    by (auto intro!: same simp: spot_def spot_leafs leafs_apart)
  moreover have "B' (ready_of root) = Some n" by (simp add: B'_def)
  ultimately show ?thesis
    using p assms(2,3) key kp unfolding B'_def [symmetric] prepared_def quiet_def pending_def phase_parts by simp
qed

section \<open>The steps\<close>

context site_rules
begin

abbreviation at :: "assertion \<Rightarrow> 'p world \<Rightarrow> bool" where
  "at \<equiv> site cur tp root"

lemma load_next:
  assumes "p \<noteq> []"
  shows "triple (at J) (load_secret32_decrypted cr p mk kt) (\<lambda>x. at (\<lambda>B c. J B c \<and> reads cr mk kt x (B p))) (\<lambda>_. at J) (at J)"
  unfolding load_secret32_decrypted_def
  by (rule triple_bind [OF read_site [OF assms]], rule triple_liftR) (auto elim!: site_mono simp: reads_def)

lemma recover_new_site:
  "triple (at J) (recover_new_mk cr (rot_of root) mk)
    (\<lambda>(x, switched). at (\<lambda>B c. J B c \<and> (if switched then reads cr mk KT_ROTATE_NEXT_NEW x (B (next_new_of root))
       else reads cr mk KT_ROTATE_NEXT_OLD x (B (next_old_of root))))) (\<lambda>_. at J) (at J)"
    (is "triple _ _ ?Q _ _")
proof -
  have ne: "next_old_of root \<noteq> []" "next_new_of root \<noteq> []" by (simp_all add: next_old_of_def next_new_of_def join_def)
  have old: "triple (at J) (bindM (load_secret32_decrypted cr (next_old_of root) mk KT_ROTATE_NEXT_OLD) (\<lambda>c. ret (c, False)))
      ?Q (\<lambda>_. at J) (at J)"
    by (rule triple_bind [OF load_next [OF ne(1)]]) (auto intro: triple_ret)
  have new: "triple (at J) (bindM (tryM (load_secret32_decrypted cr (next_new_of root) mk KT_ROTATE_NEXT_NEW)) (\<lambda>r. case r of
        Inr candidate \<Rightarrow> ret (candidate, True)
      | Inl e \<Rightarrow> bindM (load_secret32_decrypted cr (next_old_of root) mk KT_ROTATE_NEXT_OLD) (\<lambda>c. ret (c, False))))
      ?Q (\<lambda>_. at J) (at J)"
  proof (rule triple_bind [where R = "\<lambda>r. case r of Inr x \<Rightarrow> at (\<lambda>B c. J B c \<and> reads cr mk KT_ROTATE_NEXT_NEW x (B (next_new_of root)))
      | Inl e \<Rightarrow> at J"])
    show "triple (at J) (tryM (load_secret32_decrypted cr (next_new_of root) mk KT_ROTATE_NEXT_NEW))
        (\<lambda>r. case r of Inr x \<Rightarrow> at (\<lambda>B c. J B c \<and> reads cr mk KT_ROTATE_NEXT_NEW x (B (next_new_of root))) | Inl e \<Rightarrow> at J) (\<lambda>_. at J) (at J)"
      by (rule triple_tryM) (simp add: load_next [OF ne(2)])
  qed (use old in \<open>auto split: sum.split intro: triple_ret\<close>)
  show ?thesis
    unfolding recover_new_mk_def Let_def next_old_of_def [symmetric] next_new_of_def [symmetric]
    by (rule triple_bind [OF keeps_path_test(1) [OF site_tick_free]]) (use old new in \<open>simp split: if_split\<close>)
qed


lemma sync_either: "triple (at H) (sync_parent p) (\<lambda>_. at H) (\<lambda>_ w. at J w \<or> at H w) (\<lambda>w. at J w \<or> at H w)"
  by (rule triple_conseq [OF keeps_site(3)]) auto

text \<open>Recovery in two parts: what the rotation area says, and what is done after the marker.\<close>

definition finish_up :: "('p world, unit) leff" where
  "finish_up = bindM (collect_rewrap_targets root (priv_of root) (secrets_of root)) (\<lambda>targets.
     bindM (load_mk prov) (\<lambda>current_mk.
     bindM (recover_new_mk cr (rot_of root) current_mk) (\<lambda>(new_mk, switched).
     bindM (apply_staged_files cr (rot_of root) targets) (\<lambda>_.
     bindM (if \<not> switched then store_mk prov new_mk else ret ()) (\<lambda>_.
     cleanup_rotation_dir (rot_of root))))))"

abbreviation recover :: "('p world, unit) leff" where
  "recover \<equiv> recover_pending_rotation_if_any cr root (priv_of root) (secrets_of root) (rot_of root) prov"

lemma recover_split:
  "recover_pending_rotation_if_any cr root (priv_of root) (secrets_of root) (rot_of root) prov =
     bindM (path_exists (rot_of root)) (\<lambda>ex. if \<not> ex then ret ()
     else bindM (path_exists (ready_of root)) (\<lambda>ready. if \<not> ready then cleanup_rotation_dir (rot_of root) else finish_up))"
  unfolding recover_pending_rotation_if_any_def finish_up_def ready_of_def by (rule refl)

lemma plain_rot: "plain_path (rot_of root)" "plain_path (ready_of root)"
  by (simp_all add: plain_path_def ready_of_def join_def)

text \<open>The cases of recovery: no rotation area, one without a marker, one with it.\<close>

lemma recover_cases:
  assumes none: "\<And>w. at (\<lambda>B c. J B c \<and> B (rot_of root) = None) w \<Longrightarrow> Q w"
    and clean: "triple (at (\<lambda>B c. J B c \<and> B (ready_of root) = None)) (cleanup_rotation_dir (rot_of root)) (\<lambda>_. Q) (\<lambda>_. F) F"
    and comp: "triple (at (\<lambda>B c. J B c \<and> B (ready_of root) \<noteq> None)) finish_up (\<lambda>_. Q) (\<lambda>_. F) F"
  shows "triple (at J) recover (\<lambda>_. Q) (\<lambda>_. F) F"
  unfolding recover_split
proof (rule triple_bind [OF path_exists_site [OF plain_rot(1)]])
  fix ex
  have inner: "triple (at J) (bindM (path_exists (ready_of root)) (\<lambda>ready. if \<not> ready then cleanup_rotation_dir (rot_of root) else finish_up))
      (\<lambda>_. Q) (\<lambda>_. F) F"
  proof (rule triple_bind [OF path_exists_site [OF plain_rot(2)]])
    fix ready
    show "triple (at (\<lambda>B c. J B c \<and> ready = (B (ready_of root) \<noteq> None))) (if \<not> ready then cleanup_rotation_dir (rot_of root) else finish_up)
        (\<lambda>_. Q) (\<lambda>_. F) F"
      using clean comp by (cases ready) (simp_all add: triple_def)
  qed
  show "triple (at (\<lambda>B c. J B c \<and> ex = (B (rot_of root) \<noteq> None))) (if \<not> ex then ret ()
      else bindM (path_exists (ready_of root)) (\<lambda>ready. if \<not> ready then cleanup_rotation_dir (rot_of root) else finish_up))
      (\<lambda>_. Q) (\<lambda>_. F) F"
  proof (cases ex)
    case True
    then show ?thesis by (simp del: not_None_eq) (rule triple_pre [OF inner], erule site_mono, blast)
  next
    case False
    then show ?thesis by (simp del: not_None_eq) (rule triple_ret, rule none, erule site_mono, blast)
  qed
qed

end

text \<open>Parameters of a rotating site: its keyfiles and payloads, and the master keys, among them every key that the
  generator can draw; any two are told apart by the envelope encryption.\<close>

locale rotation_site = site_rules prov cur root cr tp
  for prov :: "'p mk_provider" and cur :: "'p current" and root :: path and cr :: crates and tp :: "nat \<Rightarrow> u8" +
  fixes L :: "path set" and PL :: "path \<Rightarrow> bytes" and K :: "bytes set"
  assumes aead: "aead_ok cr" and hkdf: "hkdf_ok cr"
    and apart: "a \<in> K \<Longrightarrow> b \<in> K \<Longrightarrow> a \<noteq> b \<Longrightarrow> keys_apart cr tp a b"
    and fresh: "drawn tp 32 a \<Longrightarrow> a \<in> K"
begin

text \<open>Putting a staged copy in place of a keyfile.\<close>

lemma apply_file_site:
  assumes q: "key_path root q" and spotwise: "spotwise root J" "spotwise root H"
    and staged: "\<And>B c. J B c \<Longrightarrow> B (staged_of root q) = None \<or> holds cr new (kt_of root q) (PL q) (B (staged_of root q))"
    and ch: "\<And>B c n. J B c \<Longrightarrow> holds cr new (kt_of root q) (PL q) n \<Longrightarrow> H (B(q := n)) c"
  shows "triple (at J) (apply_staged_file cr (rot_of root) (target_of root q)) (\<lambda>_. at H)
    (\<lambda>_ w. at J w \<or> at H w) (\<lambda>w. at J w \<or> at H w)"
proof -
  have ne: "staged_of root q \<noteq> []" using spot_ne spot_leafs(4) [OF q] by (auto simp: spot_def)
  have spot: "spot root q" using q by (simp add: spot_def)
  have wr: "triple (\<lambda>w. at J w \<and> holds cr new (kt_of root q) (PL q) (Some (File 0x180 d))) (write_secure cr q d)
      (\<lambda>_. at H) (\<lambda>_ w. at J w \<or> at H w) (\<lambda>w. at J w \<or> at H w)" for d
  proof (cases "holds cr new (kt_of root q) (PL q) (Some (File 0x180 d))")
    case True
    show ?thesis by (rule triple_conseq [OF write_spot [OF spot spotwise, of d]]) (use True ch in auto)
  qed (simp add: triple_def)
  have rd: "triple (at J) (read_keyfile_bytes (staged_of root q))
      (\<lambda>d w. at J w \<and> holds cr new (kt_of root q) (PL q) (Some (File 0x180 d))) (\<lambda>_ w. at J w \<or> at H w) (\<lambda>w. at J w \<or> at H w)"
  proof (rule triple_conseq [OF read_site [OF ne, of J]])
    fix d w
    assume w: "at (\<lambda>B c. J B c \<and> (\<exists>m. B (staged_of root q) = Some (File m d) \<and> m AND 0x3f = 0 \<and> length d \<le> MAX_KEYFILE_SIZE)) w"
    then have "at J w" by (rule site_mono) simp
    moreover have "holds cr new (kt_of root q) (PL q) (Some (File 0x180 d))"
      using w staged by (fastforce simp: site_def holds_def)
    ultimately show "at J w \<and> holds cr new (kt_of root q) (PL q) (Some (File 0x180 d))" ..
  qed auto
  have "stage_target_path (rot_of root) (drop (length root) q) = staged_of root q" by (simp add: staged_of_def)
  then show ?thesis
    unfolding apply_staged_file_def target_of_simps
    by (simp only:) (intro triple_bind [OF rd] triple_bind [OF wr] sync_either)
qed

lemma apply_ripening:
  assumes "set ts = target_of root ` L" and L: "\<And>q. q \<in> L \<Longrightarrow> key_path root q"
  shows "triple (at (ripening cr root L PL K old new A)) (apply_staged_files cr (rot_of root) ts)
    (\<lambda>_. at (ripening cr root L PL K old new L)) (\<lambda>_. at (pending cr root L PL K old new)) (at (pending cr root L PL K old new))"
proof -
  let ?R = "ripening cr root L PL K old new" and ?P = "pending cr root L PL K old new"
  let ?I = "\<lambda>(xs :: rewrap_target list) (ys :: rewrap_target list). at (?R (live_path ` set xs))"
  have weak: "at ?P w" if "at (?R S) w" for w S using that by (rule site_mono) (simp add: ripening_def)
  have loop: "triple (?I [] ts) (forM ts (apply_staged_file cr (rot_of root))) (\<lambda>_. ?I ts []) (\<lambda>_. at ?P) (at ?P)"
  proof (rule triple_forM_split [where I = ?I and zs = ts and xs = "[]"])
    fix xs t ys assume ts: "ts = xs @ t # ys"
    then obtain q where t: "t = target_of root q" and q: "q \<in> L" using assms(1) by (auto simp: set_eq_iff)
    have "live_path ` set (xs @ [t]) = insert q (live_path ` set xs)" using t by auto
    then show "triple (?I xs (t # ys)) (apply_staged_file cr (rot_of root) t) (\<lambda>_. ?I (xs @ [t]) ys) (\<lambda>_. at ?P) (at ?P)"
      unfolding t
      by (intro triple_conseq [OF apply_file_site [OF L [OF q], of "?R (live_path ` set xs)" "?R (insert q (live_path ` set xs))" new]])
         (use q weak in \<open>auto intro: spotwise_ripening ripening_apply dest: ripening_staged\<close>)
  qed simp
  have "live_path ` set ts = L" using assms(1) by (auto simp: image_image)
  then show ?thesis
    unfolding apply_staged_files_def using loop by (auto elim!: triple_pre site_mono simp: ripening_def)
qed

lemma apply_settled:
  assumes "set ts \<subseteq> target_of root ` L" and L: "\<And>q. q \<in> L \<Longrightarrow> key_path root q"
  shows "keeps (at (settled cr root L PL K new)) (apply_staged_files cr (rot_of root) ts)"
  unfolding apply_staged_files_def
proof (rule triple_forM)
  fix t assume "t \<in> set ts"
  then obtain q where t: "t = target_of root q" and q: "q \<in> L" using assms(1) by auto
  show "keeps (at (settled cr root L PL K new)) (apply_staged_file cr (rot_of root) t)"
    unfolding t
    by (rule triple_conseq [OF apply_file_site [OF L [OF q], where J = "settled cr root L PL K new" and H = "settled cr root L PL K new"
          and new = new, OF spotwise_settled spotwise_settled]])
       (use q in \<open>auto intro: settled_apply dest: settled_staged\<close>)
qed


text \<open>The end of a rotation: the provider is switched and the area removed.\<close>

definition unfinished :: "bytes \<Rightarrow> bytes \<Rightarrow> assertion" where
  "unfinished old new B c \<longleftrightarrow> pending cr root L PL K old new B c \<or> settled cr root L PL K new B c"

definition finished :: "bytes \<Rightarrow> assertion" where
  "finished new B c \<longleftrightarrow> quiet cr root L PL K new B c \<and> B (rot_of root) = None"

lemma quiet_of_settled:
  "at (\<lambda>B c. settled cr root L PL K new B c \<and> B (rot_of root) = None) w \<Longrightarrow>
   at (finished new) w"
proof -
  assume w: "at (\<lambda>B c. settled cr root L PL K new B c \<and> B (rot_of root) = None) w"
  have "map_of (nodes w) (ready_of root) = None"
    using w tree_wf_below [of "map_of (nodes w)" "rot_of root" "ready_of root"]
    by (simp add: site_def ready_of_def rot_of_def join_def)
  then show ?thesis using w by (simp add: site_def settled_def quiet_def finished_def)
qed

lemma cleanup_settled:
  "triple (at (settled cr root L PL K new)) (cleanup_rotation_dir (rot_of root))
    (\<lambda>_. at (finished new)) (\<lambda>_. at (settled cr root L PL K new)) (at (settled cr root L PL K new))"
  by (rule triple_conseq [OF cleanup_site [where J = "settled cr root L PL K new"]]) (auto intro: settled_remove quiet_of_settled)

lemma switch_site:
  "length new = 32 \<Longrightarrow> triple (at (ripening cr root L PL K old new L)) (store_mk prov new) (\<lambda>_. at (settled cr root L PL K new))
    (\<lambda>_ w. at (pending cr root L PL K old new) w \<or> at (settled cr root L PL K new) w)
    (\<lambda>w. at (pending cr root L PL K old new) w \<or> at (settled cr root L PL K new) w)"
  by (rule triple_conseq [OF store_site [where J = "ripening cr root L PL K old new L" and K = "settled cr root L PL K new"]])
     (auto intro: spotwise_below spotwise_ripening ripe_settled elim!: site_mono dest: ripening_pending)

lemma unfinishedI:
  "at (pending cr root L PL K old new) w \<Longrightarrow> at (unfinished old new) w"
  "at (settled cr root L PL K new) w \<Longrightarrow> at (unfinished old new) w"
  by (auto elim!: site_mono simp: unfinished_def)

lemma unfinishedE: "at (unfinished old new) w \<Longrightarrow> at (pending cr root L PL K old new) w \<or> at (settled cr root L PL K new) w"
  by (auto simp: site_def unfinished_def)

lemma finish_site:
  assumes "length new = 32"
  shows "triple (at (ripening cr root L PL K old new L)) (bindM (store_mk prov new) (\<lambda>_. cleanup_rotation_dir (rot_of root)))
    (\<lambda>_. at (finished new)) (\<lambda>_. at (unfinished old new)) (at (unfinished old new))"
proof (rule triple_bind [where R = "\<lambda>_. at (settled cr root L PL K new)"])
  show "triple (at (ripening cr root L PL K old new L)) (store_mk prov new) (\<lambda>_. at (settled cr root L PL K new))
      (\<lambda>_. at (unfinished old new)) (at (unfinished old new))"
    by (rule triple_conseq [OF switch_site [OF assms]]) (auto intro: unfinishedI)
  show "triple (at (settled cr root L PL K new)) (cleanup_rotation_dir (rot_of root))
      (\<lambda>_. at (finished new)) (\<lambda>_. at (unfinished old new)) (at (unfinished old new))"
    by (rule triple_conseq [OF cleanup_settled]) (auto intro: unfinishedI)
qed

lemma pending_facts:
  assumes "at (pending cr root L PL K old new) w"
  shows "length new = 32" and "\<And>q. q \<in> L \<Longrightarrow> key_path root q"
  using assms live_key_path by (auto simp: site_def pending_def)

lemma settled_facts:
  assumes "at (settled cr root L PL K new) w"
  shows "length new = 32" and "\<And>q. q \<in> L \<Longrightarrow> key_path root q"
  using assms live_key_path by (auto simp: site_def settled_def)


text \<open>Recovery, from the ready marker on.\<close>

lemma collect_phase:
  assumes "\<And>B c. P B c \<Longrightarrow> live_paths root B = L"
  shows "triple (at P) (collect_rewrap_targets root (priv_of root) (secrets_of root))
    (\<lambda>ts w. at P w \<and> set ts = target_of root ` L) (\<lambda>_. at P) (at P)"
  by (rule triple_conseq [OF collect_site [where J = P]]) (use assms in \<open>auto simp: site_def\<close>)

lemma load_phase:
  assumes "\<And>B c. P B c \<Longrightarrow> c = Some m"
  shows "triple (at P) (load_mk prov) (\<lambda>mk w. at P w \<and> mk = m) (\<lambda>_. at P) (at P)"
  by (rule triple_conseq [OF load_site [where J = P]]) (auto simp: site_def dest: assms)

lemma new_key_pending:
  "triple (at (pending cr root L PL K old new)) (recover_new_mk cr (rot_of root) old)
    (\<lambda>(x, switched) w. at (pending cr root L PL K old new) w \<and> x = new \<and> (switched \<longrightarrow> old = new))
    (\<lambda>_. at (pending cr root L PL K old new)) (at (pending cr root L PL K old new))"
proof (rule triple_conseq [OF recover_new_site [where J = "pending cr root L PL K old new"]])
  fix r w
  assume w: "(case r of (x, switched) \<Rightarrow> at (\<lambda>B c. pending cr root L PL K old new B c \<and> (if switched
      then reads cr old KT_ROTATE_NEXT_NEW x (B (next_new_of root)) else reads cr old KT_ROTATE_NEXT_OLD x (B (next_old_of root))))) w"
  obtain x switched where r: "r = (x, switched)" by fastforce
  have p: "at (pending cr root L PL K old new) w" using w r by (auto elim: site_mono)
  have "x = new \<and> (switched \<longrightarrow> old = new)"
    using w r holds_reads [of new]
    by (cases switched) (auto simp: site_def pending_def next_old_ok_def next_new_ok_def refuses_def reads_def dest: holds_reads)
  then show "(case r of (x, switched) \<Rightarrow> \<lambda>w. at (pending cr root L PL K old new) w \<and> x = new \<and> (switched \<longrightarrow> old = new)) w"
    using p r by simp
qed auto

lemma new_key_settled:
  "triple (at (settled cr root L PL K new)) (recover_new_mk cr (rot_of root) new)
    (\<lambda>(x, switched) w. at (settled cr root L PL K new) w \<and> x = new) (\<lambda>_. at (settled cr root L PL K new)) (at (settled cr root L PL K new))"
proof (rule triple_conseq [OF recover_new_site [where J = "settled cr root L PL K new"]])
  fix r w
  assume w: "(case r of (x, switched) \<Rightarrow> at (\<lambda>B c. settled cr root L PL K new B c \<and> (if switched
      then reads cr new KT_ROTATE_NEXT_NEW x (B (next_new_of root)) else reads cr new KT_ROTATE_NEXT_OLD x (B (next_old_of root))))) w"
  obtain x switched where r: "r = (x, switched)" by fastforce
  have p: "at (settled cr root L PL K new) w" using w r by (auto elim: site_mono)
  have "x = new" using w r by (cases switched) (auto simp: site_def settled_def only_gives_def reads_def)
  then show "(case r of (x, switched) \<Rightarrow> \<lambda>w. at (settled cr root L PL K new) w \<and> x = new) w" using p r by simp
qed auto

lemma finish_up_pending:
  "triple (at (pending cr root L PL K old new)) finish_up (\<lambda>_. at (finished new)) (\<lambda>_. at (unfinished old new)) (at (unfinished old new))"
proof -
  let ?P = "at (pending cr root L PL K old new)" and ?U = "at (unfinished old new)" and ?R = "at (ripening cr root L PL K old new L)"
  have "triple ?P (bindM (apply_staged_files cr (rot_of root) ts) (\<lambda>_.
      bindM (if \<not> sw then store_mk prov new else ret ()) (\<lambda>_. cleanup_rotation_dir (rot_of root))))
      (\<lambda>_. at (finished new)) (\<lambda>_. ?U) ?U" if ts: "set ts = target_of root ` L" and sw: "sw \<longrightarrow> old = new" for ts sw
  proof (rule triple_point)
    fix w assume w: "?P w"
    note F = pending_facts [OF w]
    have "triple ?P (apply_staged_files cr (rot_of root) ts) (\<lambda>_. ?R) (\<lambda>_. ?U) ?U"
      by (rule triple_conseq [OF apply_ripening [OF ts F(2), where A = "{}"]])
         (auto intro: unfinishedI elim: site_mono simp: ripening_def)
    moreover have "triple ?R (bindM (if \<not> sw then store_mk prov new else ret ()) (\<lambda>_. cleanup_rotation_dir (rot_of root)))
        (\<lambda>_. at (finished new)) (\<lambda>_. ?U) ?U"
    proof (cases sw)
      case True
      have "at (settled cr root L PL K new) v" if "?R v" for v
        using that sw True ripe_settled by (auto simp: site_def ripening_def pending_def elim!: ripe_settled)
      then show ?thesis
        using True by (simp add: bindM_ret) (rule triple_conseq [OF cleanup_settled], auto intro: unfinishedI)
    qed (simp add: finish_site [OF F(1)])
    ultimately have "triple ?P (bindM (apply_staged_files cr (rot_of root) ts) (\<lambda>_.
        bindM (if \<not> sw then store_mk prov new else ret ()) (\<lambda>_. cleanup_rotation_dir (rot_of root))))
        (\<lambda>_. at (finished new)) (\<lambda>_. ?U) ?U"
      by (rule triple_bind)
    then show "triple (\<lambda>v. v = w) (bindM (apply_staged_files cr (rot_of root) ts) (\<lambda>_.
        bindM (if \<not> sw then store_mk prov new else ret ()) (\<lambda>_. cleanup_rotation_dir (rot_of root))))
        (\<lambda>_. at (finished new)) (\<lambda>_. ?U) ?U"
      by (rule triple_pre) (simp add: w)
  qed
  note tail = this
  have weak: "triple ?P m Q (\<lambda>_. ?P) ?P \<Longrightarrow> triple ?P m Q (\<lambda>_. ?U) ?U" for m and Q :: "'x \<Rightarrow> 'p world \<Rightarrow> bool"
    by (erule triple_conseq) (auto intro: unfinishedI)
  have "triple ?P (bindM (recover_new_mk cr (rot_of root) old) (\<lambda>(new_mk, switched).
      bindM (apply_staged_files cr (rot_of root) ts) (\<lambda>_.
      bindM (if \<not> switched then store_mk prov new_mk else ret ()) (\<lambda>_. cleanup_rotation_dir (rot_of root)))))
      (\<lambda>_. at (finished new)) (\<lambda>_. ?U) ?U" if "set ts = target_of root ` L" for ts
  proof (rule triple_bind [OF weak [OF new_key_pending]])
    fix r :: "bytes \<times> bool"
    obtain x sw where r: "r = (x, sw)" by fastforce
    show "triple (case r of (x, switched) \<Rightarrow> \<lambda>w. ?P w \<and> x = new \<and> (switched \<longrightarrow> old = new)) (case r of (new_mk, switched) \<Rightarrow>
        bindM (apply_staged_files cr (rot_of root) ts) (\<lambda>_.
        bindM (if \<not> switched then store_mk prov new_mk else ret ()) (\<lambda>_. cleanup_rotation_dir (rot_of root))))
        (\<lambda>_. at (finished new)) (\<lambda>_. ?U) ?U"
      using tail [OF that, of sw] by (auto simp: r intro!: triple_assume)
  qed
  then show ?thesis
    unfolding finish_up_def
    by (intro triple_bind [OF weak [OF collect_phase]] triple_assume triple_bind [OF weak [OF load_phase]] triple_eq)
       (auto simp: pending_def)
qed

end

end
