(* ===== verification/RotationRuns.thy ===== *)
theory RotationRuns
  imports Rotation
begin

text \<open>
  Whole runs of recovery and of a rotation: from every phase recovery ends in a quiet site or fails in a
  safe one, a rotation that returns leaves every keyfile under a fresh master key, and one that fails or
  dies leaves a safe site.
\<close>

lemma settled_again: "settled cr root L PL K new B c \<Longrightarrow> settled cr root L PL K new B (Some new)"
  by (simp add: settled_def)

definition laid_out :: "'p shared \<Rightarrow> path \<Rightarrow> 'p mk_provider \<Rightarrow> bool" where
  "laid_out sh root prov \<longleftrightarrow> sh_root_dir sh = root \<and> sh_priv_dir sh = priv_of root \<and> sh_secrets_dir sh = secrets_of root
     \<and> sh_rotate_dir sh = rot_of root \<and> sh_mk_provider sh = prov"

text \<open>Every keyfile opens under the stored master key.\<close>

definition usable :: "crates \<Rightarrow> path \<Rightarrow> path set \<Rightarrow> (path \<Rightarrow> bytes) \<Rightarrow> assertion" where
  "usable cr root L PL B c \<longleftrightarrow> live_paths root B = L \<and> (\<exists>m. c = Some m \<and> all_hold cr root L PL m B)"

lemma site_poisoned [simp]: "site cur tp root J (w\<lparr>poisoned := b\<rparr>) = site cur tp root J w"
  by (simp add: site_def)

lemma parent_of_snoc: "parent_of (p @ [x]) = Some p"
  by (simp add: parent_of_def)

context rotation_site
begin

lemma finish_up_settled:
  "triple (at (settled cr root L PL K new)) finish_up (\<lambda>_. at (finished new))
    (\<lambda>_. at (settled cr root L PL K new)) (at (settled cr root L PL K new))"
proof -
  let ?S = "at (settled cr root L PL K new)"
  have store: "triple ?S (if \<not> sw then store_mk prov new else ret ()) (\<lambda>_. ?S) (\<lambda>_. ?S) ?S" for sw
  proof (rule triple_point)
    fix w assume w: "?S w"
    have "keeps ?S (store_mk prov new)"
      by (rule triple_conseq [OF store_site [where J = "settled cr root L PL K new" and K = "settled cr root L PL K new"]])
         (use settled_facts(1) [OF w] in \<open>auto intro: spotwise_below spotwise_settled settled_again\<close>)
    then show "triple (\<lambda>v. v = w) (if \<not> sw then store_mk prov new else ret ()) (\<lambda>_. ?S) (\<lambda>_. ?S) ?S"
      using w by (auto intro: triple_ret elim: triple_pre)
  qed
  have tail: "triple ?S (bindM (apply_staged_files cr (rot_of root) ts) (\<lambda>_.
      bindM (if \<not> sw then store_mk prov new else ret ()) (\<lambda>_. cleanup_rotation_dir (rot_of root))))
      (\<lambda>_. at (finished new)) (\<lambda>_. ?S) ?S" if ts: "set ts = target_of root ` L" for ts sw
  proof (rule triple_point)
    fix w assume w: "?S w"
    have "keeps ?S (apply_staged_files cr (rot_of root) ts)"
      by (rule apply_settled) (use ts settled_facts(2) [OF w] in auto)
    then have "triple ?S (bindM (apply_staged_files cr (rot_of root) ts) (\<lambda>_.
        bindM (if \<not> sw then store_mk prov new else ret ()) (\<lambda>_. cleanup_rotation_dir (rot_of root))))
        (\<lambda>_. at (finished new)) (\<lambda>_. ?S) ?S"
      by (intro triple_bind [OF _ triple_bind [OF store cleanup_settled]])
    then show "triple (\<lambda>v. v = w) (bindM (apply_staged_files cr (rot_of root) ts) (\<lambda>_.
        bindM (if \<not> sw then store_mk prov new else ret ()) (\<lambda>_. cleanup_rotation_dir (rot_of root))))
        (\<lambda>_. at (finished new)) (\<lambda>_. ?S) ?S"
      by (rule triple_pre) (simp add: w)
  qed
  have "triple ?S (bindM (recover_new_mk cr (rot_of root) new) (\<lambda>(new_mk, switched).
      bindM (apply_staged_files cr (rot_of root) ts) (\<lambda>_.
      bindM (if \<not> switched then store_mk prov new_mk else ret ()) (\<lambda>_. cleanup_rotation_dir (rot_of root)))))
      (\<lambda>_. at (finished new)) (\<lambda>_. ?S) ?S" if "set ts = target_of root ` L" for ts
  proof (rule triple_bind [OF new_key_settled])
    fix r :: "bytes \<times> bool"
    obtain x sw where r: "r = (x, sw)" by fastforce
    show "triple (case r of (x, switched) \<Rightarrow> \<lambda>w. ?S w \<and> x = new) (case r of (new_mk, switched) \<Rightarrow>
        bindM (apply_staged_files cr (rot_of root) ts) (\<lambda>_.
        bindM (if \<not> switched then store_mk prov new_mk else ret ()) (\<lambda>_. cleanup_rotation_dir (rot_of root))))
        (\<lambda>_. at (finished new)) (\<lambda>_. ?S) ?S"
      using tail [OF that, of sw] by (auto simp: r intro!: triple_assume)
  qed
  then show ?thesis
    unfolding finish_up_def
    by (intro triple_bind [OF collect_phase] triple_assume triple_bind [OF load_phase] triple_eq) (auto simp: settled_def)
qed

lemma recover_quiet:
  "triple (at (quiet cr root L PL K m)) recover (\<lambda>_. at (finished m)) (\<lambda>_. at (quiet cr root L PL K m)) (at (quiet cr root L PL K m))"
proof (rule recover_cases)
  show "triple (at (\<lambda>B c. quiet cr root L PL K m B c \<and> B (ready_of root) = None)) (cleanup_rotation_dir (rot_of root))
      (\<lambda>_. at (finished m)) (\<lambda>_. at (quiet cr root L PL K m)) (at (quiet cr root L PL K m))"
    by (rule triple_conseq [OF cleanup_site [where J = "quiet cr root L PL K m"]])
       (auto intro: quiet_remove elim!: site_mono simp: finished_def)
  have "\<not> at (\<lambda>B c. quiet cr root L PL K m B c \<and> B (ready_of root) \<noteq> None) w" for w
    by (auto simp: site_def quiet_def)
  then show "triple (at (\<lambda>B c. quiet cr root L PL K m B c \<and> B (ready_of root) \<noteq> None)) finish_up
      (\<lambda>_. at (finished m)) (\<lambda>_. at (quiet cr root L PL K m)) (at (quiet cr root L PL K m))"
    by (simp add: triple_def)
qed (auto elim!: site_mono simp: finished_def)

lemma recover_settled:
  "triple (at (settled cr root L PL K new)) recover (\<lambda>_. at (finished new)) (\<lambda>_. at (settled cr root L PL K new)) (at (settled cr root L PL K new))"
proof (rule recover_cases)
  show "triple (at (\<lambda>B c. settled cr root L PL K new B c \<and> B (ready_of root) = None)) (cleanup_rotation_dir (rot_of root))
      (\<lambda>_. at (finished new)) (\<lambda>_. at (settled cr root L PL K new)) (at (settled cr root L PL K new))"
    by (rule triple_pre [OF cleanup_settled]) (auto elim: site_mono)
  show "triple (at (\<lambda>B c. settled cr root L PL K new B c \<and> B (ready_of root) \<noteq> None)) finish_up
      (\<lambda>_. at (finished new)) (\<lambda>_. at (settled cr root L PL K new)) (at (settled cr root L PL K new))"
    by (rule triple_pre [OF finish_up_settled]) (auto elim: site_mono)
qed (rule quiet_of_settled)

lemma recover_pending:
  "triple (at (pending cr root L PL K old new)) recover (\<lambda>_. at (finished new)) (\<lambda>_. at (unfinished old new)) (at (unfinished old new))"
proof (rule recover_cases)
  have no: "\<not> at (\<lambda>B c. pending cr root L PL K old new B c \<and> B (ready_of root) = None) w" for w
    by (auto simp: site_def pending_def)
  then show "triple (at (\<lambda>B c. pending cr root L PL K old new B c \<and> B (ready_of root) = None)) (cleanup_rotation_dir (rot_of root))
      (\<lambda>_. at (finished new)) (\<lambda>_. at (unfinished old new)) (at (unfinished old new))"
    by (simp add: triple_def)
  show "at (finished new) w" if "at (\<lambda>B c. pending cr root L PL K old new B c \<and> B (rot_of root) = None) w" for w
  proof -
    have "map_of (nodes w) (ready_of root) = None"
      using that tree_wf_below [of "map_of (nodes w)" "rot_of root" "ready_of root"]
      by (simp add: site_def ready_of_def rot_of_def join_def)
    then show ?thesis using that by (simp add: site_def pending_def)
  qed
  show "triple (at (\<lambda>B c. pending cr root L PL K old new B c \<and> B (ready_of root) \<noteq> None)) finish_up
      (\<lambda>_. at (finished new)) (\<lambda>_. at (unfinished old new)) (at (unfinished old new))"
    by (rule triple_pre [OF finish_up_pending]) (auto elim: site_mono)
qed

lemma recover_unfinished:
  "triple (at (unfinished old new)) recover (\<lambda>_. at (finished new)) (\<lambda>_. at (unfinished old new)) (at (unfinished old new))"
proof -
  have "triple (at (settled cr root L PL K new)) recover (\<lambda>_. at (finished new)) (\<lambda>_. at (unfinished old new)) (at (unfinished old new))"
    by (rule triple_conseq [OF recover_settled]) (auto intro: unfinishedI)
  then have "triple (\<lambda>w. at (pending cr root L PL K old new) w \<or> at (settled cr root L PL K new) w) recover (\<lambda>_. at (finished new))
      (\<lambda>_. at (unfinished old new)) (at (unfinished old new))"
    by (rule triple_or [OF recover_pending])
  then show ?thesis by (rule triple_pre) (rule unfinishedE)
qed


section \<open>Commit\<close>

lemma safeI:
  "at (unfinished old new) w \<Longrightarrow> at (safe cr root L PL K) w"
  "at (quiet cr root L PL K m) w \<Longrightarrow> at (safe cr root L PL K) w"
  by (erule site_mono, simp only: safe_def unfinished_def, blast)+

lemma recover_laid_out: "laid_out sh root prov \<Longrightarrow> recover_shared cr sh = recover"
  by (simp add: recover_shared_def laid_out_def)

lemma commit_site:
  assumes "laid_out sh root prov" and ts: "set ts = target_of root ` L"
  shows "triple (at (pending cr root L PL K old new)) (commit_rotation cr sh ts new) (\<lambda>_. at (finished new))
    (\<lambda>_ w. at (safe cr root L PL K) w \<and> poisoned w) (at (safe cr root L PL K))"
proof (rule triple_point)
  fix w assume w: "at (pending cr root L PL K old new) w"
  note F = pending_facts [OF w]
  let ?P = "at (pending cr root L PL K old new)" and ?U = "at (unfinished old new)" and ?S = "at (safe cr root L PL K)"
  let ?attempt = "bindM (apply_staged_files cr (rot_of root) ts) (\<lambda>_. bindM (store_mk prov new) (\<lambda>_. cleanup_rotation_dir (rot_of root)))"
  have applied: "triple ?P (apply_staged_files cr (rot_of root) ts) (\<lambda>_. at (ripening cr root L PL K old new L)) (\<lambda>_. ?U) ?U"
    by (rule triple_conseq [OF apply_ripening [OF ts F(2), where A = "{}"]])
       (auto intro: unfinishedI elim: site_mono simp: ripening_def)
  have attempt: "triple ?P ?attempt (\<lambda>_. at (finished new)) (\<lambda>_. ?U) ?U"
    by (rule triple_bind [OF applied finish_site [OF F(1)]])
  let ?post = "\<lambda>r. case r of Inr u \<Rightarrow> at (finished new) | Inl e \<Rightarrow> ?U"
  have first: "triple ?P (tryM ?attempt) ?post (\<lambda>_ w. ?S w \<and> poisoned w) ?S"
    by (rule triple_tryM, rule triple_conseq [OF attempt]) (auto intro: safeI)
  have again: "triple ?U (tryM recover) ?post (\<lambda>_ w. ?S w \<and> poisoned w) ?S"
    by (rule triple_tryM, rule triple_conseq [OF recover_unfinished]) (auto intro: safeI)
  have poison: "triple ?U (bindM set_poisoned (\<lambda>_. fail e)) (\<lambda>_. at (finished new)) (\<lambda>_ w. ?S w \<and> poisoned w) ?S" for e :: lithium_error
    by (auto simp: triple_def bindM_def set_poisoned_def fail_def intro: safeI)
  have second: "triple (?post r) (case r of Inr u \<Rightarrow> ret ()
      | Inl e \<Rightarrow> bindM (tryM recover) (\<lambda>r. case r of Inr u \<Rightarrow> ret () | Inl e' \<Rightarrow> bindM set_poisoned (\<lambda>_. fail e)))
      (\<lambda>_. at (finished new)) (\<lambda>_ w. ?S w \<and> poisoned w) ?S" for r :: "lithium_error + unit"
  proof (cases r)
    case (Inl e)
    have "triple ?U (bindM (tryM recover) (\<lambda>r. case r of Inr u \<Rightarrow> ret () | Inl e' \<Rightarrow> bindM set_poisoned (\<lambda>_. fail e)))
        (\<lambda>_. at (finished new)) (\<lambda>_ w. ?S w \<and> poisoned w) ?S"
      by (rule triple_bind [OF again]) (auto split: sum.split intro: triple_ret poison)
    then show ?thesis unfolding Inl sum.case .
  qed (auto intro: triple_ret)
  have lay: "sh_rotate_dir sh = rot_of root" "sh_mk_provider sh = prov" using assms(1) by (simp_all add: laid_out_def)
  have "commit_rotation cr sh ts new = bindM (tryM ?attempt) (\<lambda>r. case r of Inr u \<Rightarrow> ret ()
      | Inl e \<Rightarrow> bindM (tryM recover) (\<lambda>r. case r of Inr u \<Rightarrow> ret () | Inl e' \<Rightarrow> bindM set_poisoned (\<lambda>_. fail e)))"
    unfolding commit_rotation_def recover_laid_out [OF assms(1)] lay by (rule refl)
  moreover have "triple ?P (bindM (tryM ?attempt) (\<lambda>r. case r of Inr u \<Rightarrow> ret ()
      | Inl e \<Rightarrow> bindM (tryM recover) (\<lambda>r. case r of Inr u \<Rightarrow> ret () | Inl e' \<Rightarrow> bindM set_poisoned (\<lambda>_. fail e))))
      (\<lambda>_. at (finished new)) (\<lambda>_ w. ?S w \<and> poisoned w) ?S"
    by (rule triple_bind [OF first second])
  ultimately show "triple (\<lambda>v. v = w) (commit_rotation cr sh ts new) (\<lambda>_. at (finished new)) (\<lambda>_ w. ?S w \<and> poisoned w) ?S"
    using w by (auto elim!: triple_pre)
qed

section \<open>Preparation\<close>

lemma keeps_encode: "keeps (at J) (encode_encrypted cr mk x kt)"
  unfolding encode_encrypted_def wrap_dek_def encrypt_payload_def Let_def
  by (auto intro!: keeps_bind keeps_random_fixed keeps_leaf split: prod.split)

lemma keeps_rewrap: "keeps (at J) (rewrap_bytes cr old new kt d)"
  unfolding rewrap_bytes_def wrap_dek_def
  by (auto intro!: keeps_bind keeps_random_fixed keeps_leaf split: prod.split)

lemma save_next_site:
  assumes "leaf root p" and spotwise: "spotwise root J" "spotwise root H" and "length x = 32"
    and ch: "\<And>B c d. J B c \<Longrightarrow> sealed_under cr tp mk kt x d \<Longrightarrow> H (B(p \<mapsto> File 0x180 d)) c"
  shows "triple (at J) (save_secret32_encrypted cr p mk x kt) (\<lambda>_. at H) (\<lambda>_. at J) (\<lambda>w. at J w \<or> at H w)"
  unfolding save_secret32_encrypted_def
proof (rule triple_bind [where R = "\<lambda>d w. at J w \<and> sealed_under cr tp mk kt x d"])
  have "sealed_under cr tp mk kt x d" if "at J w" "encode_encrypted cr mk x kt w = (Done d, w')" for w d w'
    using encode_sealed [OF aead hkdf assms(4) that(2)] that(1) by (simp add: site_def)
  then show "triple (at J) (encode_encrypted cr mk x kt) (\<lambda>d w. at J w \<and> sealed_under cr tp mk kt x d) (\<lambda>_. at J) (\<lambda>w. at J w \<or> at H w)"
    by (intro triple_conseq [OF triple_fact [OF keeps_encode]]) auto
  fix d
  show "triple (\<lambda>w. at J w \<and> sealed_under cr tp mk kt x d) (write_secure cr p d) (\<lambda>_. at H) (\<lambda>_. at J) (\<lambda>w. at J w \<or> at H w)"
    by (rule triple_assume, rule write_spot) (use assms in \<open>auto simp: spot_def\<close>)
qed

lemma ensure_parent_staged:
  assumes "key_path root q" and "spotwise root J"
  shows "keeps (at J) (ensure_parent (staged_of root q))"
proof -
  obtain x d where st: "staged_of root q = rot_of root @ [ROTATE_STAGE_DIR, d, x]" using staged_under [OF assms(1)] by blast
  have "keeps (at J) (ensure_private_dir (rot_of root @ [ROTATE_STAGE_DIR, d]))"
    by (rule ensure_spot [OF _ spot_leafs(4) [OF assms(1)] _ assms(2)]) (auto simp: st strict_prefix_def prefix_def)
  then show ?thesis using parent_of_snoc [of "rot_of root @ [ROTATE_STAGE_DIR, d]" x] by (simp add: ensure_parent_def st)
qed


lemma ensure_area:
  assumes "spotwise root J"
  shows "keeps (at J) (ensure_private_dir (rot_of root))" and "keeps (at J) (ensure_private_dir (join (rot_of root) ROTATE_STAGE_DIR))"
proof -
  show "keeps (at J) (ensure_private_dir (rot_of root))"
    by (rule ensure_spot [OF _ spot_leafs(1) _ assms]) (auto simp: ready_of_def join_def strict_prefix_def)
  have kp: "key_path root (join (priv_of root) ED_PRIV)" by (simp add: key_path_def fixed_paths_def)
  obtain x d where "staged_of root (join (priv_of root) ED_PRIV) = rot_of root @ [ROTATE_STAGE_DIR, d, x]"
    using staged_under [OF kp] by blast
  then show "keeps (at J) (ensure_private_dir (join (rot_of root) ROTATE_STAGE_DIR))"
    by (intro ensure_spot [OF _ spot_leafs(4) [OF kp] _ assms]) (auto simp: join_def strict_prefix_def prefix_def)
qed

text \<open>Staging one keyfile.  Every failure of the preparation leaves a quiet site.\<close>

lemma prepared_quiet: "prepared cr root L PL K old new A B c \<Longrightarrow> quiet cr root L PL K old B c"
  by (simp add: prepared_def)

lemma rewrap_live:
  assumes "q \<in> L"
  shows "triple (at (prepared cr root L PL K old new A)) (rewrap_keyfile_dek_to_bytes cr q old new (kt_of root q))
    (\<lambda>d w. at (prepared cr root L PL K old new A) w \<and> holds cr new (kt_of root q) (PL q) (Some (File 0x180 d)))
    (\<lambda>_. at (prepared cr root L PL K old new A)) (at (prepared cr root L PL K old new A))"
  unfolding rewrap_keyfile_dek_to_bytes_def
proof (rule triple_point)
  let ?J = "prepared cr root L PL K old new A"
  fix w assume w: "at ?J w"
  have kp: "key_path root q" using w assms live_key_path by (auto simp: site_def prepared_def quiet_def)
  then have ne: "q \<noteq> []" using spot_ne by (auto simp: spot_def)
  let ?D = "\<lambda>d B c. ?J B c \<and> (\<exists>m. B q = Some (File m d) \<and> m AND 0x3f = 0 \<and> length d \<le> MAX_KEYFILE_SIZE)"
  have good: "holds cr new (kt_of root q) (PL q) (Some (File 0x180 d'))"
    if "at (?D d) v" "rewrap_bytes cr old new (kt_of root q) d v = (Done d', v')" for d d' v v'
    using that rewrap_bytes_opens [OF aead hkdf that(2)] assms
    by (auto simp: site_def prepared_def quiet_def all_hold_def holds_def)
  have "triple (at ?J) (bindM (read_keyfile_bytes q) (rewrap_bytes cr old new (kt_of root q)))
      (\<lambda>d w. at ?J w \<and> holds cr new (kt_of root q) (PL q) (Some (File 0x180 d))) (\<lambda>_. at ?J) (at ?J)"
  proof (rule triple_bind [OF read_site [OF ne]])
    fix d
    show "triple (at (?D d)) (rewrap_bytes cr old new (kt_of root q) d)
        (\<lambda>d w. at ?J w \<and> holds cr new (kt_of root q) (PL q) (Some (File 0x180 d))) (\<lambda>_. at ?J) (at ?J)"
      by (rule triple_conseq [OF triple_fact [OF keeps_rewrap [where J = "?D d"] good]]) (auto elim: site_mono)
  qed
  then show "triple (\<lambda>v. v = w) (bindM (read_keyfile_bytes q) (rewrap_bytes cr old new (kt_of root q)))
      (\<lambda>d w. at ?J w \<and> holds cr new (kt_of root q) (PL q) (Some (File 0x180 d))) (\<lambda>_. at ?J) (at ?J)"
    by (rule triple_pre) (simp add: w)
qed

lemma stage_site:
  assumes "q \<in> L" and kp: "key_path root q"
  shows "triple (at (prepared cr root L PL K old new A)) (stage_file cr (rot_of root) old new (target_of root q))
    (\<lambda>_. at (prepared cr root L PL K old new (insert q A))) (\<lambda>_. at (quiet cr root L PL K old)) (at (quiet cr root L PL K old))"
proof -
  let ?J = "prepared cr root L PL K old new A" and ?H = "prepared cr root L PL K old new (insert q A)" and ?Q = "at (quiet cr root L PL K old)"
  have weak: "at (prepared cr root L PL K old new S) w \<Longrightarrow> ?Q w" for S w by (erule site_mono) (rule prepared_quiet)
  have re: "triple (at ?J) (rewrap_keyfile_dek_to_bytes cr q old new (kt_of root q))
      (\<lambda>d w. at ?J w \<and> holds cr new (kt_of root q) (PL q) (Some (File 0x180 d))) (\<lambda>_. ?Q) ?Q"
    by (rule triple_conseq [OF rewrap_live [OF assms(1)]]) (auto intro: weak)
  have par: "triple (at ?J) (ensure_parent (staged_of root q)) (\<lambda>_. at ?J) (\<lambda>_. ?Q) ?Q"
    by (rule triple_conseq [OF ensure_parent_staged [OF kp spotwise_prepared]]) (auto intro: weak)
  have wr: "triple (at ?J) (write_secure cr (staged_of root q) d) (\<lambda>_. at ?H) (\<lambda>_. ?Q) ?Q"
    if "holds cr new (kt_of root q) (PL q) (Some (File 0x180 d))" for d
    by (rule triple_conseq [OF write_spot [where J = ?J and K = ?H]])
       (use kp that assms(1) in \<open>auto intro: weak spotwise_prepared prepared_stage simp: spot_def spot_leafs\<close>)
  have sync: "triple (at ?H) (sync_parent (staged_of root q)) (\<lambda>_. at ?H) (\<lambda>_. ?Q) ?Q"
    by (rule triple_conseq [OF keeps_site(3) [where J = ?H]]) (auto intro: weak)
  have "stage_target_path (rot_of root) (drop (length root) q) = staged_of root q" by (simp add: staged_of_def)
  then show ?thesis
    unfolding stage_file_def target_of_simps Let_def
    by (simp only:) (intro triple_bind [OF re] triple_assume triple_bind [OF par] triple_bind [OF wr] sync)
qed

lemma prepare_site:
  assumes "set ts = target_of root ` L" and L: "\<And>q. q \<in> L \<Longrightarrow> key_path root q"
  shows "triple (at (prepared cr root L PL K old new {})) (prepare_staged_files cr (rot_of root) old new ts)
    (\<lambda>_. at (prepared cr root L PL K old new L)) (\<lambda>_. at (quiet cr root L PL K old)) (at (quiet cr root L PL K old))"
proof -
  let ?J = "prepared cr root L PL K old new" and ?Q = "at (quiet cr root L PL K old)"
  let ?I = "\<lambda>(xs :: rewrap_target list) (ys :: rewrap_target list). at (?J (live_path ` set xs))"
  have weak: "at (?J S) w \<Longrightarrow> ?Q w" for S w by (erule site_mono) (rule prepared_quiet)
  have loop: "triple (?I [] ts) (forM ts (stage_file cr (rot_of root) old new)) (\<lambda>_. ?I ts []) (\<lambda>_. ?Q) ?Q"
  proof (rule triple_forM_split [where I = ?I and zs = ts and xs = "[]"])
    fix xs t ys assume ts: "ts = xs @ t # ys"
    then obtain q where t: "t = target_of root q" and q: "q \<in> L" using assms(1) by (auto simp: set_eq_iff)
    have "live_path ` set (xs @ [t]) = insert q (live_path ` set xs)" using t by auto
    then show "triple (?I xs (t # ys)) (stage_file cr (rot_of root) old new t) (\<lambda>_. ?I (xs @ [t]) ys) (\<lambda>_. ?Q) ?Q"
      using stage_site [OF q L [OF q]] by (simp add: t)
  qed simp
  have all: "live_path ` set ts = L" using assms(1) by (auto simp: image_image)
  have dir: "triple (at (?J {})) (ensure_private_dir (join (rot_of root) ROTATE_STAGE_DIR)) (\<lambda>_. at (?J {})) (\<lambda>_. ?Q) ?Q"
    by (rule triple_conseq [OF ensure_area(2) [OF spotwise_prepared]]) (auto intro: weak)
  have sync: "triple (at (?J L)) (sync_dir (join (rot_of root) ROTATE_STAGE_DIR)) (\<lambda>_. at (?J L)) (\<lambda>_. ?Q) ?Q"
    by (rule triple_conseq [OF keeps_site(2) [where J = "?J L"]]) (auto intro: weak)
  show ?thesis
    unfolding prepare_staged_files_def
    using loop by (intro triple_bind [OF dir] triple_bind [OF _ sync]) (simp add: all)
qed


section \<open>A rotation\<close>

text \<open>A failed rotation that did not poison the manager leaves every keyfile under the stored key.\<close>

definition is_contained :: "'p world \<Rightarrow> bool" where
  "is_contained w \<longleftrightarrow> at (safe cr root L PL K) w \<and> (poisoned w \<or> at (usable cr root L PL) w)"

lemma containedI:
  "at (quiet cr root L PL K m) w \<Longrightarrow> is_contained w"
  "at (\<lambda>B c. pending cr root L PL K old new B c \<and> all_hold cr root L PL old B) w \<Longrightarrow> is_contained w"
proof -
  show "is_contained w" if "at (quiet cr root L PL K m) w"
  proof -
    have "at (usable cr root L PL) w" by (rule site_mono [OF that]) (auto simp: quiet_def usable_def)
    then show ?thesis using safeI(2) [OF that] by (simp add: is_contained_def)
  qed
  show "is_contained w" if w: "at (\<lambda>B c. pending cr root L PL K old new B c \<and> all_hold cr root L PL old B) w"
  proof -
    have "at (safe cr root L PL K) w" by (rule safeI(1) [of old new], rule unfinishedI(1), rule site_mono [OF w]) simp
    moreover have "at (usable cr root L PL) w" by (rule site_mono [OF w]) (auto simp: pending_def usable_def)
    ultimately show ?thesis by (simp add: is_contained_def)
  qed
qed

lemma contained_safe: "is_contained w \<Longrightarrow> at (safe cr root L PL K) w"
  by (simp add: is_contained_def)

lemma next_files:
  assumes "old \<in> K" and "new \<in> K" and "length new = 32"
  shows "triple (at (quiet cr root L PL K old)) (bindM (save_secret32_encrypted cr (next_old_of root) old new KT_ROTATE_NEXT_OLD) (\<lambda>_.
      save_secret32_encrypted cr (next_new_of root) new new KT_ROTATE_NEXT_NEW))
    (\<lambda>_. at (prepared cr root L PL K old new {})) (\<lambda>_. at (quiet cr root L PL K old)) (at (quiet cr root L PL K old))"
proof -
  let ?Q = "quiet cr root L PL K old" and ?J = "\<lambda>B c. quiet cr root L PL K old B c \<and> next_old_ok cr root old new B"
  let ?H = "prepared cr root L PL K old new {}"
  have diff: "open_secret32 cr b kt d \<noteq> Inr y" if "sealed_under cr tp a kt new d" "a \<in> K" "b \<in> K" "a \<noteq> b" for a b kt d y
    using that apart by (auto simp: sealed_under_def)
  have same: "y = new" if "sealed_under cr tp a kt new d" "a \<in> K" "b \<in> K" "open_secret32 cr b kt d = Inr y" for a b kt d y
    using that diff [OF that(1-3), of y] assms(3) by (cases "a = b") (auto simp: sealed_under_def open_secret32_of_bytes)
  have old: "?J (B(next_old_of root \<mapsto> File 0x180 d)) c"
    if "?Q B c" "sealed_under cr tp old KT_ROTATE_NEXT_OLD new d" for B c d
    using that same [OF that(2) assms(1,2)] quiet_leaf [OF that(1) spot_leafs(2) leafs_apart(1)]
    by (simp add: next_old_ok_def only_gives_def holds_def sealed_under_def)
  have new: "?H (B(next_new_of root \<mapsto> File 0x180 d)) c"
    if "?J B c" "sealed_under cr tp new KT_ROTATE_NEXT_NEW new d" for B c d
    using that diff [OF that(2) assms(2,1)] quiet_leaf [OF conjunct1 [OF that(1)] spot_leafs(3) leafs_apart(2)] leafs_apart(3)
    by (auto simp: prepared_def next_old_ok_def next_new_ok_def refuses_def holds_def sealed_under_def)
  have "triple (at ?Q) (save_secret32_encrypted cr (next_old_of root) old new KT_ROTATE_NEXT_OLD) (\<lambda>_. at ?J) (\<lambda>_. at ?Q) (at ?Q)"
    by (rule triple_conseq [OF save_next_site [where J = ?Q and H = ?J]])
       (auto intro: spot_leafs spotwise_quiet spotwise_conj spotwise_next conjunct1 [OF old] conjunct2 [OF old] assms(3) elim: site_mono)
  moreover have "triple (at ?J) (save_secret32_encrypted cr (next_new_of root) new new KT_ROTATE_NEXT_NEW) (\<lambda>_. at ?H) (\<lambda>_. at ?Q) (at ?Q)"
    by (rule triple_conseq [OF save_next_site [where J = ?J and H = ?H]])
       (auto intro: spot_leafs spotwise_quiet spotwise_conj spotwise_next spotwise_prepared new assms(3) elim: site_mono dest: prepared_quiet)
  ultimately show ?thesis by (rule triple_bind)
qed


lemma random_key:
  "triple (at J) (random_fixed 32) (\<lambda>x w. at J w \<and> (drawn tp 32 x \<and> length x = 32)) (\<lambda>_. at J) (at J)"
proof (rule triple_fact [OF keeps_random_fixed [OF site_tick_free]])
  fix w x w'
  assume "at J w" "random_fixed 32 w = (Done x, w')"
  then show "drawn tp 32 x \<and> length x = 32"
    using random_fixed_drawn [of 32 w x w'] random_fixed_length [of 32 w x w'] by (simp add: site_def)
qed

lemma mark_site:
  assumes "new \<in> K" and "length new = 32"
  shows "triple (at (prepared cr root L PL K old new L)) (write_marker cr (ready_of root) data)
    (\<lambda>_. at (pending cr root L PL K old new)) (\<lambda>_. is_contained) (at (safe cr root L PL K))"
proof -
  let ?J = "prepared cr root L PL K old new L" and ?H = "\<lambda>B c. pending cr root L PL K old new B c \<and> all_hold cr root L PL old B"
  have sw: "spotwise root ?H"
  proof (rule spotwiseI)
    fix B B' c assume eq: "\<And>q. spot root q \<Longrightarrow> B' q = B q" and h: "?H B c"
    then have "live_paths root B = L" by (simp add: pending_def)
    note same = all_hold_spots [OF this eq]
    show "?H B' c" using h same(2) spotwiseD [OF spotwise_pending, of cr root L PL K old new B c B'] eq by (simp add: all_hold_def)
  qed
  have quietly: "is_contained w" if "at ?J w" for w using that by (intro containedI(1), elim site_mono) (rule prepared_quiet)
  have "triple (at ?J) (write_secure cr (ready_of root) data) (\<lambda>_. at ?H) (\<lambda>_. is_contained) (at (safe cr root L PL K))"
    by (rule triple_conseq [OF write_spot [where J = ?J and K = ?H]])
       (auto intro: spotwise_prepared sw conjunct1 [OF prepared_marked] conjunct2 [OF prepared_marked] assms quietly contained_safe containedI(2)
         simp: spot_def spot_leafs)
  moreover have "triple (at ?H) (sync_parent (ready_of root)) (\<lambda>_. at (pending cr root L PL K old new)) (\<lambda>_. is_contained) (at (safe cr root L PL K))"
    by (rule triple_conseq [OF keeps_site(3) [where J = ?H]]) (auto intro: contained_safe containedI(2) elim: site_mono)
  ultimately show ?thesis unfolding write_marker_def by (rule triple_bind)
qed

definition rotate_rest :: "'p shared \<Rightarrow> ('p world, unit) leff" where
  "rotate_rest sh =
     bindM (cleanup_rotation_dir (rot_of root)) (\<lambda>_.
     bindM (ensure_private_dir (rot_of root)) (\<lambda>_.
     bindM (sync_dir (rot_of root)) (\<lambda>_.
     bindM (load_mk prov) (\<lambda>old_mk.
     bindM (random_fixed 32) (\<lambda>new_mk.
     bindM (collect_rewrap_targets root (priv_of root) (secrets_of root)) (\<lambda>targets.
     bindM (bindM (save_secret32_encrypted cr (next_old_of root) old_mk new_mk KT_ROTATE_NEXT_OLD) (\<lambda>_.
       save_secret32_encrypted cr (next_new_of root) new_mk new_mk KT_ROTATE_NEXT_NEW)) (\<lambda>_.
     bindM (sync_dir (rot_of root)) (\<lambda>_.
     bindM (prepare_staged_files cr (rot_of root) old_mk new_mk targets) (\<lambda>_.
     bindM (write_marker cr (ready_of root) (as_bytes ''ready'')) (\<lambda>_.
     commit_rotation cr sh targets new_mk))))))))))"

lemma rotate_now_split: "laid_out sh root prov \<Longrightarrow> rotate_now cr sh = bindM recover (\<lambda>_. rotate_rest sh)"
  unfolding rotate_now_def rotate_rest_def Let_def recover_laid_out bindM_assoc next_old_of_def next_new_of_def ready_of_def
  by (simp only: laid_out_def)

lemma rotate_rest_site:
  assumes lay: "laid_out sh root prov"
  shows "triple (at (quiet cr root L PL K old)) (rotate_rest sh) (\<lambda>_ w. \<exists>new. drawn tp 32 new \<and> at (finished new) w)
    (\<lambda>_. is_contained) (at (safe cr root L PL K))"
proof (rule triple_point)
  fix w assume w: "at (quiet cr root L PL K old) w"
  have keys: "old \<in> K" "\<And>q. q \<in> L \<Longrightarrow> key_path root q" using w live_key_path by (auto simp: site_def quiet_def)
  let ?Q = "at (quiet cr root L PL K old)" and ?S = "at (safe cr root L PL K)"
  let ?D = "\<lambda>_ :: unit. \<lambda>w. \<exists>new. drawn tp 32 new \<and> at (finished new) w"
  have weak: "triple ?Q m R (\<lambda>_. ?Q) ?Q \<Longrightarrow> triple ?Q m R (\<lambda>_. is_contained) ?S" for m :: "('p world, 'x) leff" and R
    by (erule triple_conseq) (auto intro: containedI(1) contained_safe)
  have tail: "triple ?Q (bindM (bindM (save_secret32_encrypted cr (next_old_of root) old new KT_ROTATE_NEXT_OLD) (\<lambda>_.
       save_secret32_encrypted cr (next_new_of root) new new KT_ROTATE_NEXT_NEW)) (\<lambda>_.
     bindM (sync_dir (rot_of root)) (\<lambda>_.
     bindM (prepare_staged_files cr (rot_of root) old new ts) (\<lambda>_.
     bindM (write_marker cr (ready_of root) (as_bytes ''ready'')) (\<lambda>_. commit_rotation cr sh ts new)))))
     ?D (\<lambda>_. is_contained) ?S" if ts: "set ts = target_of root ` L" and new: "drawn tp 32 new" "length new = 32" for ts new
  proof -
    let ?P = "at (prepared cr root L PL K old new {})"
    have inK: "new \<in> K" by (rule fresh [OF new(1)])
    have quietly: "is_contained v" if "?P v" for v using that by (intro containedI(1), elim site_mono) (rule prepared_quiet)
    have sync: "triple ?P (sync_dir (rot_of root)) (\<lambda>_. ?P) (\<lambda>_. is_contained) ?S"
      by (rule triple_conseq [OF keeps_site(2) [where J = "prepared cr root L PL K old new {}"]]) (auto intro: quietly contained_safe)
    have stage: "triple ?P (prepare_staged_files cr (rot_of root) old new ts) (\<lambda>_. at (prepared cr root L PL K old new L)) (\<lambda>_. is_contained) ?S"
      by (rule triple_conseq [OF prepare_site [OF ts keys(2)]]) (auto intro: containedI(1) contained_safe)
    have commit: "triple (at (pending cr root L PL K old new)) (commit_rotation cr sh ts new) ?D (\<lambda>_. is_contained) ?S"
      by (rule triple_conseq [OF commit_site [OF lay ts]]) (use new in \<open>auto simp: is_contained_def\<close>)
    show ?thesis
      by (rule triple_bind [OF weak [OF next_files [OF keys(1) inK new(2)]]], rule triple_bind [OF sync], rule triple_bind [OF stage],
          rule triple_bind [OF mark_site [OF inK new(2)] commit])
  qed
  have quiet: "quiet cr root L PL K old B c \<Longrightarrow> live_paths root B = L" "quiet cr root L PL K old B c \<Longrightarrow> c = Some old" for B c
    by (simp_all add: quiet_def)
  have clean: "triple ?Q (cleanup_rotation_dir (rot_of root)) (\<lambda>_. ?Q) (\<lambda>_. ?Q) ?Q"
    by (rule triple_conseq [OF cleanup_site [where J = "quiet cr root L PL K old"]]) (auto intro: quiet_remove elim: site_mono)
  have "triple ?Q (rotate_rest sh) ?D (\<lambda>_. is_contained) ?S"
    unfolding rotate_rest_def
    by (rule triple_bind [OF weak [OF clean]], rule triple_bind [OF weak [OF ensure_area(1) [OF spotwise_quiet]]],
        rule triple_bind [OF weak [OF keeps_site(2)]], rule triple_bind [OF weak [OF load_phase [OF quiet(2)]]], assumption, rule triple_eq,
        rule triple_bind [OF weak [OF random_key]], rule triple_assume, rule triple_bind [OF weak [OF collect_phase [OF quiet(1)]]], assumption,
        rule triple_assume, rule tail) auto
  then show "triple (\<lambda>v. v = w) (rotate_rest sh) ?D (\<lambda>_. is_contained) ?S"
    by (rule triple_pre) (simp add: w)
qed


lemma finished_quiet: "at (finished m) w \<Longrightarrow> at (quiet cr root L PL K m) w"
  by (erule site_mono) (simp add: finished_def)

lemma rotate_site:
  assumes "laid_out sh root prov"
  shows "triple (at (quiet cr root L PL K m)) (rotate_now cr sh) (\<lambda>_ w. \<exists>new. drawn tp 32 new \<and> at (finished new) w)
    (\<lambda>_. is_contained) (at (safe cr root L PL K))"
  unfolding rotate_now_split [OF assms]
proof (rule triple_bind)
  show "triple (at (quiet cr root L PL K m)) recover (\<lambda>_. at (finished m)) (\<lambda>_. is_contained) (at (safe cr root L PL K))"
    by (rule triple_conseq [OF recover_quiet]) (auto intro: containedI(1) safeI(2))
  show "triple (at (finished m)) (rotate_rest sh) (\<lambda>_ w. \<exists>new. drawn tp 32 new \<and> at (finished new) w) (\<lambda>_. is_contained)
      (at (safe cr root L PL K))"
    by (rule triple_pre [OF rotate_rest_site [OF assms]]) (auto elim: site_mono simp: finished_def)
qed

lemma recover_safe:
  "triple (at (safe cr root L PL K)) recover (\<lambda>_ w. \<exists>m. at (finished m) w) (\<lambda>_. at (safe cr root L PL K)) (at (safe cr root L PL K))"
proof (rule triple_point)
  let ?S = "at (safe cr root L PL K)"
  fix w assume w: "?S w"
  have q: "triple (at (quiet cr root L PL K m)) recover (\<lambda>_ w. \<exists>m. at (finished m) w) (\<lambda>_. ?S) ?S" for m
    by (rule triple_conseq [OF recover_quiet]) (auto intro: safeI)
  have u: "triple (at (unfinished old new)) recover (\<lambda>_ w. \<exists>m. at (finished m) w) (\<lambda>_. ?S) ?S" for old new
    by (rule triple_conseq [OF recover_unfinished]) (auto intro: safeI)
  consider m where "at (quiet cr root L PL K m) w" | old new where "at (unfinished old new) w"
    using w unfolding site_def safe_def unfinished_def by blast
  then show "triple (\<lambda>v. v = w) recover (\<lambda>_ w. \<exists>m. at (finished m) w) (\<lambda>_. ?S) ?S"
    by cases (rule triple_pre [OF q] triple_pre [OF u], simp)+
qed

lemma rotate_safe:
  assumes "laid_out sh root prov"
  shows "triple (at (safe cr root L PL K)) (rotate_now cr sh) (\<lambda>_. at (safe cr root L PL K)) (\<lambda>_. at (safe cr root L PL K)) (at (safe cr root L PL K))"
  unfolding rotate_now_split [OF assms]
proof (rule triple_bind [OF recover_safe], rule triple_ex)
  fix m
  show "triple (at (finished m)) (rotate_rest sh) (\<lambda>_. at (safe cr root L PL K)) (\<lambda>_. at (safe cr root L PL K)) (at (safe cr root L PL K))"
    by (rule triple_conseq [OF rotate_rest_site [OF assms]])
       (auto intro: contained_safe safeI(2) dest: finished_quiet)
qed

text \<open>What a safe site gives: no payload is lost, and after a recovery the stored key opens every keyfile.\<close>

lemma safe_payloads:
  assumes "at (safe cr root L PL K) w" and "q \<in> L"
  shows "\<exists>mk. holds cr mk (kt_of root q) (PL q) (map_of (nodes w) q)"
  using assms by (auto simp: site_def safe_def quiet_def pending_def settled_def all_hold_def)

lemma finished_usable: "at (finished m) w \<Longrightarrow> at (\<lambda>B c. c = Some m \<and> usable cr root L PL B c \<and> all_hold cr root L PL m B \<and> B (rot_of root) = None) w"
  by (erule site_mono) (auto simp: finished_def quiet_def usable_def)

end

end
