(* ===== verification/PlainSite.thy ===== *)
theory PlainSite
  imports RotationRuns
begin

text \<open>
  The plaintext provider of \<^verbatim>\<open>src/src/keys/manager.rs\<close> keeps the contract of a master-key provider: its key
  is the content of a file outside the site, read whole and replaced atomically.
\<close>

definition plain_current :: "path \<Rightarrow> 'p current" where
  "plain_current mkp B s = (case B mkp of Some (File m d) \<Rightarrow> if length d = 32 then Some d else None | _ \<Rightarrow> None)"

locale plain_site =
  fixes crt :: crates and mkp :: path and root :: path
  assumes hex_plain: "hex_ok crt" and mk_target: "target_path mkp" and mk_tmp: "prefix q mkp \<Longrightarrow> \<not> is_tmp q"
    and mk_outside: "\<not> prefix root mkp" and root_name: "\<not> is_tmp root"
begin

lemma mkp_ne: "mkp \<noteq> []"
  using mk_target by (simp add: target_path_def)

lemma current_same: "B mkp = B' mkp \<Longrightarrow> plain_current mkp B s = plain_current mkp B' s"
  by (simp add: plain_current_def)

lemma frame_below:
  assumes "below root R" and "R B" and "frame B mkp ns"
  shows "R (map_of ns)"
proof -
  have same: "B q = map_of ns q" if "prefix root q" for q
  proof -
    have "q \<noteq> mkp" "\<not> strict_prefix q mkp" using that mk_outside by (auto simp: strict_prefix_def dest: prefix_order.trans)
    moreover have "\<not> (is_tmp q \<and> butlast q = butlast mkp)"
    proof
      assume a: "is_tmp q \<and> butlast q = butlast mkp"
      then have "root \<noteq> q" using root_name by auto
      then have "prefix root (butlast q)" using that by (metis append_butlast_last_id butlast.simps(1) prefix_Nil prefix_snoc)
      then show False using a mk_outside prefixeq_butlast prefix_order.trans by metis
    qed
    moreover have "allowed B mkp q (map_of ns q)" if "q \<noteq> mkp" using assms(3) that by (simp add: frame_def)
    ultimately show ?thesis by (cases "B q") (auto simp: allowed_def)
  qed
  show ?thesis using assms(1,2) same unfolding below_def by blast
qed

lemma plain_load:
  assumes "tick_free P" and "\<And>w. P w \<Longrightarrow> wf_nodes (nodes w)"
  shows "triple P (plaintext_load_mk mkp) (\<lambda>mk w. P w \<and> plain_current mkp (map_of (nodes w)) (pstate w) = Some mk \<and> length mk = 32)
    (\<lambda>_. P) P"
  unfolding plaintext_load_mk_def
  by (rule triple_bind [OF read_keyfile_bytes_spec [OF assms(1)]], rule triple_liftR)
     (auto simp: plain_current_def sec_fixed_from_slice_def wf_lookup [OF assms(2) mkp_ne] split: if_splits)

lemma plain_store:
  assumes "below root R" and "length mk = 32"
  shows "triple (\<lambda>w. base tp R w \<and> plain_current mkp (map_of (nodes w)) (pstate w) = c) (plaintext_store_mk crt mkp mk)
    (\<lambda>_ w. base tp R w \<and> plain_current mkp (map_of (nodes w)) (pstate w) = Some mk)
    (\<lambda>_ w. base tp R w \<and> plain_current mkp (map_of (nodes w)) (pstate w) \<in> {c, Some mk})
    (\<lambda>w. base tp R w \<and> plain_current mkp (map_of (nodes w)) (pstate w) \<in> {c, Some mk})"
    (is "triple ?P _ ?Q ?F ?C")
  unfolding plaintext_store_mk_def
proof (rule triple_point)
  fix w assume w: "?P w"
  let ?B = "map_of (nodes w)" and ?s = "pstate w"
  let ?W = "\<lambda>v. stat_conf tp ?s v \<and> wf_nodes (nodes v)"
  have R: "R ?B" and c: "plain_current mkp ?B ?s = c" using w by (simp_all add: base_def)
  have fin: "base tp R v" if "frame ?B mkp (nodes v)" "?W v" for v
    using that frame_below [OF assms(1) R that(1)] by (simp add: base_def stat_conf_def)
  have new: "plain_current mkp (map_of (nodes v)) s = Some mk" if "map_of (nodes v) mkp = Some (File 0x180 mk)" for v :: "'p world" and s
    using that assms(2) by (simp add: plain_current_def)
  have old: "plain_current mkp (map_of (nodes v)) (pstate v) = c" if "map_of (nodes v) mkp = ?B mkp" "?W v" for v
    using that c by (simp add: plain_current_def stat_conf_def)
  have spec: "triple (\<lambda>v. untouched ?B mkp (nodes v) \<and> ?W v) (write_secure crt mkp mk) (\<lambda>_ v. replaced ?B mkp mk (nodes v) \<and> ?W v)
      (\<lambda>_ v. untouched ?B mkp (nodes v) \<and> ?W v)
      (\<lambda>v. (frame ?B mkp (nodes v) \<and> map_of (nodes v) mkp \<in> {?B mkp, Some (File 0x180 mk)}) \<and> ?W v)"
    by (rule triple_conj [OF write_secure_spec [OF hex_plain mk_target] keeps_wf_write_secure [OF conf_stat hex_plain mk_target mk_tmp]])
  show "triple (\<lambda>v. v = w) (write_secure crt mkp mk) ?Q ?F ?C"
  proof (rule triple_conseq [OF spec])
    show "untouched ?B mkp (nodes v) \<and> ?W v" if "v = w" for v
      using w that by (auto simp: untouched_def frame_def allowed_def base_def stat_conf_def split: option.splits)
    show "?Q a v" if "replaced ?B mkp mk (nodes v) \<and> ?W v" for a v
      using that fin [of v] new [of v] replaced_map [of ?B mkp mk "nodes v"] mkp_ne by (auto simp: replaced_def)
    show "?F e v" if "untouched ?B mkp (nodes v) \<and> ?W v" for e v
      using that fin [of v] old [of v] by (auto simp: untouched_def)
    show "?C v" if "(frame ?B mkp (nodes v) \<and> map_of (nodes v) mkp \<in> {?B mkp, Some (File 0x180 mk)}) \<and> ?W v" for v
      using that fin [of v] old [of v] new [of v "pstate v"] by (cases "map_of (nodes v) mkp = ?B mkp") simp_all
  qed
qed

end

sublocale plain_site \<subseteq> mk_store "plaintext_provider crt mkp" "plain_current mkp" root
proof
  show "plain_current mkp B s = plain_current mkp B' s" if "\<And>q. q \<noteq> [] \<Longrightarrow> \<not> prefix root q \<Longrightarrow> B q = B' q" for B B' :: "path \<rightharpoonup> node" and s :: 'a
    by (rule current_same, rule that [OF mkp_ne mk_outside])
qed (unfold plaintext_provider_def mk_provider.simps, rule plain_load, assumption+, rule plain_store, assumption+)

end
