(* ===== verification/Lives.thy ===== *)
theory Lives
  imports PlainSite
begin

text \<open>
  Many lives of the process: a life is a rotation or a recovery that returns, fails or dies anywhere, and the
  next one starts on the tree and the provider it left.  Every sequence of lives stays safe.  A rotation area that has lost
  a staged copy is one that recovery cannot leave.
\<close>

section \<open>Lives of the process\<close>

text \<open>What survives a restart: the tree and the provider.  Everything else may be different afterwards, also which
  system calls fail; the bytes that the generator will ever give are one tape, read from any position.\<close>

definition restarted :: "'p world \<Rightarrow> 'p world \<Rightarrow> bool" where
  "restarted w w' \<longleftrightarrow> nodes w' = nodes w \<and> pstate w' = pstate w \<and> rng_tape w' = rng_tape w \<and> (\<forall>n. faults w' OpStat n = None)"

inductive lives :: "crates \<Rightarrow> 'p shared \<Rightarrow> 'p world \<Rightarrow> 'p world \<Rightarrow> bool" for cr :: crates and sh :: "'p shared" and w :: "'p world" where
  lives_start: "lives cr sh w w"
| lives_rotate: "lives cr sh w w1 \<Longrightarrow> restarted w1 w2 \<Longrightarrow> rotate_now cr sh w2 = (out, w3) \<Longrightarrow> lives cr sh w w3"
| lives_recover: "lives cr sh w w1 \<Longrightarrow> restarted w1 w2 \<Longrightarrow> recover_shared cr sh w2 = (out, w3) \<Longrightarrow> lives cr sh w w3"

definition master_keys :: "(nat \<Rightarrow> u8) \<Rightarrow> bytes \<Rightarrow> bytes set" where
  "master_keys tp m = insert m {a. drawn tp 32 a}"

text \<open>What is assumed of the surroundings of a site: the provider's contract, the packages, sane names, and that the
  envelope encryption tells the master keys apart.\<close>

definition sound_setting :: "crates \<Rightarrow> 'p mk_provider \<Rightarrow> 'p current \<Rightarrow> path \<Rightarrow> 'p shared \<Rightarrow> (nat \<Rightarrow> u8) \<Rightarrow> bytes \<Rightarrow> bool" where
  "sound_setting cr prov cur root sh tp m \<longleftrightarrow> mk_store prov cur root \<and> hex_ok cr \<and> aead_ok cr \<and> hkdf_ok cr
     \<and> root \<noteq> [] \<and> (\<forall>q. prefix q root \<longrightarrow> \<not> is_tmp q) \<and> laid_out sh root prov
     \<and> (\<forall>a\<in>master_keys tp m. \<forall>b\<in>master_keys tp m. a \<noteq> b \<longrightarrow> keys_apart cr tp a b)"

lemma site_restarted: "site cur tp root J w \<Longrightarrow> restarted w w' \<Longrightarrow> site cur tp root J w'"
  by (simp add: site_def restarted_def)

lemma setting_rotation:
  assumes "sound_setting cr prov cur root sh tp m"
  shows "rotation_site prov cur root cr tp (master_keys tp m)" and "laid_out sh root prov"
    and "recover_shared cr sh = recover_pending_rotation_if_any cr root (priv_of root) (secrets_of root) (rot_of root) prov"
  using assms unfolding sound_setting_def
  by (auto simp: rotation_site_def rotation_site_axioms_def site_rules_def site_rules_axioms_def master_keys_def
      recover_shared_def laid_out_def)

lemma keeps_run: "keeps P m \<Longrightarrow> P w \<Longrightarrow> m w = (out, w') \<Longrightarrow> P w'"
  by (cases out) (auto dest: triple_DoneD triple_FailD triple_CrashD)

lemma lives_safe:
  assumes set: "sound_setting cr prov cur root sh tp m" and "site cur tp root (safe cr root L PL (master_keys tp m)) w"
    and "lives cr sh w w'"
  shows "site cur tp root (safe cr root L PL (master_keys tp m)) w'"
  using assms(3)
proof induction
  let ?S = "site cur tp root (safe cr root L PL (master_keys tp m))"
  note loc = setting_rotation(1) [OF set]
  {
    case (lives_rotate w1 w2 out w3)
    show ?case
      by (rule keeps_run [OF rotation_site.rotate_safe [OF loc setting_rotation(2) [OF set]]
            site_restarted [OF lives_rotate.IH lives_rotate.hyps(2)] lives_rotate.hyps(3)])
  next
    case (lives_recover w1 w2 out w3)
    have "keeps ?S (recover_shared cr sh)"
      unfolding setting_rotation(3) [OF set]
      by (rule triple_conseq [OF rotation_site.recover_safe [OF loc]])
         (auto intro: rotation_site.safeI(2) [OF loc] rotation_site.finished_quiet [OF loc])
    then show ?case
      by (rule keeps_run) (rule site_restarted [OF lives_recover.IH lives_recover.hyps(2)], rule lives_recover.hyps(3))
  }
qed (rule assms(2))

lemma recovered_usable:
  assumes set: "sound_setting cr prov cur root sh tp m" and "site cur tp root (safe cr root L PL (master_keys tp m)) w"
    and "recover_shared cr sh w = (Done u, w')"
  shows "\<exists>k. cur (map_of (nodes w')) (pstate w') = Some k \<and> all_hold cr root L PL k (map_of (nodes w'))
    \<and> live_paths root (map_of (nodes w')) = L \<and> map_of (nodes w') (rot_of root) = None"
proof -
  note loc = setting_rotation(1) [OF set]
  obtain k where "site cur tp root (rotation_site.finished root cr L PL (master_keys tp m) k) w'"
    using triple_DoneD [OF rotation_site.recover_safe [OF loc] assms(2)] assms(3) unfolding setting_rotation(3) [OF set] by blast
  from rotation_site.finished_usable [OF loc this] show ?thesis by (auto simp: site_def usable_def)
qed

section \<open>A rotation area that lost a staged copy\<close>

definition maimed :: "path \<Rightarrow> path set \<Rightarrow> path \<Rightarrow> assertion" where
  "maimed root L q B c \<longleftrightarrow> live_paths root B = L \<and> B (ready_of root) \<noteq> None \<and> B (staged_of root q) = None"

lemma spotwise_maimed: "key_path root q \<Longrightarrow> spotwise root (maimed root L q)"
proof (rule spotwiseI)
  fix B B' c assume kp: "key_path root q" and eq: "\<And>q. spot root q \<Longrightarrow> B' q = B q" and m: "maimed root L q B c"
  have "live_paths root B = L" using m by (simp add: maimed_def)
  then show "maimed root L q B' c"
    using m all_hold_spots(1) [OF _ eq] eq [of "ready_of root"] eq [of "staged_of root q"] kp by (simp add: maimed_def spot_def spot_leafs)
qed

lemma maimed_write:
  assumes "maimed root L q B c" and "k \<in> L" and "key_path root q"
  shows "maimed root L q (B(k \<mapsto> File m d)) c"
proof -
  have kp: "key_path root k" using assms live_key_path by (auto simp: maimed_def)
  then have "k \<noteq> ready_of root" "k \<noteq> staged_of root q"
    using leaf_not_key [of root k] spot_leafs(1) spot_leafs(4) [OF assms(3)] by auto
  moreover have "live_paths root (B(k \<mapsto> File m d)) = L" using assms(1,2) kp by (auto simp: maimed_def live_paths_def key_path_def)
  ultimately show ?thesis using assms(1) by (simp add: maimed_def)
qed

context site_rules
begin

lemma apply_maimed:
  assumes "q \<in> L" and "k \<in> L" and kp: "key_path root q" "key_path root k"
  shows "triple (at (maimed root L q)) (apply_staged_file cr (rot_of root) (target_of root k))
    (\<lambda>_ w. at (maimed root L q) w \<and> k \<noteq> q) (\<lambda>_ _. True) (\<lambda>_. True)"
proof -
  let ?M = "maimed root L q"
  have ne: "staged_of root k \<noteq> []" using spot_ne spot_leafs(4) [OF kp(2)] by (auto simp: spot_def)
  have rd: "triple (at ?M) (read_keyfile_bytes (staged_of root k)) (\<lambda>d w. at ?M w \<and> k \<noteq> q) (\<lambda>_ _. True) (\<lambda>_. True)"
    by (rule triple_conseq [OF read_site [OF ne, of ?M]]) (auto simp: site_def maimed_def)
  have wr: "triple (at ?M) (write_secure cr k d) (\<lambda>_. at ?M) (\<lambda>_ _. True) (\<lambda>_. True)" for d
    by (rule triple_conseq [OF write_spot [where J = ?M and K = ?M]])
       (use kp assms in \<open>auto intro: spotwise_maimed maimed_write simp: spot_def\<close>)
  have sync: "triple (at ?M) (sync_parent k) (\<lambda>_ w. at ?M w \<and> k \<noteq> q) (\<lambda>_ _. True) (\<lambda>_. True)" if "k \<noteq> q"
    by (rule triple_conseq [OF keeps_site(3) [where J = ?M]]) (auto simp: that)
  have "stage_target_path (rot_of root) (drop (length root) k) = staged_of root k" by (simp add: staged_of_def)
  then show ?thesis
    unfolding apply_staged_file_def target_of_simps
    by (simp only:) (rule triple_bind [OF rd], rule triple_assume, rule triple_bind [OF wr], rule sync)
qed

lemma recover_maimed:
  assumes "q \<in> L" and L: "\<And>k. k \<in> L \<Longrightarrow> key_path root k"
  shows "triple (at (maimed root L q)) recover (\<lambda>_ _. False) (\<lambda>_ _. True) (\<lambda>_. True)"
proof (rule recover_cases)
  let ?M = "maimed root L q"
  show False if "at (\<lambda>B c. ?M B c \<and> B (rot_of root) = None) w" for w
    using that tree_wf_below [of "map_of (nodes w)" "rot_of root" "ready_of root"]
    by (simp add: site_def maimed_def ready_of_def rot_of_def join_def)
  show "triple (at (\<lambda>B c. ?M B c \<and> B (ready_of root) = None)) (cleanup_rotation_dir (rot_of root)) (\<lambda>_ _. False) (\<lambda>_ _. True) (\<lambda>_. True)"
    by (auto simp: triple_def site_def maimed_def)
  have loop: "triple (at ?M) (apply_staged_files cr (rot_of root) ts) (\<lambda>_ _. False) (\<lambda>_ _. True) (\<lambda>_. True)"
    if ts: "set ts = target_of root ` L" for ts
  proof -
    let ?I = "\<lambda>(xs :: rewrap_target list) (ys :: rewrap_target list) w. at ?M w \<and> target_of root q \<notin> set xs"
    have "triple (?I [] ts) (forM ts (apply_staged_file cr (rot_of root))) (\<lambda>_. ?I ts []) (\<lambda>_ _. True) (\<lambda>_. True)"
    proof (rule triple_forM_split [where I = ?I and zs = ts and xs = "[]"])
      fix xs t ys assume "ts = xs @ t # ys"
      then obtain k where t: "t = target_of root k" and k: "k \<in> L" using ts by (auto simp: set_eq_iff)
      have "target_of root q \<noteq> target_of root k" if "k \<noteq> q" using that by (metis target_of_simps(1))
      then show "triple (?I xs (t # ys)) (apply_staged_file cr (rot_of root) t) (\<lambda>_. ?I (xs @ [t]) ys) (\<lambda>_ _. True) (\<lambda>_. True)"
        unfolding t
        by (intro triple_assume triple_conseq [OF apply_maimed [OF assms(1) k L [OF assms(1)] L [OF k]]]) auto
    qed simp
    then show ?thesis unfolding apply_staged_files_def
      by (rule triple_conseq) (use ts assms(1) in auto)
  qed
  have collect: "triple (at ?M) (collect_rewrap_targets root (priv_of root) (secrets_of root))
      (\<lambda>ts w. at ?M w \<and> set ts = target_of root ` L) (\<lambda>_ _. True) (\<lambda>_. True)"
    by (rule triple_conseq [OF collect_site [where J = ?M]]) (auto simp: site_def maimed_def)
  have load: "triple (at ?M) (load_mk prov) (\<lambda>_. at ?M) (\<lambda>_ _. True) (\<lambda>_. True)"
    by (rule triple_conseq [OF load_site [where J = ?M]]) (auto elim: site_mono)
  have key: "triple (at ?M) (recover_new_mk cr (rot_of root) mk) (\<lambda>_. at ?M) (\<lambda>_ _. True) (\<lambda>_. True)" for mk
    by (rule triple_conseq [OF recover_new_site [where J = ?M]]) (auto elim: site_mono)
  have rest: "triple (at ?M) (case r of (new_mk, switched) \<Rightarrow> bindM (apply_staged_files cr (rot_of root) ts) (\<lambda>_.
      bindM (if \<not> switched then store_mk prov new_mk else ret ()) (\<lambda>_. cleanup_rotation_dir (rot_of root))))
      (\<lambda>_ _. False) (\<lambda>_ _. True) (\<lambda>_. True)" if "set ts = target_of root ` L" for r :: "bytes \<times> bool" and ts
    by (cases r) (simp only: prod.case, rule triple_bind [OF loop [OF that]], simp add: triple_def)
  have "triple (at ?M) finish_up (\<lambda>_ _. False) (\<lambda>_ _. True) (\<lambda>_. True)"
    unfolding finish_up_def
    by (rule triple_bind [OF collect], rule triple_assume, rule triple_bind [OF load], rule triple_bind [OF key rest])
  then show "triple (at (\<lambda>B c. ?M B c \<and> B (ready_of root) \<noteq> None)) finish_up (\<lambda>_ _. False) (\<lambda>_ _. True) (\<lambda>_. True)"
    by (rule triple_pre) (auto elim: site_mono)
qed

end

end
