(* ===== verification/Worker.thy ===== *)
theory Worker
  imports Manager
begin

text \<open>
  The rotation thread of \<^verbatim>\<open>keys/manager.rs\<close> as a transition system: its own steps, and between them the steps of the
  other threads, which set the interval, drop the manager, or use it.  A run is a sequence of states with the instant of
  each step; it is fair if the clock does not go back and the thread is scheduled again and again.

  \<open>wait_timeout\<close> may return at any moment: after the timeout, after a \<open>notify_all\<close>, or for no reason.  A waiting thread can therefore
  always step; that it is not woken too late is the fairness of the run together with the instants of its steps.
\<close>

type_synonym 'p worker_state = "worker_pc \<times> worker_ctl \<times> 'p world"

definition worker_step :: "crates \<Rightarrow> 'p shared \<Rightarrow> instant \<Rightarrow> 'p worker_state \<Rightarrow> 'p worker_state" where
  "worker_step cr sh now s = (case s of (pc, ctl, w) \<Rightarrow> (case pc of
     AtLoop \<Rightarrow> (worker_look now ctl, ctl, w)
   | Waiting d \<Rightarrow> (AtLoop, ctl, w)
   | Rotating every \<Rightarrow> (case worker_rotate cr sh w of
       (Done stop, w') \<Rightarrow>
         if stop then (Exited, ctl, w')
         else (case worker_reschedule now every ctl of (pc', ctl') \<Rightarrow> (pc', ctl', w'))
     | (Fail e, w') \<Rightarrow> (Exited, ctl, w')
     | (Crash, w') \<Rightarrow> (Exited, ctl, w'))
   | Exited \<Rightarrow> (Exited, ctl, w)))"

inductive manager_step :: "crates \<Rightarrow> 'p shared \<Rightarrow> instant \<Rightarrow> 'p worker_state \<Rightarrow> 'p worker_state \<Rightarrow> bool"
  for cr :: crates and sh :: "'p shared" and now :: instant where
  step_worker: "manager_step cr sh now s (worker_step cr sh now s)"
| step_interval: "set_rotate_interval now d ctl = (r, ctl') \<Longrightarrow> manager_step cr sh now (pc, ctl, w) (pc, ctl', w)"
| step_drop: "manager_step cr sh now (pc, ctl, w) (pc, rotation_guard_drop ctl, w)"
| step_use: "manager_step cr sh now (pc, ctl, w) (pc, ctl, w')"

inductive_cases manager_stepE: "manager_step cr sh now s s'"

abbreviation pc_of :: "'p worker_state \<Rightarrow> worker_pc" where "pc_of s \<equiv> fst s"
abbreviation ctl_of :: "'p worker_state \<Rightarrow> worker_ctl" where "ctl_of s \<equiv> fst (snd s)"
abbreviation world_of :: "'p worker_state \<Rightarrow> 'p world" where "world_of s \<equiv> snd (snd s)"

definition fair_run :: "crates \<Rightarrow> 'p shared \<Rightarrow> (nat \<Rightarrow> instant) \<Rightarrow> (nat \<Rightarrow> 'p worker_state) \<Rightarrow> bool" where
  "fair_run cr sh at st \<longleftrightarrow>
     (\<forall>i. at i \<le> at (Suc i)) \<and> (\<forall>i. manager_step cr sh (at i) (st i) (st (Suc i)))
   \<and> (\<forall>i. \<exists>j\<ge>i. st (Suc j) = worker_step cr sh (at j) (st j))"

text \<open>The thread rotates at step \<open>j\<close> of the run.\<close>

definition rotates_at :: "crates \<Rightarrow> 'p shared \<Rightarrow> (nat \<Rightarrow> instant) \<Rightarrow> (nat \<Rightarrow> 'p worker_state) \<Rightarrow> nat \<Rightarrow> bool" where
  "rotates_at cr sh at st j \<longleftrightarrow> (\<exists>every. pc_of (st j) = Rotating every) \<and> st (Suc j) = worker_step cr sh (at j) (st j)"

section \<open>Single steps\<close>

lemmas worker_defs = worker_look_def worker_reschedule_def

lemma rotate_result:
  assumes "worker_rotate cr sh w = (out, w')"
  obtains "out = Done False"
  | e w1 cb where "out = Done True" "rotate_now cr sh w = (Fail e, w1)" "sh_error_policy sh = PolicyStrict cb" "w' = cb e (w1\<lparr>poisoned := True\<rparr>)"
  | "out = Crash" "rotate_now cr sh w = (Crash, w')"
proof (cases "rotate_now cr sh w")
  case (Pair r w1)
  show thesis
    using assms that Pair
    by (cases r; cases "sh_error_policy sh")
      (auto simp: worker_rotate_def bindM_def tryM_def ret_def handle_rotation_error_def set_poisoned_def)
qed

lemma worker_step_simps [simp]:
  "worker_step cr sh now (AtLoop, ctl, w) = (worker_look now ctl, ctl, w)"
  "worker_step cr sh now (Waiting d, ctl, w) = (AtLoop, ctl, w)"
  "worker_step cr sh now (Exited, ctl, w) = (Exited, ctl, w)"
  by (simp_all add: worker_step_def)

lemma worker_rotating:
  assumes "worker_step cr sh now (Rotating every, ctl, w) = (pc, ctl', w')"
  shows "pc = Exited \<and> ctl' = ctl
    \<or> pc = AtLoop \<and> \<not> wc_stop ctl \<and> instant_checked_add now every = Some (wc_next_rotation_at ctl')
      \<and> wc_rotate_every ctl' = wc_rotate_every ctl \<and> wc_stop ctl' = wc_stop ctl"
proof (cases "worker_rotate cr sh w")
  case (Pair out w1)
  show ?thesis
    by (rule rotate_result [OF Pair]) (use assms Pair in \<open>auto simp: worker_step_def worker_reschedule_def split: if_splits option.splits\<close>)
qed

text \<open>Why the thread ends.\<close>

lemma worker_exits:
  assumes "worker_step cr sh now (pc, ctl, w) = (Exited, ctl', w')"
  obtains "pc = Exited" | "wc_stop ctl" | every where "pc = Rotating every" "instant_checked_add now every = None"
  | every e w1 cb where "pc = Rotating every" "rotate_now cr sh w = (Fail e, w1)" "sh_error_policy sh = PolicyStrict cb"
      "w' = cb e (w1\<lparr>poisoned := True\<rparr>)"
  | every where "pc = Rotating every" "rotate_now cr sh w = (Crash, w')"
proof (cases pc)
  case (Rotating every)
  obtain out w1 where run: "worker_rotate cr sh w = (out, w1)" by fastforce
  show thesis
    by (rule rotate_result [OF run])
      (use assms run Rotating that in \<open>auto simp: worker_step_def worker_reschedule_def split: if_splits option.splits\<close>)
qed (use assms that in \<open>auto simp: worker_look_def split: if_splits\<close>)

text \<open>A step of another thread leaves the program counter, and nothing takes a stop request back.\<close>

lemma other_step:
  assumes "manager_step cr sh now s s'" and "s' \<noteq> worker_step cr sh now s"
  shows "pc_of s' = pc_of s"
  using assms by (auto elim: manager_stepE)

lemma stop_is_kept:
  assumes "manager_step cr sh now s s'" and "wc_stop (ctl_of s)"
  shows "wc_stop (ctl_of s')"
  using assms(1)
proof cases
  case step_worker
  obtain pc ctl w where s: "s = (pc, ctl, w)" by (cases s)
  obtain pc' ctl' w' where s': "s' = (pc', ctl', w')" by (cases s')
  show ?thesis
  proof (cases pc)
    case (Rotating every)
    then have step: "worker_step cr sh now (Rotating every, ctl, w) = (pc', ctl', w')" using step_worker by (simp add: s s')
    show ?thesis using worker_rotating [OF step] assms(2) by (auto simp: s s')
  qed (use step_worker assms(2) in \<open>auto simp: s\<close>)
qed (use assms(2) in \<open>auto simp: set_rotate_interval_def rotation_guard_drop_def split: if_splits option.splits\<close>)

section \<open>Runs\<close>

lemma run_stop_is_kept:
  assumes "fair_run cr sh at st" and "wc_stop (ctl_of (st i))" and "i \<le> j"
  shows "wc_stop (ctl_of (st j))"
  using assms(3)
proof (induction rule: dec_induct)
  case (step n)
  have "manager_step cr sh (at n) (st n) (st (Suc n))" using assms(1) by (simp add: fair_run_def)
  then show ?case using step.IH by (rule stop_is_kept)
qed (rule assms(2))

lemma run_time_mono:
  assumes "fair_run cr sh at st" and "i \<le> j"
  shows "at i \<le> at j"
  using assms(2) by (induction rule: dec_induct) (use assms(1) in \<open>auto simp: fair_run_def intro: order_trans\<close>)

text \<open>The next time the thread runs, it is where it was.\<close>

lemma run_next:
  assumes "fair_run cr sh at st"
  obtains j where "i \<le> j" "st (Suc j) = worker_step cr sh (at j) (st j)" "pc_of (st j) = pc_of (st i)"
proof -
  let ?A = "\<lambda>j. i \<le> j \<and> st (Suc j) = worker_step cr sh (at j) (st j)"
  let ?j = "LEAST j. ?A j"
  have "\<exists>j. ?A j" using assms by (auto simp: fair_run_def)
  then have j: "?A ?j" by (rule LeastI_ex)
  have "pc_of (st k) = pc_of (st i)" if "i \<le> k" "k \<le> ?j" for k
    using that
  proof (induction rule: dec_induct)
    case (step n)
    then have "\<not> ?A n" using not_less_Least [of n ?A] by simp
    moreover have "manager_step cr sh (at n) (st n) (st (Suc n))" using assms by (simp add: fair_run_def)
    ultimately show ?case using other_step [of cr sh "at n" "st n" "st (Suc n)"] step by simp
  qed simp
  then show thesis using that j by blast
qed

lemma run_from_waiting:
  assumes "fair_run cr sh at st" and "pc_of (st i) = Waiting d"
  obtains j where "i \<le> j" "pc_of (st j) = AtLoop"
proof -
  obtain j where "i \<le> j" "st (Suc j) = worker_step cr sh (at j) (st j)" "pc_of (st j) = pc_of (st i)"
    by (rule run_next [OF assms(1)])
  then show thesis using that [of "Suc j"] assms(2) by (cases "st j") auto
qed

text \<open>A stop request ends the thread.\<close>

lemma run_stops_at_loop:
  assumes "fair_run cr sh at st" and "pc_of (st i) = AtLoop" and "wc_stop (ctl_of (st i))"
  shows "\<exists>j\<ge>i. pc_of (st j) = Exited"
proof -
  obtain j where j: "i \<le> j" "st (Suc j) = worker_step cr sh (at j) (st j)" "pc_of (st j) = AtLoop"
    using run_next [OF assms(1)] assms(2) by metis
  then have "pc_of (st (Suc j)) = Exited"
    using run_stop_is_kept [OF assms(1,3) j(1)] by (cases "st j") (auto simp: worker_look_def)
  then show ?thesis using j(1) le_Suc_eq by blast
qed

lemma run_stops:
  assumes "fair_run cr sh at st" and "wc_stop (ctl_of (st i))"
  shows "\<exists>j\<ge>i. pc_of (st j) = Exited"
proof (cases "pc_of (st i)")
  case AtLoop
  then show ?thesis using run_stops_at_loop assms by blast
next
  case (Waiting d)
  then obtain j where j: "i \<le> j" "pc_of (st j) = AtLoop" by (rule run_from_waiting [OF assms(1)])
  then show ?thesis using run_stops_at_loop [OF assms(1) j(2) run_stop_is_kept [OF assms j(1)]] order_trans by blast
next
  case (Rotating every)
  then obtain j where j: "i \<le> j" "st (Suc j) = worker_step cr sh (at j) (st j)" "pc_of (st j) = Rotating every"
    using run_next [OF assms(1), of i] by metis
  obtain ctl w where s: "st j = (Rotating every, ctl, w)" using j(3) by (cases "st j") auto
  obtain pc' ctl' w' where s': "worker_step cr sh (at j) (st j) = (pc', ctl', w')" by (cases "worker_step cr sh (at j) (st j)")
  have "pc_of (st (Suc j)) = Exited"
    using worker_rotating [OF s' [unfolded s]] run_stop_is_kept [OF assms j(1)] j(2) s s' by auto
  then show ?thesis using j(1) le_Suc_eq by blast
qed blast

text \<open>A thread that neither rotates nor ends is in its waiting loop and leaves the control block.\<close>

definition idles :: "crates \<Rightarrow> 'p shared \<Rightarrow> (nat \<Rightarrow> instant) \<Rightarrow> (nat \<Rightarrow> 'p worker_state) \<Rightarrow> nat \<Rightarrow> bool" where
  "idles cr sh at st i \<longleftrightarrow> (\<forall>j\<ge>i. \<not> rotates_at cr sh at st j \<and> pc_of (st j) \<noteq> Exited)"

lemma idle_pc:
  assumes "fair_run cr sh at st" and "idles cr sh at st i" and "i \<le> j"
  shows "pc_of (st j) \<noteq> Exited \<and> pc_of (st j) \<noteq> Rotating every"
proof -
  have "pc_of (st j) \<noteq> Rotating every"
  proof
    assume "pc_of (st j) = Rotating every"
    then obtain k where "j \<le> k" "st (Suc k) = worker_step cr sh (at k) (st k)" "pc_of (st k) = Rotating every"
      using run_next [OF assms(1), of j] by metis
    then have "i \<le> k" "rotates_at cr sh at st k" using assms(3) by (auto simp: rotates_at_def)
    then show False using assms(2) by (simp add: idles_def)
  qed
  then show ?thesis using assms(2,3) by (auto simp: idles_def)
qed

lemma idle_ctl:
  assumes "fair_run cr sh at st" and "idles cr sh at st i" and "i \<le> j"
    and "\<And>k. i \<le> k \<Longrightarrow> st (Suc k) = worker_step cr sh (at k) (st k) \<or> ctl_of (st (Suc k)) = ctl_of (st k)"
  shows "ctl_of (st j) = ctl_of (st i)"
  using assms(3)
proof (induction rule: dec_induct)
  case (step n)
  have "ctl_of (worker_step cr sh (at n) (st n)) = ctl_of (st n)"
    using idle_pc [OF assms(1,2) step(1)] by (cases "st n"; cases "pc_of (st n)") auto
  then show ?case using assms(4) [OF step(1)] step.IH by auto
qed simp

lemma run_rotates:
  assumes "fair_run cr sh at st"
    and "\<And>k. i \<le> k \<Longrightarrow> st (Suc k) = worker_step cr sh (at k) (st k) \<or> ctl_of (st (Suc k)) = ctl_of (st k)"
    and "i \<le> k" and "wc_next_rotation_at (ctl_of (st i)) \<le> at k"
  shows "\<exists>j\<ge>i. rotates_at cr sh at st j \<or> pc_of (st j) = Exited"
proof (rule ccontr)
  assume "\<not> ?thesis"
  then have idle: "idles cr sh at st i" by (auto simp: idles_def)
  obtain j where j: "k \<le> j" "pc_of (st j) = AtLoop"
    using idle_pc [OF assms(1) idle assms(3)] run_from_waiting [OF assms(1), of k] by (cases "pc_of (st k)") blast+
  obtain l where l: "j \<le> l" "st (Suc l) = worker_step cr sh (at l) (st l)" "pc_of (st l) = AtLoop"
    using run_next [OF assms(1), of j] j(2) by metis
  have "wc_next_rotation_at (ctl_of (st l)) \<le> at l"
    using idle_ctl [OF assms(1) idle _ assms(2), of l] run_time_mono [OF assms(1), of k l] assms(3,4) j(1) l(1) by simp
  then have "pc_of (st (Suc l)) = Exited \<or> pc_of (st (Suc l)) = Rotating (wc_rotate_every (ctl_of (st l)))"
    using l(2,3) by (cases "st l") (auto simp: worker_look_def)
  then show False using idle_pc [OF assms(1) idle, of "Suc l"] assms(3) j(1) l(1) by auto
qed

end
