(* ===== verification/SampleSite.thy ===== *)
theory SampleSite
  imports Lives Worker
begin

text \<open>
  A small site with the plaintext provider and the sample packages, on which the contracts of the rotation theories are
  interpreted and their guarantees are evaluated.
\<close>

definition demo_root :: path where "demo_root = [''d'', ''KeyManager'']"
definition demo_mkp :: path where "demo_mkp = [''d'', ''mk'']"
definition demo_mk :: bytes where "demo_mk = replicate 32 0xEE"
definition demo_ed :: path where "demo_ed = demo_root @ [PRIV_DIR, ED_PRIV]"

definition demo_nodes :: "bytes \<Rightarrow> nodes" where
  "demo_nodes d = [([''d''], Dir 0x1c0), (demo_mkp, File 0x180 demo_mk), (demo_root, Dir 0x1c0),
     (demo_root @ [PRIV_DIR], Dir 0x1c0), (demo_root @ [SECRETS_DIR], Dir 0x1c0), (demo_ed, File 0x180 d)]"

definition demo_shared :: "unit shared" where
  "demo_shared = \<lparr>sh_root_dir = demo_root, sh_pub_dir = demo_root @ [PUB_DIR], sh_priv_dir = priv_of demo_root,
     sh_secrets_dir = secrets_of demo_root, sh_rotate_dir = rot_of demo_root, sh_mk_provider = plaintext_provider sample_crates demo_mkp,
     sh_memory_locked = True, sh_public_cache_policy = CacheStrict, sh_create_new_mode = LinkNoReplace,
     sh_keys = \<lparr>pk_ed25519 = [], pk_dilithium = []\<rparr>, sh_error_policy = PolicyStrict (\<lambda>e w. w),
     sh_ctl = \<lparr>wc_stop = False, wc_rotate_every = MIN_ROTATE_EVERY, wc_next_rotation_at = 0\<rparr>, sh_lock_held = True\<rparr>"

text \<open>The process dies at the system call with number \<open>n\<close>, unless it is a \<open>stat\<close>.\<close>

definition demo_world :: "nodes \<Rightarrow> nat \<Rightarrow> unit world" where
  "demo_world ns n = (clean_world ns)\<lparr>faults := (\<lambda>op k. if op \<noteq> OpStat \<and> k = n then Some FCrash else None)\<rparr>"

lemma sample_keys_apart:
  assumes "take 8 a \<noteq> take 8 b" and "length a = 32" and "length b = 32"
  shows "keys_apart sample_crates tp a b"
  using assms by (auto simp: keys_apart_def record_dek_def unwrap_dek_def derive_kek_def decrypt_raw_def sample_crates_def
      s_decrypt_def s_tag_def pad_to_def ok_or_def rbind_Inr_iff split: if_splits option.splits)

lemma drawn_of_nat:
  assumes "drawn of_nat 32 a"
  shows "\<exists>i. a = map (\<lambda>k. of_nat (i + k)) [0..<32]" and "length a = 32"
  using assms by (auto simp: drawn_def)

lemma demo_keys:
  assumes "a \<in> master_keys of_nat demo_mk" and "b \<in> master_keys of_nat demo_mk" and "a \<noteq> b"
  shows "keys_apart sample_crates of_nat a b"
proof -
  have len: "length x = 32" if "x \<in> master_keys of_nat demo_mk" for x
    using that drawn_of_nat(2) by (auto simp: master_keys_def demo_mk_def)
  have two: "take 8 x \<noteq> take 8 demo_mk" if x: "drawn of_nat 32 x" for x
  proof
    assume eq: "take 8 x = take 8 demo_mk"
    obtain i where i: "x = map (\<lambda>k. of_nat (i + k)) [0..<32]" using drawn_of_nat(1) [OF x] by blast
    have "x ! 0 = 0xEE" "x ! 1 = 0xEE" using arg_cong [OF eq, of "\<lambda>l. l ! 0"] arg_cong [OF eq, of "\<lambda>l. l ! 1"] by (simp_all add: demo_mk_def)
    then have "(of_nat (i + 1) :: u8) = of_nat i" by (simp add: i)
    then show False by simp
  qed
  have other: "x = y" if x: "drawn of_nat 32 x" and y: "drawn of_nat 32 y" and eq: "take 8 x = take 8 y" for x y
  proof -
    obtain i j where i: "x = map (\<lambda>k. of_nat (i + k)) [0..<32]" and j: "y = map (\<lambda>k. of_nat (j + k)) [0..<32]"
      using drawn_of_nat(1) x y by blast
    have "x ! 0 = y ! 0" using arg_cong [OF eq, of "\<lambda>l. l ! 0"] by simp
    then have "(of_nat i :: u8) = of_nat j" by (simp add: i j)
    then show ?thesis by (simp add: i j)
  qed
  have "take 8 a \<noteq> take 8 b"
    using assms two [of a] two [of b] other [of a b] by (auto simp: master_keys_def)
  then show ?thesis by (rule sample_keys_apart) (use len assms in auto)
qed

lemma demo_names:
  "prefix q demo_root \<Longrightarrow> \<not> is_tmp q" "prefix q demo_mkp \<Longrightarrow> \<not> is_tmp q" "target_path demo_mkp" "\<not> prefix demo_root demo_mkp"
  by (auto simp: demo_root_def demo_mkp_def is_tmp_def target_path_def extension_def split_ext_def Let_def prefix_Cons)

interpretation demo_plain: plain_site sample_crates demo_mkp demo_root
  by unfold_locales (use sample_hex_ok demo_names in auto)

lemma demo_store: "mk_store (plaintext_provider sample_crates demo_mkp :: unit mk_provider) (plain_current demo_mkp) demo_root"
  by (rule demo_plain.mk_store_axioms)

lemma demo_setting:
  "sound_setting sample_crates (plaintext_provider sample_crates demo_mkp) (plain_current demo_mkp) demo_root demo_shared of_nat demo_mk"
  unfolding sound_setting_def
  using demo_store samples_ok demo_names(1) demo_keys by (auto simp: demo_root_def laid_out_def demo_shared_def)

interpretation demo: rotation_site "plaintext_provider sample_crates demo_mkp :: unit mk_provider" "plain_current demo_mkp" demo_root
  sample_crates of_nat "{demo_ed}" "\<lambda>_. replicate 32 5" "master_keys of_nat demo_mk"
  by (rule setting_rotation(1) [OF demo_setting])

lemmas demo_defs = demo_root_def demo_mkp_def demo_ed_def demo_nodes_def PRIV_DIR_def SECRETS_DIR_def

lemma demo_wf: "wf_nodes (demo_nodes d)"
proof -
  have "\<not> is_tmp q" if "map_of (demo_nodes d) q = Some (Dir m)" for q m
    using that by (auto simp: demo_defs is_tmp_def extension_def split_ext_def Let_def ED_PRIV_def split: if_splits)
  moreover have "butlast q = [] \<or> is_dir_node (map_of (demo_nodes d) (butlast q))" if "map_of (demo_nodes d) q \<noteq> None" for q
    using that by (auto simp: demo_defs ED_PRIV_def split: if_splits)
  ultimately show ?thesis by (auto simp: tree_wf_def is_dir_node_iff)
qed

lemma demo_live: "live_paths demo_root (map_of (demo_nodes d)) = {demo_ed}"
  by (auto simp: live_paths_def fixed_paths_def secret_path_def layout_defs demo_defs ED_PRIV_def DILI_PRIV_def extension_def
      split: if_splits)

lemma demo_dirs: "dirs_ok demo_root (map_of (demo_nodes d))"
  by (auto simp: dirs_ok_def layout_defs demo_defs ED_PRIV_def split: if_splits)

lemma demo_quiet:
  assumes "open_bytes sample_crates demo_mk KT_ED_SEED d = Inr (replicate 32 5)" and "length d \<le> MAX_KEYFILE_SIZE"
  shows "site (plain_current demo_mkp) (rng_tape (demo_world (demo_nodes d) n)) demo_root
    (quiet sample_crates demo_root {demo_ed} (\<lambda>_. replicate 32 5) (master_keys (rng_tape (demo_world (demo_nodes d) n)) demo_mk) demo_mk)
    (demo_world (demo_nodes d) n)"
proof -
  have cur: "plain_current demo_mkp (map_of (demo_nodes d)) s = Some demo_mk" for s
    by (simp add: plain_current_def demo_nodes_def demo_mkp_def demo_mk_def)
  have kt: "kt_of demo_root demo_ed = KT_ED_SEED" by (simp add: kt_of_def demo_ed_def priv_of_def join_def)
  have ed: "map_of (demo_nodes d) demo_ed = Some (File 0x180 d)" "map_of (demo_nodes d) (ready_of demo_root) = None"
    by (simp_all add: demo_defs layout_defs)
  show ?thesis
    using assms demo_wf demo_dirs demo_live cur kt ed
    by (simp add: site_def demo_world_def clean_world_def quiet_def all_hold_def holds_def master_keys_def)
qed

lemma demo_encoded: "\<exists>d. open_bytes sample_crates demo_mk KT_ED_SEED d = Inr (replicate 32 5) \<and> length d \<le> MAX_KEYFILE_SIZE"
proof -
  have l: "length (replicate 32 5 :: bytes) < 2 ^ 36" "length KT_ED_SEED < 2 ^ 35" "length (replicate 32 5 :: bytes) + 16 < 2 ^ 32"
    by (simp_all add: KT_ED_SEED_def)
  obtain d where run: "encode_encrypted sample_crates demo_mk (replicate 32 5) KT_ED_SEED (clean_world [])
      = (Done d, (clean_world [])\<lparr>rng_pos := 88 + rng_pos (clean_world [])\<rparr>)"
    by (rule encode_encrypted_total [OF sample_hkdf_ok sample_aead_total clean_world_live l(1,2)])
  then show ?thesis using encode_encrypted_opens [OF sample_aead_ok sample_hkdf_ok l(3) run] by (auto simp: MAX_KEYFILE_SIZE_def)
qed

text \<open>The site at the end of a rotation, when the area is still there; the system call that removes a directory of the area
  is the point where the process dies, after the staged copy is gone.\<close>

definition area_world :: "bytes \<Rightarrow> unit world" where
  "area_world d = (clean_world (demo_nodes d @ [(rot_of demo_root, Dir 0x1c0), (ready_of demo_root, File 0x180 []),
       (rot_of demo_root @ [ROTATE_STAGE_DIR], Dir 0x1c0), (rot_of demo_root @ [ROTATE_STAGE_DIR, PRIV_DIR], Dir 0x1c0),
       (staged_of demo_root demo_ed, File 0x180 d)]))
     \<lparr>faults := (\<lambda>op k. if op = OpRmdir then Some FCrash else None), rank := (\<lambda>p. if last p = ROTATE_READY_FILE then 1 else 0)\<rparr>"

definition maimed_nodes :: nodes where
  "maimed_nodes = demo_nodes [] @ [(rot_of demo_root, Dir 0x1c0), (ready_of demo_root, File 0x180 []),
     (rot_of demo_root @ [ROTATE_STAGE_DIR], Dir 0x1c0), (rot_of demo_root @ [ROTATE_STAGE_DIR, PRIV_DIR], Dir 0x1c0)]"

lemma area_crash:
  "fst (cleanup_rotation_dir (rot_of demo_root) (area_world [])) = Crash"
  "nodes (snd (cleanup_rotation_dir (rot_of demo_root) (area_world []))) = maimed_nodes"
  by code_simp+

lemmas maimed_defs = demo_defs maimed_nodes_def layout_defs ED_PRIV_def ROTATE_STAGE_DIR_def

lemma maimed_wf: "wf_nodes maimed_nodes"
proof -
  have "\<not> is_tmp q" if "map_of maimed_nodes q = Some (Dir m)" for q m
    using that by (auto simp: maimed_defs is_tmp_def extension_def split_ext_def Let_def split: if_splits)
  moreover have "butlast q = [] \<or> is_dir_node (map_of maimed_nodes (butlast q))" if "map_of maimed_nodes q \<noteq> None" for q
    using that by (auto simp: maimed_defs split: if_splits)
  ultimately show ?thesis by (auto simp: tree_wf_def is_dir_node_iff)
qed

lemma maimed_dirs: "dirs_ok demo_root (map_of maimed_nodes)"
  by (auto simp: dirs_ok_def maimed_defs split: if_splits)

lemma maimed_live: "demo_ed \<in> live_paths demo_root (map_of maimed_nodes)"
  by (simp add: live_paths_def fixed_paths_def maimed_defs)

lemma maimed_lacks: "map_of maimed_nodes (staged_of demo_root demo_ed) = None" "map_of maimed_nodes (ready_of demo_root) \<noteq> None"
  by (simp_all add: staged_of_def stage_target_path_def maimed_defs)

section \<open>A rotation thread on a dead disk\<close>

definition demo_ctl :: "instant \<Rightarrow> worker_ctl" where
  "demo_ctl next = \<lparr>wc_stop = False, wc_rotate_every = MIN_ROTATE_EVERY, wc_next_rotation_at = next\<rparr>"

definition demo_patient :: "unit shared" where
  "demo_patient = demo_shared\<lparr>sh_error_policy := PolicyCallback (\<lambda>e w. w)\<rparr>"

definition dead_world :: "unit world" where
  "dead_world = (clean_world [])\<lparr>faults := (\<lambda>op k. Some (FFail PermissionDenied))\<rparr>"

primrec demo_thread :: "nat \<Rightarrow> unit worker_state" where
  "demo_thread 0 = (AtLoop, demo_ctl 7, dead_world)"
| "demo_thread (Suc i) = worker_step sample_crates demo_patient i (demo_thread i)"

lemma demo_thread_fair: "fair_run sample_crates demo_patient (\<lambda>i. i) demo_thread"
  by (auto simp: fair_run_def intro: step_worker)

text \<open>The rotation fails, and the callback policy goes on.\<close>

lemma demo_rotates: "\<exists>w'. worker_rotate sample_crates demo_patient dead_world = (Done False, w')"
proof -
  note ops = stat_follow_def symlink_metadata_def query_def syscall_def dead_world_def clean_world_def
  show ?thesis
    by (simp add: worker_rotate_def rotate_now_def recover_shared_def recover_pending_rotation_if_any_def cleanup_rotation_dir_def
        ensure_private_dir_def path_exists_def handle_rotation_error_def demo_patient_def demo_shared_def ops
        bindM_def tryM_def ret_def fail_def mapM_err_def Let_def)
qed

end
