(* ===== verification/RotationSafety.thy ===== *)
theory RotationSafety
  imports SampleSite Worker
begin

text \<open>
  The guarantees of master-key rotation over many lives of the process, the one case that recovery cannot finish, and the
  progress of the rotation thread.
\<close>

text \<open>C1. Master-key rotation is crash-safe.  Let every keyfile of a site open under the stored master key, and let the
  process then live any number of times: each life rotates or recovers, and returns, fails or dies at any point, with
  any failures of system calls other than \<open>stat\<close>.  Then every keyfile still carries its original payload under some
  master key; and as soon as one recovery returns, every keyfile opens to its original payload under the key that the provider
  holds, no keyfile is gone, and the rotation area is removed.\<close>

theorem rotation_crash_safe:
  assumes "sound_setting cr prov cur root sh (rng_tape w) m"
    and "site cur (rng_tape w) root (quiet cr root L PL (master_keys (rng_tape w) m) m) w"
    and "lives cr sh w w'"
  shows "(\<forall>q\<in>L. \<exists>mk. holds cr mk (kt_of root q) (PL q) (map_of (nodes w') q))
    \<and> (\<forall>v u v'. restarted w' v \<and> recover_shared cr sh v = (Done u, v') \<longrightarrow>
        (\<exists>k. cur (map_of (nodes v')) (pstate v') = Some k \<and> all_hold cr root L PL k (map_of (nodes v'))
           \<and> live_paths root (map_of (nodes v')) = L \<and> map_of (nodes v') (rot_of root) = None))"
proof -
  note loc = setting_rotation(1) [OF assms(1)]
  have safe: "site cur (rng_tape w) root (safe cr root L PL (master_keys (rng_tape w) m)) w'"
    by (rule lives_safe [OF assms(1) rotation_site.safeI(2) [OF loc assms(2)] assms(3)])
  then show ?thesis
    using rotation_site.safe_payloads [OF loc safe] recovered_usable [OF assms(1) site_restarted [OF safe]] by blast
qed

theorem rotation_crash_safe_witness:
  "\<exists>d w1 out out' w2. open_bytes sample_crates demo_mk KT_ED_SEED d = Inr (replicate 32 5)
    \<and> rotate_now sample_crates demo_shared (demo_world (demo_nodes d) 40) = (out, w1)
    \<and> recover_shared sample_crates demo_shared (w1\<lparr>faults := (\<lambda>op n. None)\<rparr>) = (out', w2)
    \<and> (\<exists>mk. holds sample_crates mk KT_ED_SEED (replicate 32 5) (map_of (nodes w2) demo_ed))"
proof -
  obtain d where d: "open_bytes sample_crates demo_mk KT_ED_SEED d = Inr (replicate 32 5)" "length d \<le> MAX_KEYFILE_SIZE"
    using demo_encoded by blast
  let ?w = "demo_world (demo_nodes d) 40"
  obtain out w1 where run: "rotate_now sample_crates demo_shared ?w = (out, w1)" by fastforce
  obtain out' w2 where run': "recover_shared sample_crates demo_shared (w1\<lparr>faults := (\<lambda>op n. None)\<rparr>) = (out', w2)" by fastforce
  have "restarted ?w ?w" "restarted w1 (w1\<lparr>faults := (\<lambda>op n. None)\<rparr>)" by (simp_all add: restarted_def demo_world_def)
  then have "lives sample_crates demo_shared ?w w2"
    using lives_recover [OF lives_rotate [OF lives_start] _ run'] run by blast
  moreover have setting: "sound_setting sample_crates (plaintext_provider sample_crates demo_mkp) (plain_current demo_mkp)
      demo_root demo_shared (rng_tape ?w) demo_mk"
    using demo_setting by (simp add: demo_world_def clean_world_def)
  ultimately have "\<exists>mk. holds sample_crates mk (kt_of demo_root demo_ed) (replicate 32 5) (map_of (nodes w2) demo_ed)"
    using rotation_crash_safe [OF setting demo_quiet [OF d]] by blast
  moreover have "kt_of demo_root demo_ed = KT_ED_SEED" by (simp add: kt_of_def demo_ed_def priv_of_def join_def)
  ultimately show ?thesis using d run run' by metis
qed

text \<open>C4. What one rotation of a quiet site leaves, by its outcome.  If it returns, the provider holds a freshly drawn
  master key, every keyfile opens to its payload under it and the rotation area is gone.  If it fails, either the
  manager is poisoned or every keyfile still opens under the key that the provider holds.  If the process dies, every keyfile
  still carries its payload.\<close>

theorem rotation_outcomes:
  assumes "sound_setting cr prov cur root sh (rng_tape w) m"
    and "site cur (rng_tape w) root (quiet cr root L PL (master_keys (rng_tape w) m) m) w"
  shows "case rotate_now cr sh w of
      (Done u, w') \<Rightarrow> (\<exists>k. drawn (rng_tape w) 32 k \<and> cur (map_of (nodes w')) (pstate w') = Some k
        \<and> all_hold cr root L PL k (map_of (nodes w')) \<and> map_of (nodes w') (rot_of root) = None)
    | (Fail e, w') \<Rightarrow> poisoned w' \<or> usable cr root L PL (map_of (nodes w')) (cur (map_of (nodes w')) (pstate w'))
    | (Crash, w') \<Rightarrow> (\<forall>q\<in>L. \<exists>mk. holds cr mk (kt_of root q) (PL q) (map_of (nodes w') q))"
proof -
  note loc = setting_rotation(1) [OF assms(1)]
  note T = rotation_site.rotate_site [OF loc setting_rotation(2) [OF assms(1)]]
  obtain out w' where run: "rotate_now cr sh w = (out, w')" by fastforce
  show ?thesis
  proof (cases out)
    case (Done u)
    obtain k where "drawn (rng_tape w) 32 k"
        and k: "site cur (rng_tape w) root (rotation_site.finished root cr L PL (master_keys (rng_tape w) m) k) w'"
      using triple_DoneD [OF T assms(2)] run Done by blast
    then show ?thesis using rotation_site.finished_usable [OF loc k] run Done by (auto simp: site_def)
  next
    case (Fail e)
    have "rotation_site.is_contained cur root cr (rng_tape w) L PL (master_keys (rng_tape w) m) w'"
      using triple_FailD [OF T assms(2)] run Fail by blast
    then show ?thesis using run Fail by (auto simp: rotation_site.is_contained_def [OF loc] site_def)
  next
    case Crash
    have "site cur (rng_tape w) root (safe cr root L PL (master_keys (rng_tape w) m)) w'"
      using triple_CrashD [OF T assms(2)] run Crash by blast
    then show ?thesis using rotation_site.safe_payloads [OF loc] run Crash by simp
  qed
qed

theorem rotation_outcomes_witness:
  "\<exists>d out w'. open_bytes sample_crates demo_mk KT_ED_SEED d = Inr (replicate 32 5)
    \<and> rotate_now sample_crates demo_shared (demo_world (demo_nodes d) 40) = (out, w')
    \<and> (case out of
        Done u \<Rightarrow> \<exists>k. drawn of_nat 32 k \<and> holds sample_crates k KT_ED_SEED (replicate 32 5) (map_of (nodes w') demo_ed)
      | Fail e \<Rightarrow> poisoned w' \<or> usable sample_crates demo_root {demo_ed} (\<lambda>_. replicate 32 5) (map_of (nodes w'))
          (plain_current demo_mkp (map_of (nodes w')) (pstate w'))
      | Crash \<Rightarrow> \<exists>mk. holds sample_crates mk KT_ED_SEED (replicate 32 5) (map_of (nodes w') demo_ed))"
proof -
  obtain d where d: "open_bytes sample_crates demo_mk KT_ED_SEED d = Inr (replicate 32 5)" "length d \<le> MAX_KEYFILE_SIZE"
    using demo_encoded by blast
  let ?w = "demo_world (demo_nodes d) 40"
  obtain out w' where run: "rotate_now sample_crates demo_shared ?w = (out, w')" by fastforce
  have tape: "rng_tape ?w = of_nat" by (simp add: demo_world_def clean_world_def)
  have setting: "sound_setting sample_crates (plaintext_provider sample_crates demo_mkp) (plain_current demo_mkp)
      demo_root demo_shared (rng_tape ?w) demo_mk"
    using demo_setting tape by simp
  have kt: "kt_of demo_root demo_ed = KT_ED_SEED" by (simp add: kt_of_def demo_ed_def priv_of_def join_def)
  show ?thesis
    using rotation_outcomes [OF setting demo_quiet [OF d]]
    by (intro exI [of _ d] exI [of _ out] exI [of _ w'] conjI d run)
      (cases out; auto simp: run tape kt all_hold_def)
qed

text \<open>C16. Recovery cannot get past a rotation area that has its ready marker and lacks the staged copy of a keyfile: in
  no run, whatever else succeeds, does it return.  The removal of the area is not atomic and may take the staged
  copies before the marker, so a process that dies while cleaning up a finished rotation can leave such an area.\<close>

theorem maimed_area_blocks_recovery:
  assumes "mk_store prov cur root" and "hex_ok cr" and "root \<noteq> []" and "\<And>q. prefix q root \<Longrightarrow> \<not> is_tmp q" and "laid_out sh root prov"
    and "site cur (rng_tape w) root (\<lambda>B c. B (ready_of root) \<noteq> None \<and> q \<in> live_paths root B \<and> B (staged_of root q) = None) w"
  shows "recover_shared cr sh w \<noteq> (Done u, w')"
proof -
  let ?L = "live_paths root (map_of (nodes w))"
  have loc: "site_rules prov cur root cr" using assms(1-4) by (auto simp: site_rules_def site_rules_axioms_def)
  have m: "site cur (rng_tape w) root (maimed root ?L q) w" and q: "q \<in> ?L" using assms(6) by (auto simp: site_def maimed_def)
  have keys: "key_path root k" if "k \<in> ?L" for k by (rule live_key_path [OF that])
  have "recover_shared cr sh = recover_pending_rotation_if_any cr root (priv_of root) (secrets_of root) (rot_of root) prov"
    using assms(5) by (simp add: recover_shared_def laid_out_def)
  then show ?thesis
    using triple_DoneD [OF site_rules.recover_maimed [OF loc q keys] m, of u w'] by auto
qed

theorem maimed_area_blocks_recovery_witness:
  "\<exists>w1. cleanup_rotation_dir (rot_of demo_root) (area_world []) = (Crash, w1)
    \<and> (\<forall>u w'. recover_shared sample_crates demo_shared (w1\<lparr>faults := (\<lambda>op n. None)\<rparr>) \<noteq> (Done u, w'))"
proof -
  obtain out w1 where run: "cleanup_rotation_dir (rot_of demo_root) (area_world []) = (out, w1)" by fastforce
  then have out: "out = Crash" and ns: "nodes w1 = maimed_nodes" using area_crash by simp_all
  let ?w = "w1\<lparr>faults := (\<lambda>op n. None)\<rparr>"
  have lay: "laid_out demo_shared demo_root (plaintext_provider sample_crates demo_mkp)" by (simp add: laid_out_def demo_shared_def)
  have "site (plain_current demo_mkp) (rng_tape ?w) demo_root (\<lambda>B c. B (ready_of demo_root) \<noteq> None
      \<and> demo_ed \<in> live_paths demo_root B \<and> B (staged_of demo_root demo_ed) = None) ?w"
    using maimed_wf maimed_dirs maimed_live maimed_lacks by (simp add: site_def ns)
  then have "recover_shared sample_crates demo_shared ?w \<noteq> (Done u, w')" for u w'
    using maimed_area_blocks_recovery [OF demo_store sample_hex_ok _ demo_names(1) lay] by (simp add: demo_root_def)
  then show ?thesis using run out by blast
qed

text \<open>C12. The rotation thread makes progress.  In every fair run, whatever the other threads do: a stop request ends the
  thread; if the interval is no longer changed and the clock reaches the deadline, the thread rotates or has ended; and it
  ends only by a stop request, by a failed rotation under the strict policy (which poisons the manager before the callback
  runs), when the next deadline is beyond the clock's range, or with the process.\<close>

theorem rotation_thread_progress:
  assumes "fair_run cr sh at st"
  shows "(wc_stop (ctl_of (st i)) \<longrightarrow> (\<exists>j\<ge>i. pc_of (st j) = Exited))
    \<and> ((\<forall>k\<ge>i. st (Suc k) = worker_step cr sh (at k) (st k) \<or> ctl_of (st (Suc k)) = ctl_of (st k))
        \<and> (\<exists>k\<ge>i. wc_next_rotation_at (ctl_of (st i)) \<le> at k) \<longrightarrow>
       (\<exists>j\<ge>i. rotates_at cr sh at st j \<or> pc_of (st j) = Exited))
    \<and> (pc_of (st i) \<noteq> Exited \<and> pc_of (st (Suc i)) = Exited \<longrightarrow>
       wc_stop (ctl_of (st i)) \<or> (\<exists>every. pc_of (st i) = Rotating every \<and> instant_checked_add (at i) every = None)
       \<or> (\<exists>e w cb. rotate_now cr sh (world_of (st i)) = (Fail e, w) \<and> sh_error_policy sh = PolicyStrict cb
            \<and> world_of (st (Suc i)) = cb e (w\<lparr>poisoned := True\<rparr>))
       \<or> rotate_now cr sh (world_of (st i)) = (Crash, world_of (st (Suc i))))"
proof (intro conjI impI)
  show "\<exists>j\<ge>i. pc_of (st j) = Exited" if "wc_stop (ctl_of (st i))" using run_stops assms that by blast
next
  assume "(\<forall>k\<ge>i. st (Suc k) = worker_step cr sh (at k) (st k) \<or> ctl_of (st (Suc k)) = ctl_of (st k))
    \<and> (\<exists>k\<ge>i. wc_next_rotation_at (ctl_of (st i)) \<le> at k)"
  then show "\<exists>j\<ge>i. rotates_at cr sh at st j \<or> pc_of (st j) = Exited" using run_rotates [OF assms] by blast
next
  assume ends: "pc_of (st i) \<noteq> Exited \<and> pc_of (st (Suc i)) = Exited"
  obtain pc ctl w where s: "st i = (pc, ctl, w)" by (cases "st i")
  obtain ctl' w' where s': "st (Suc i) = (Exited, ctl', w')" using ends by (cases "st (Suc i)") auto
  have "manager_step cr sh (at i) (st i) (st (Suc i))" using assms by (simp add: fair_run_def)
  then have "worker_step cr sh (at i) (pc, ctl, w) = (Exited, ctl', w')" using other_step ends s s' by metis
  then show "wc_stop (ctl_of (st i)) \<or> (\<exists>every. pc_of (st i) = Rotating every \<and> instant_checked_add (at i) every = None)
       \<or> (\<exists>e w cb. rotate_now cr sh (world_of (st i)) = (Fail e, w) \<and> sh_error_policy sh = PolicyStrict cb
            \<and> world_of (st (Suc i)) = cb e (w\<lparr>poisoned := True\<rparr>))
       \<or> rotate_now cr sh (world_of (st i)) = (Crash, world_of (st (Suc i)))"
    by (rule worker_exits) (use ends s s' in auto)
qed

theorem rotation_thread_progress_witness:
  "\<exists>j. rotates_at sample_crates demo_patient (\<lambda>i. i) demo_thread j \<or> pc_of (demo_thread j) = Exited"
  using rotation_thread_progress [OF demo_thread_fair, of 0] by (auto simp: demo_ctl_def)

text \<open>C40. An interval that is set while a rotation runs does not take effect for the next rotation: if the thread goes on
  after that rotation, its deadline is the instant it ends plus the interval in force when it began, although the control
  block has the new interval.\<close>

theorem interval_set_during_rotation:
  assumes "set_rotate_interval now interval ctl = (Inr (), ctl1)"
    and "worker_step cr sh fin (Rotating every, ctl1, w) = (AtLoop, ctl2, w')"
  shows "wc_rotate_every ctl2 = interval \<and> wc_next_rotation_at ctl2 = fin + every"
  using worker_rotating [OF assms(2)] assms(1)
  by (auto simp: set_rotate_interval_def instant_checked_add_def split: if_splits option.splits)

theorem interval_set_during_rotation_witness:
  "\<exists>ctl1 ctl2 w'. set_rotate_interval 50 (2 * MIN_ROTATE_EVERY) (demo_ctl 0) = (Inr (), ctl1)
    \<and> worker_step sample_crates demo_patient 90 (Rotating 40, ctl1, dead_world) = (AtLoop, ctl2, w')
    \<and> wc_rotate_every ctl2 = 2 * MIN_ROTATE_EVERY \<and> wc_next_rotation_at ctl2 = 130"
proof -
  let ?c = "demo_ctl 0\<lparr>wc_rotate_every := 2 * MIN_ROTATE_EVERY, wc_next_rotation_at := 50 + 2 * MIN_ROTATE_EVERY\<rparr>"
  have set: "set_rotate_interval 50 (2 * MIN_ROTATE_EVERY) (demo_ctl 0) = (Inr (), ?c)"
    by (simp add: set_rotate_interval_def instant_checked_add_def MIN_ROTATE_EVERY_def)
  obtain w' where "worker_step sample_crates demo_patient 90 (Rotating 40, ?c, dead_world) = (AtLoop, ?c\<lparr>wc_next_rotation_at := 130\<rparr>, w')"
    using demo_rotates by (auto simp: worker_step_def worker_reschedule_def instant_checked_add_def demo_ctl_def)
  then show ?thesis using interval_set_during_rotation [OF set] set by auto
qed

text \<open>C27. A poisoned manager fails closed: every operation of its interface that needs the master key is refused with the same
  error before any system call, whatever its arguments, so that no key is loaded and nothing on the disk changes.  (The rotation
  thread is no such operation: it does not look at the flag.)\<close>

theorem poisoned_manager_refuses:
  assumes "poisoned w"
  shows "get_or_create_secret32 cr sh label w = (Fail (internal_error ''keymanager_rotation_disabled''), w)
    \<and> encrypt_with_label cr sh label pt aad w = (Fail (internal_error ''keymanager_rotation_disabled''), w)
    \<and> decrypt_with_label cr sh label blob aad w = (Fail (internal_error ''keymanager_rotation_disabled''), w)
    \<and> load_or_create_sealed_blob cr sh label gen w = (Fail (internal_error ''keymanager_rotation_disabled''), w)
    \<and> km_sign_double cr sh msg c w = (Fail (internal_error ''keymanager_rotation_disabled''), w)
    \<and> reload_public_keys cr sh w = (Fail (internal_error ''keymanager_rotation_disabled''), w)"
  using assms
  by (simp add: get_or_create_secret32_def encrypt_with_label_def decrypt_with_label_def load_or_create_sealed_blob_def
      km_sign_double_def signing_seeds_def reload_public_keys_def read_gate_def check_live_def bindM_def)

theorem poisoned_manager_refuses_witness:
  "km_sign_double sample_crates demo_shared [1] ''c'' (snd (set_poisoned dead_world))
     = (Fail (internal_error ''keymanager_rotation_disabled''), snd (set_poisoned dead_world))"
  using poisoned_manager_refuses [of "snd (set_poisoned dead_world)"] by (simp add: set_poisoned_def)

end
