(* ===== verification/Spec2Isabelle.thy ===== *)
theory Spec2Isabelle
  imports Store Sign Hpke Json Opaque RotationSafety
begin

text \<open>
  Verification of the \<^verbatim>\<open>lithium_core\<close> crate: hybrid (classical and post-quantum) encryption and
  signatures, secret containers, and an on-disk key store with master-key rotation.

  \<^bold>\<open>Parts and how they interact.\<close>  Every fallible function returns the error type of
  \<^verbatim>\<open>error.rs\<close>.  The byte containers and the strict hex codec (\<^verbatim>\<open>hexcodec.rs\<close>, \<^verbatim>\<open>public/\<close>,
  \<^verbatim>\<open>secrets/bytes.rs\<close>, \<^verbatim>\<open>secrets/string.rs\<close>) carry keys and wire data.  A context
  (\<^verbatim>\<open>crypto/context.rs\<close>) separates the uses of a key; the AEAD framing, key derivation and hashing of
  \<^verbatim>\<open>crypto/\<close> bind it into everything they do.  On these stand the signatures (\<^verbatim>\<open>crypto/sign.rs\<close>), the
  hybrid box (\<^verbatim>\<open>crypto/kyberbox.rs\<close>), the HPKE layer (\<^verbatim>\<open>hpke/\<close>), the OPAQUE wrappers (\<^verbatim>\<open>opaque/\<close>), the
  keyfile (\<^verbatim>\<open>keys/keyfile.rs\<close>), the key manager on top of the keyfile, the signatures and the locked
  arena (\<^verbatim>\<open>keys/manager.rs\<close>, \<^verbatim>\<open>secrets/arena.rs\<close>), and the store of ephemeral secrets
  (\<^verbatim>\<open>utils/store.rs\<close>).  All paths are below \<^verbatim>\<open>src/src\<close>.

  \<^bold>\<open>Conventions.\<close>  Pure fallible code is a function into \<open>lithium_error + 'a\<close>.  Code with effects is a
  function from a world to an outcome and a world; an outcome is a value, an error, or the death of
  the process (\<open>Done\<close>, \<open>Fail\<close>, \<open>Crash\<close>).  The world (theory \<open>World\<close>) has the directory tree as an association
  list from paths to nodes, a tape for the random generator, the arena, and a table that decides
  for every system call whether it fails, is the point where the process dies, or writes only a
  part: a statement about every world is a statement about every pattern of failures.  Machine
  integers are words where their width matters (versions, sequence numbers, sizes on the wire) and
  naturals with the check written out where the source uses checked arithmetic.  The third-party
  crates are one record of functions (theory \<open>Crates\<close>); what is assumed of each is a named predicate
  and a hypothesis of the theorems that use it, and \<open>Samples\<close> has an instance that satisfies all of them.

  \<^bold>\<open>Theories.\<close>
  \<^item> \<open>Prelude\<close>: words, big-endian integers, the error monad and the collections of simplification rules.
  \<^item> \<open>Errors\<close>: \<^verbatim>\<open>error.rs\<close>; coarsening makes failures indistinguishable.
  \<^item> \<open>Codec\<close>: the contracts of the wire types as locales, interpreted by the component theories.
  \<^item> \<open>Crates\<close>, \<open>Samples\<close>: the parameters, their laws, and an instance.
  \<^item> \<open>ByteTypes\<close>: hex, containers, the writer that wipes the buffers it outgrows.
  \<^item> \<open>Contexts\<close>: segments, labels and binding; the bound bytes determine context and associated data.
  \<^item> \<open>Arena\<close>: the allocator on the bytes of the mapping; live regions never overlap and freed memory is zero.
  \<^item> \<open>World\<close>, \<open>Hoare\<close>, \<open>Trees\<close>: the environment, triples with one postcondition for each of the three exits,
    and well-formed directory trees.
  \<^item> \<open>Primitives\<close>: \<^verbatim>\<open>aead.rs\<close>, \<^verbatim>\<open>kdf.rs\<close>, \<^verbatim>\<open>hash.rs\<close>, \<^verbatim>\<open>keys.rs\<close>; round trip and uniform rejection.
  \<^item> \<open>KeyRecord\<close>, \<open>KeyFile\<close>, \<open>KeyFileRuns\<close>: the keyfile format and its envelope encryption; the atomic writers,
    whose target has its old content or the complete new one in every run; runs without failures, in which what
    is saved is read back.
  \<^item> \<open>Sign\<close>, \<open>KyberBox\<close>, \<open>Hpke\<close>: correctness, binding of the inputs, refusal of malformed ones, wire forms,
    and sessions as an in-order channel whose ciphertexts are encryptions under different nonces and which fails closed.  A dual
    message opens only with the context, associated data and keys it was sealed with, given idealised key derivation and authenticity
    for that one message.
  \<^item> \<open>Manager\<close>: the key manager: start, key material, label secrets, staging, commit and recovery of a rotation,
    the rotation thread cut at its lock points, and the gated operations.
  \<^item> \<open>Site\<close>, \<open>SiteOps\<close>: what a manager has on disk (\<open>site\<close>: a well-formed tree, the directories, and an assertion on the tree
    and the key that the provider holds), and what each file operation may change of it.  The contract of a provider of the
    master key is the locale \<open>mk_store\<close>.
  \<^item> \<open>Phases\<close>, \<open>Rotation\<close>, \<open>RotationRuns\<close>: the states a rotation goes through (\<open>quiet\<close>, \<open>pending\<close>, \<open>settled\<close>; \<open>safe\<close> is any of
    them), a triple for each part of \<^verbatim>\<open>rotate_now\<close>, \<^verbatim>\<open>commit_rotation\<close> and \<^verbatim>\<open>recover_pending_rotation_if_any\<close>, and their composition.
  \<^item> \<open>PlainSite\<close>: the plain-text provider satisfies the contract.  \<open>Lives\<close>: sequences of lives of the process.  \<open>SampleSite\<close>: a
    small site on which the locales are interpreted and the witnesses run.
  \<^item> \<open>Worker\<close>: the rotation thread and the threads around it as a transition system, with fair runs.
  \<^item> \<open>RotationSafety\<close>: rotation is crash-safe over any number of lives; the outcomes of one rotation; the rotation area that
    no recovery gets past; progress of the thread; a poisoned manager refuses.
  \<^item> \<open>Store\<close>: the ephemeral store refines a map with expiry instants; the sweep terminates and is exact; over any history of calls a
    secret is taken once, and the cleanup thread is notified whenever it would sleep too long.
  \<^item> \<open>Json\<close>: typed access to secret documents; dropping one wipes every buffer.
  \<^item> \<open>Opaque\<close>: the protocol steps and the wrapped data key.

  \<^bold>\<open>Assumptions of the rotation theorems.\<close>  The package laws; a provider whose \<open>load\<close> returns what was stored last and whose
  \<open>store\<close> is atomic (proved for the plain-text provider); master keys that the envelope encryption tells apart; and no failing
  \<open>stat\<close>, since the source takes a path whose metadata cannot be read for an absent one.  Every other system call may fail or be
  the last one of the process, at any point.  A life of the process rotates or recovers; the statements hold for a recovery
  that returns, and an area that lost a staged copy while it was removed is shown to keep recovery from returning.

  \<^bold>\<open>Bounds.\<close>  Keyfiles are read up to 65536 bytes, so payloads are readable up to 65396 bytes.  Temporary
  names are tried 8 times, as in the source.  \<open>remove_dir_all\<close> walks the tree as deep as its longest path, which
  reaches every node.  The other recursions are on lists or have a termination proof.

  \<^bold>\<open>Not modelled.\<close>  The algorithms of the third-party crates (parameters); the Windows and fallback variants of the
  system layer and the features \<^verbatim>\<open>cached-mk\<close> and \<^verbatim>\<open>fuzzing\<close>; locks poisoned by a panicking thread;
  serialization with \<^verbatim>\<open>serde\<close>; the limits of memory allocation (a \<^verbatim>\<open>Vec\<close> larger than
  \<^verbatim>\<open>isize::MAX\<close> panics); module declarations, re-exports and unit tests.  Operations of the manager run one at
  a time, as its lock makes them do.
\<close>

end
